(* ===== verification/Prelude.thy ===== *)
theory Prelude imports Complex_Main "HOL-Library.Log_Nat" "HOL-Library.AList"
  "HOL-Library.Product_Lexorder"
  "HOL-Library.List_Lexorder" "HOL-Library.Multiset" "HOL-Library.Word" begin

section \<open>Shared types, hints and generic lemmas\<close>

text \<open>
  What every component of the development uses: the collections its lemmas are gathered in,
  the names of the Rust types that have a direct counterpart in HOL, and facts on association
  lists, sorting and lists that several components need.

  A Rust \<open>String\<close> is its sequence of UTF-8 bytes, hence a \<^typ>\<open>string\<close> (a list of 8-bit
  characters); \<open>bytes::Bytes\<close> and \<open>Vec<u8>\<close> are the same type, so that
  \<open>Bytes::from(String)\<close> is the identity.  A Rust \<open>HashMap\<close> that the code iterates over is an
  association list with distinct keys, whose order stands for the unspecified iteration order.
\<close>

named_theorems backend_simps \<open>equations of backend operations on the abstract view\<close>
named_theorems wf_intros \<open>operations that keep a component's invariant\<close>

type_synonym bytes = string

subsection \<open>Association lists as hash maps\<close>

lemma map_of_eq_Some_iff_distinct:
  "distinct (map fst al) \<Longrightarrow> (map_of al k = Some v) \<longleftrightarrow> (k, v) \<in> set al"
  by (rule map_of_eq_Some_iff)

lemma distinct_map_fst_update:
  "distinct (map fst al) \<Longrightarrow> distinct (map fst (AList.update k v al))"
  by (rule distinct_update)

lemma set_update_distinct:
  assumes "distinct (map fst al)"
  shows "set (AList.update k v al) = {(k', v'). (k', v') \<in> set al \<and> k' \<noteq> k} \<union> {(k, v)}"
  using assms
proof (induction al)
  case Nil
  then show ?case by simp
next
  case (Cons p al)
  obtain k' v' where [simp]: "p = (k', v')" by (cases p)
  show ?case
  proof (cases "k' = k")
    case True
    with Cons.prems have "(k, w) \<notin> set al" for w by (auto simp: rev_image_eqI)
    with True show ?thesis by auto
  next
    case False
    with Cons show ?thesis by auto
  qed
qed

lemma values_update_subset:
  "snd ` set (AList.update k v al) \<subseteq> insert v (snd ` set al)"
  by (induction al) auto

lemma map_of_filter_key: "map_of (filter (\<lambda>p. P (fst p)) al) k = (if P k then map_of al k else None)"
  by (induction al) auto

subsection \<open>Sorting by a key that no two elements share\<close>

text \<open>
  \<open>sort_by\<close> of the Rust library is a stable sort, as \<^const>\<open>sort_key\<close> is.  When the key is
  injective on the elements, the result depends only on which elements are sorted, not on the
  order (of a hash map's iterator) they arrive in.
\<close>

lemma sort_key_unique:
  assumes "mset xs = mset ys" and "inj_on f (set xs)" and "distinct xs"
  shows "sort_key f xs = sort_key f ys"
proof -
  have "mset (sort_key f xs) = mset (sort_key f ys)" using assms(1) by simp
  moreover have "sorted (map f (sort_key f xs))" and "sorted (map f (sort_key f ys))" by simp_all
  moreover have "map f (sort_key f xs) = map f (sort_key f ys)"
    using calculation by (metis mset_map properties_for_sort)
  moreover have "inj_on f (set (sort_key f xs) \<union> set (sort_key f ys))"
    using assms(1,2) by (metis set_mset_mset set_sort sup.idem)
  ultimately show ?thesis by (metis map_inj_on)
qed

lemma take_sorted_least:
  assumes "sorted (map f xs)" and "x \<in> set (take n xs)" and "y \<in> set (drop n xs)"
  shows "f x \<le> f y"
proof -
  have "sorted (map f (take n xs) @ map f (drop n xs))"
    using assms(1) by (metis append_take_drop_id map_append)
  with assms(2,3) show ?thesis by (auto simp: sorted_append)
qed

lemma sorted_map_fst:
  fixes f :: "'a \<Rightarrow> 'b::linorder \<times> 'c::linorder"
  shows "sorted (map f xs) \<Longrightarrow> sorted (map (\<lambda>x. fst (f x)) xs)"
  by (induction xs) (auto simp: less_eq_prod_def less_imp_le)

lemma distinct_map_sort_key:
  "distinct (map g (sort_key f xs)) \<longleftrightarrow> distinct (map g xs)"
  by (metis distinct_map distinct_sort set_sort)

lemma take_short: "length (take n xs) < n \<Longrightarrow> take n xs = xs"
  by (simp add: min_def split: if_splits)

subsection \<open>Options\<close>

lemma option_bind_Some_iff: "Option.bind x f = Some y \<longleftrightarrow> (\<exists>z. x = Some z \<and> f z = Some y)"
  by (cases x) auto

end
