(* ===== verification/Float64.thy ===== *)
theory Float64 imports Prelude begin

section \<open>Finite f64 arithmetic\<close>

text \<open>
  \<open>Timestamp\<close> is an \<open>f64\<close> and every duration passes through one, so the scheduler's grid and the
  due times are only as right as IEEE 754 arithmetic makes them.  HOL has no binary64 type among
  the libraries used here, so it is written out: a finite \<open>f64\<close> is the rational number it denotes,
  and \<open>fl\<close> rounds an exact result to the nearest one, ties to even: 53 bits of significand and
  a least exponent of -1074.  Each operation of the code is the exact operation followed by \<open>fl\<close>.
  Infinities, NaN, the sign of zero and overflow beyond \<open>2 ^ 1024\<close> are not represented; no value
  below reaches them unless a caller supplies one.
\<close>

type_synonym f64 = rat

subsection \<open>Rounding to an integer, ties to even\<close>

definition rhe :: "rat \<Rightarrow> int" where
  "rhe x = (let n = \<lfloor>x\<rfloor>; d = x - of_int n
            in if d < 1/2 then n else if 1/2 < d then n + 1 else if even n then n else n + 1)"

lemma rhe_of_int [simp]: "rhe (of_int n) = n"
  by (simp add: rhe_def)

lemma rhe_numeral [simp]: "rhe (numeral n) = numeral n"
  using rhe_of_int [of "numeral n"] by simp

lemma rhe_0 [simp]: "rhe 0 = 0" and rhe_1 [simp]: "rhe 1 = 1"
  using rhe_of_int [of 0] rhe_of_int [of 1] by simp_all

lemma rhe_cases: "rhe x = \<lfloor>x\<rfloor> \<and> x - of_int \<lfloor>x\<rfloor> \<le> 1/2 \<or> rhe x = \<lfloor>x\<rfloor> + 1 \<and> 1/2 \<le> x - of_int \<lfloor>x\<rfloor>"
  by (auto simp: rhe_def Let_def)

lemma rhe_cases_rat:
  obtains (down) "(of_int (rhe x) :: rat) = of_int \<lfloor>x\<rfloor>" "x - of_int \<lfloor>x\<rfloor> \<le> 1/2"
    | (up) "(of_int (rhe x) :: rat) = of_int \<lfloor>x\<rfloor> + 1" "1/2 \<le> x - of_int \<lfloor>x\<rfloor>"
  using rhe_cases [of x] by (metis of_int_1 of_int_add)

lemma floor_rat_bounds: "(of_int \<lfloor>x :: rat\<rfloor> :: rat) \<le> x" "(x :: rat) < of_int \<lfloor>x\<rfloor> + 1"
  by linarith+

lemma rhe_nearest: "\<bar>of_int (rhe x) - x\<bar> \<le> \<bar>of_int m - x\<bar>"
proof (cases "m \<le> \<lfloor>x\<rfloor>")
  case True
  then have "(of_int m :: rat) \<le> of_int \<lfloor>x\<rfloor>" by simp
  with floor_rat_bounds [of x] show ?thesis by (cases x rule: rhe_cases_rat) linarith+
next
  case False
  then have "\<lfloor>x\<rfloor> + 1 \<le> m" by simp
  then have "(of_int \<lfloor>x\<rfloor> + 1 :: rat) \<le> of_int m" by (metis of_int_1 of_int_add of_int_le_iff)
  with floor_rat_bounds [of x] show ?thesis by (cases x rule: rhe_cases_rat) linarith+
qed

lemma rhe_error: "\<bar>of_int (rhe x) - x\<bar> \<le> 1/2"
  using floor_rat_bounds [of x] by (cases x rule: rhe_cases_rat) linarith+

lemma rhe_unique:
  fixes x :: rat
  assumes "\<bar>x - of_int n\<bar> < 1/2" shows "rhe x = n"
proof -
  have "\<bar>(of_int (rhe x) :: rat) - of_int n\<bar> < 1" using rhe_error [of x] assms unfolding abs_less_iff abs_le_iff by linarith
  then have "\<bar>(of_int (rhe x - n) :: rat)\<bar> < 1" by simp
  then have "\<bar>rhe x - n\<bar> < 1" by (simp only: of_int_abs [symmetric] of_int_less_1_iff)
  then show ?thesis by simp
qed

lemma rhe_ge: "of_int n \<le> x \<Longrightarrow> n \<le> rhe x"
proof -
  assume "of_int n \<le> x"
  then have "n \<le> \<lfloor>x\<rfloor>" by (simp add: le_floor_iff)
  with rhe_cases [of x] show "n \<le> rhe x" by linarith
qed

lemma rhe_le:
  assumes "x \<le> of_int n" shows "rhe x \<le> n"
proof (cases "x = of_int n")
  case False
  with assms have "\<lfloor>x\<rfloor> < n" by (simp add: floor_less_iff)
  then show ?thesis using rhe_cases [of x] by linarith
qed simp

subsection \<open>The exponent of a positive rational\<close>

definition flog2 :: "rat \<Rightarrow> int" where
  "flog2 x = (let (p, q) = quotient_of x;
                  k = int (floorlog 2 (nat p)) - int (floorlog 2 (nat q))
              in if 2 powi k \<le> x then k else k - 1)"

lemma powi2_add: "(2 :: rat) powi (a + b) = 2 powi a * 2 powi b"
  by (simp add: power_int_add)

lemma powi2_pos [simp]: "0 < (2 :: rat) powi a"
  by simp

lemma powi2_nz [simp]: "(2 :: rat) powi a \<noteq> 0"
  by simp

lemma powi2_mono: "a \<le> b \<Longrightarrow> (2 :: rat) powi a \<le> 2 powi b"
  by (rule power_int_increasing) auto

lemma flog2_bounds:
  assumes "0 < x"
  shows "2 powi flog2 x \<le> x \<and> x < 2 powi (flog2 x + 1)"
proof -
  obtain p q where pq: "quotient_of x = (p, q)" by (cases "quotient_of x")
  then have q: "0 < q" and x: "x = of_int p / of_int q"
    by (auto simp: quotient_of_denom_pos quotient_of_div)
  with assms have p: "0 < p" by (simp add: zero_less_divide_iff)
  define a b where "a = floorlog 2 (nat p)" and "b = floorlog 2 (nat q)"
  have A: "2 ^ (a - 1) \<le> nat p" "nat p < 2 ^ a" and B: "2 ^ (b - 1) \<le> nat q" "nat q < 2 ^ b"
    using floorlog_bounds [of "nat p" 2] floorlog_bounds [of "nat q" 2] p q
    by (simp_all add: a_def b_def)
  have ab: "0 < a" "0 < b"
    using p q by (auto simp: a_def b_def floorlog_eq_zero_iff intro!: Nat.gr0I)
  have A': "(2 :: rat) powi (int a - 1) \<le> of_int p" "of_int p < (2 :: rat) powi int a"
  proof -
    have "(2 :: rat) ^ (a - 1) = of_nat (2 ^ (a - 1))" by simp
    also have "\<dots> \<le> of_nat (nat p)" using A(1) by (simp only: of_nat_le_iff)
    finally show "(2 :: rat) powi (int a - 1) \<le> of_int p"
      using ab p by (simp add: power_int_def of_nat_nat nat_diff_distrib)
    have "(of_nat (nat p) :: rat) < of_nat (2 ^ a)" using A(2) by (simp only: of_nat_less_iff)
    then show "of_int p < (2 :: rat) powi int a" using p by simp
  qed
  have B': "(2 :: rat) powi (int b - 1) \<le> of_int q" "of_int q < (2 :: rat) powi int b"
  proof -
    have "(2 :: rat) ^ (b - 1) = of_nat (2 ^ (b - 1))" by simp
    also have "\<dots> \<le> of_nat (nat q)" using B(1) by (simp only: of_nat_le_iff)
    finally show "(2 :: rat) powi (int b - 1) \<le> of_int q"
      using ab q by (simp add: power_int_def of_nat_nat nat_diff_distrib)
    have "(of_nat (nat q) :: rat) < of_nat (2 ^ b)" using B(2) by (simp only: of_nat_less_iff)
    then show "of_int q < (2 :: rat) powi int b" using q by simp
  qed
  define k where "k = int a - int b"
  have up: "x < 2 powi (k + 1)"
  proof -
    have "x < 2 powi int a / 2 powi (int b - 1)"
      unfolding x using A'(2) B'(1) q p
      by (intro frac_less) auto
    also have "\<dots> = 2 powi (k + 1)"
      by (subst power_int_diff [symmetric]) (simp_all add: k_def algebra_simps)
    finally show ?thesis .
  qed
  have low: "2 powi (k - 1) < x"
  proof -
    have "(2 :: rat) powi (k - 1) = 2 powi (int a - 1) / 2 powi int b"
      by (subst power_int_diff [symmetric]) (simp_all add: k_def diff_diff_eq add.commute)
    also have "\<dots> < of_int p / of_int q"
      using A'(1) B'(2) q p by (intro frac_less2) auto
    finally show ?thesis by (simp add: x)
  qed
  have "flog2 x = (if 2 powi k \<le> x then k else k - 1)"
    by (simp add: flog2_def pq k_def a_def b_def)
  with up low show ?thesis by auto
qed

subsection \<open>Rounding to the nearest f64\<close>

definition fl_exp :: "rat \<Rightarrow> int" where
  "fl_exp x = max (flog2 \<bar>x\<bar> - 52) (-1074)"

definition fl :: "rat \<Rightarrow> f64" where
  "fl x = (if x = 0 then 0 else of_int (rhe (x / 2 powi fl_exp x)) * 2 powi fl_exp x)"

text \<open>The values a finite \<open>f64\<close> can hold: at most 53 significant bits above the least exponent.\<close>

definition is_f64 :: "rat \<Rightarrow> bool" where
  "is_f64 x \<longleftrightarrow> (\<exists>m e. \<bar>m\<bar> \<le> 2 ^ 53 \<and> -1074 \<le> e \<and> x = of_int m * 2 powi e)"

lemma fl_0 [simp]: "fl 0 = 0"
  by (simp add: fl_def)

text \<open>The rounding error, relative for normal results and absolute for the tiny ones.\<close>

lemma fl_error: "\<bar>fl x - x\<bar> \<le> \<bar>x\<bar> / 2 ^ 53 + 1 / 2 ^ 60"
proof (cases "x = 0")
  case False
  let ?u = "(2 :: rat) powi fl_exp x"
  have "x = x / ?u * ?u" by simp
  then have "fl x - x = (of_int (rhe (x / ?u)) - x / ?u) * ?u"
    using False by (simp add: fl_def left_diff_distrib)
  then have "\<bar>fl x - x\<bar> = \<bar>of_int (rhe (x / ?u)) - x / ?u\<bar> * ?u" by (simp add: abs_mult)
  also have "\<dots> \<le> 1 / 2 * ?u" by (intro mult_right_mono rhe_error) simp
  also have "?u \<le> 2 powi (flog2 \<bar>x\<bar> - 52) + 2 powi (- 60)"
  proof (cases "fl_exp x = flog2 \<bar>x\<bar> - 52")
    case ex: False
    then have "fl_exp x \<le> - 60" by (simp add: fl_exp_def)
    then have "?u \<le> 2 powi (- 60)" by (rule powi2_mono)
    with powi2_pos [of "flog2 \<bar>x\<bar> - 52"] show ?thesis by linarith
  qed simp
  also have "(2 :: rat) powi (flog2 \<bar>x\<bar> - 52) \<le> \<bar>x\<bar> / 2 ^ 52"
    using flog2_bounds [of "\<bar>x\<bar>"] False by (simp add: power_int_diff divide_right_mono)
  finally show ?thesis by (simp add: power_int_minus field_simps)
qed simp

lemma fl_exp_scaled:
  assumes "x \<noteq> 0"
  shows "\<bar>x / 2 powi fl_exp x\<bar> < 2 ^ 53"
proof -
  have "\<bar>x\<bar> < 2 powi (flog2 \<bar>x\<bar> + 1)" using flog2_bounds [of "\<bar>x\<bar>"] assms by simp
  also have "\<dots> \<le> 2 powi (fl_exp x + 53)" by (rule powi2_mono) (simp add: fl_exp_def)
  also have "\<dots> = 2 ^ 53 * 2 powi fl_exp x" by (simp add: powi2_add)
  finally show ?thesis by (simp add: abs_divide divide_less_eq)
qed

lemma is_f64_fl [simp, intro]: "is_f64 (fl x)"
proof (cases "x = 0")
  case True
  then show ?thesis by (auto simp: is_f64_def intro!: exI [of _ 0])
next
  case False
  let ?y = "x / 2 powi fl_exp x"
  have "\<bar>?y\<bar> \<le> of_int (2 ^ 53)" using fl_exp_scaled [OF False] by simp
  then have "?y \<le> of_int (2 ^ 53)" "of_int (- (2 ^ 53)) \<le> ?y" by (simp_all only: abs_le_iff of_int_minus) linarith
  then have "\<bar>rhe ?y\<bar> \<le> 2 ^ 53"
    by (metis abs_le_iff minus_le_iff rhe_ge rhe_le)
  moreover have "-1074 \<le> fl_exp x" by (simp add: fl_exp_def)
  moreover have "fl x = of_int (rhe ?y) * 2 powi fl_exp x" using False by (simp add: fl_def)
  ultimately show ?thesis unfolding is_f64_def by blast
qed

text \<open>No \<open>f64\<close> is nearer to the exact result than the one the operation returns.\<close>

lemma fl_nearest_multiple:
  assumes "x \<noteq> 0"
  shows "\<bar>fl x - x\<bar> \<le> \<bar>of_int m * 2 powi fl_exp x - x\<bar>"
proof -
  let ?u = "(2 :: rat) powi fl_exp x"
  have scale: "\<bar>of_int k * ?u - x\<bar> = \<bar>of_int k - x / ?u\<bar> * ?u" for k
  proof -
    have "of_int k * ?u - x = (of_int k - x / ?u) * ?u" by (simp add: left_diff_distrib)
    then show ?thesis by (simp add: abs_mult)
  qed
  have "\<bar>of_int (rhe (x / ?u)) - x / ?u\<bar> * ?u \<le> \<bar>of_int m - x / ?u\<bar> * ?u"
    by (intro mult_right_mono rhe_nearest) simp
  then show ?thesis using assms by (simp only: fl_def if_False scale)
qed

lemma f64_multiple:
  assumes "-1074 \<le> e'" and "e \<le> e'"
  obtains k where "of_int m * 2 powi e' = (of_int k * 2 powi e :: rat)"
proof
  have "(2 :: rat) powi e' = of_int (2 ^ nat (e' - e)) * 2 powi e"
    using powi2_add [of "e' - e" e] assms(2) by (simp add: power_int_def)
  then show "of_int m * 2 powi e' = (of_int (m * 2 ^ nat (e' - e)) * 2 powi e :: rat)"
    by (simp add: mult.assoc)
qed

lemma fl_nearest:
  assumes "is_f64 d"
  shows "\<bar>fl x - x\<bar> \<le> \<bar>d - x\<bar>"
proof (cases "x = 0")
  case False
  from assms obtain m e where m: "\<bar>m\<bar> \<le> 2 ^ 53" and e: "-1074 \<le> e" and d: "d = of_int m * 2 powi e"
    by (auto simp: is_f64_def)
  show ?thesis
  proof (cases "fl_exp x \<le> e")
    case True
    obtain k where "d = of_int k * 2 powi fl_exp x"
      using f64_multiple [OF e True, of m] d by metis
    then show ?thesis using fl_nearest_multiple [OF False] by simp
  next
    case small: False
    then have ex: "fl_exp x = flog2 \<bar>x\<bar> - 52" using e by (auto simp: fl_exp_def)
    define p :: rat where "p = 2 powi flog2 \<bar>x\<bar>"
    have px: "p \<le> \<bar>x\<bar>" using flog2_bounds [of "\<bar>x\<bar>"] False by (simp add: p_def)
    have pm: "p = of_int (2 ^ 52) * 2 powi fl_exp x"
      using powi2_add [of 52 "flog2 \<bar>x\<bar> - 52"] by (simp add: p_def ex)
    have "\<bar>d\<bar> = of_int \<bar>m\<bar> * 2 powi e" by (simp add: d abs_mult)
    also have "\<dots> \<le> of_int (2 ^ 53) * 2 powi e"
      by (intro mult_right_mono) (use m in \<open>simp_all only: of_int_le_iff powi2_pos less_imp_le\<close>)
    also have "\<dots> = 2 powi (e + 53)" by (simp add: powi2_add)
    also have "\<dots> \<le> p" unfolding p_def by (rule powi2_mono) (use small ex in simp)
    finally have dp: "\<bar>d\<bar> \<le> p" .
    have near: "\<bar>fl x - x\<bar> \<le> \<bar>p - x\<bar>" "\<bar>fl x - x\<bar> \<le> \<bar>- p - x\<bar>"
      using fl_nearest_multiple [OF False, of "2 ^ 52"] fl_nearest_multiple [OF False, of "- (2 ^ 52)"]
      by (simp_all only: pm of_int_minus mult_minus_left)
    show ?thesis using near dp px by linarith
  qed
qed simp

lemma fl_f64 [simp]: "is_f64 d \<Longrightarrow> fl d = d"
  using fl_nearest [of d d] by simp

lemma fl_ge: "is_f64 d \<Longrightarrow> d \<le> x \<Longrightarrow> d \<le> fl x"
  using fl_nearest [of d x] by (simp add: abs_if split: if_splits)

lemma fl_le: "is_f64 d \<Longrightarrow> x \<le> d \<Longrightarrow> fl x \<le> d"
  using fl_nearest [of d x] by (simp add: abs_if split: if_splits)

lemma is_f64_of_int: "\<bar>n\<bar> \<le> 2 ^ 53 \<Longrightarrow> is_f64 (of_int n)"
  unfolding is_f64_def by (rule exI [of _ n], rule exI [of _ 0]) simp

lemma fl_of_int: "\<bar>n\<bar> \<le> 2 ^ 53 \<Longrightarrow> fl (of_int n) = of_int n"
  by (rule fl_f64) (rule is_f64_of_int)

lemma fl_of_nat: "n \<le> 2 ^ 53 \<Longrightarrow> fl (of_nat n) = of_nat n"
  using fl_of_int [of "int n"] by simp

lemma fl_numeral [simp]: "numeral n \<le> (2 ^ 53 :: int) \<Longrightarrow> fl (numeral n) = numeral n"
  using fl_of_int [of "numeral n"] by simp

lemma fl_1 [simp]: "fl 1 = 1"
  using fl_of_int [of 1] by simp

lemma fl_nonneg: "0 \<le> x \<Longrightarrow> 0 \<le> fl x"
  using fl_ge [of 0 x] is_f64_of_int [of 0] by simp

subsection \<open>The operations the code uses\<close>

definition fadd :: "f64 \<Rightarrow> f64 \<Rightarrow> f64" where "fadd x y = fl (x + y)"
definition fsub :: "f64 \<Rightarrow> f64 \<Rightarrow> f64" where "fsub x y = fl (x - y)"
definition fmul :: "f64 \<Rightarrow> f64 \<Rightarrow> f64" where "fmul x y = fl (x * y)"
definition fdiv :: "f64 \<Rightarrow> f64 \<Rightarrow> f64" where "fdiv x y = fl (x / y)"
definition ffloor :: "f64 \<Rightarrow> f64" where "ffloor x = of_int \<lfloor>x\<rfloor>"

text \<open>The \<open>as\<close> casts of a float to an integer truncate towards zero and saturate.\<close>

definition trunc :: "f64 \<Rightarrow> int" where
  "trunc x = (if 0 \<le> x then \<lfloor>x\<rfloor> else - \<lfloor>- x\<rfloor>)"

definition as_i64 :: "f64 \<Rightarrow> int" where
  "as_i64 x = max (- (2 ^ 63)) (min (2 ^ 63 - 1) (trunc x))"

definition as_u32 :: "f64 \<Rightarrow> nat" where
  "as_u32 x = nat (max 0 (min (2 ^ 32 - 1) (trunc x)))"

definition as_usize :: "f64 \<Rightarrow> nat" where
  "as_usize x = nat (max 0 (min (2 ^ 64 - 1) (trunc x)))"

lemma fadd_ge_left: "is_f64 x \<Longrightarrow> 0 \<le> y \<Longrightarrow> x \<le> fadd x y"
  by (simp add: fadd_def fl_ge)

lemma is_f64_ops [simp, intro]:
  "is_f64 (fadd x y)" "is_f64 (fsub x y)" "is_f64 (fmul x y)" "is_f64 (fdiv x y)"
  by (simp_all add: fadd_def fsub_def fmul_def fdiv_def)

end
