(* ===== verification/Util.thy ===== *)
theory Util imports Float64 begin

section \<open>Durations, timestamps and date conversion (src/src/util.rs)\<close>

text \<open>
  A \<open>std::time::Duration\<close> is its number of nanoseconds (the standard library keeps u64 seconds
  and u32 nanoseconds, so a value is below \<open>2 ^ 64 * 10 ^ 9\<close>); \<open>Ttl\<close> wraps one and \<open>Timestamp\<close>
  wraps an \<open>f64\<close>.  Reading the clock (\<open>Timestamp::now\<close>) is an argument of the operations that
  do it.  A conversion that panics returns \<^const>\<open>None\<close>.  The date types are those of the chrono
  crate, a parameter of the model: a record of the functions the code calls.
\<close>

type_synonym duration = nat
type_synonym ttl = duration
type_synonym timestamp = f64

abbreviation nanos_per_sec :: nat where "nanos_per_sec \<equiv> 1000000000"

subsection \<open>Duration of the standard library\<close>

definition duration_from_secs :: "nat \<Rightarrow> duration" where
  "duration_from_secs s = s * nanos_per_sec"

definition duration_as_secs_f64 :: "duration \<Rightarrow> f64" where
  "duration_as_secs_f64 d =
     fadd (fl (of_nat (d div nanos_per_sec))) (fdiv (of_nat (d mod nanos_per_sec)) (of_nat nanos_per_sec))"

definition duration_from_secs_f64 :: "f64 \<Rightarrow> duration option" where
  "duration_from_secs_f64 x =
     (if x < 0 then None
      else let n = nat (rhe (x * of_nat nanos_per_sec))
           in if n < 2 ^ 64 * nanos_per_sec then Some n else None)"

lemma duration_as_secs_f64_whole:
  "s \<le> 2 ^ 53 \<Longrightarrow> duration_as_secs_f64 (duration_from_secs s) = of_nat s"
  by (simp add: duration_as_secs_f64_def duration_from_secs_def fadd_def fdiv_def fl_of_nat)

lemma duration_as_secs_f64_nonneg: "0 \<le> duration_as_secs_f64 d"
  by (simp add: duration_as_secs_f64_def fadd_def fdiv_def fl_nonneg)

lemma duration_from_secs_f64_whole:
  assumes "s < 2 ^ 64"
  shows "duration_from_secs_f64 (of_nat s) = Some (duration_from_secs s)"
proof -
  have "rhe (of_nat s * of_nat nanos_per_sec) = int (s * nanos_per_sec)"
    using rhe_of_int [of "int (s * nanos_per_sec)"] by simp
  moreover have "s * nanos_per_sec < 2 ^ 64 * nanos_per_sec" using assms by simp
  ultimately show ?thesis
    by (simp only: duration_from_secs_f64_def duration_from_secs_def Let_def nat_int if_True) simp
qed

text \<open>Durations up to \<open>2 ^ 51\<close> ns (26 days) survive the conversion to seconds and back.\<close>

lemma duration_f64_roundtrip:
  assumes "n \<le> 2 ^ 51"
  shows "duration_from_secs_f64 (duration_as_secs_f64 n) = Some n"
proof -
  define s r where "s = n div nanos_per_sec" and "r = n mod nanos_per_sec"
  define a A y F :: rat where "a = of_nat r / of_nat nanos_per_sec" and "A = fl a"
    and "y = of_nat s + A" and "F = fl y"
  have n: "n = s * nanos_per_sec + r" and r: "r < nanos_per_sec" unfolding s_def r_def by simp_all
  have "s \<le> n" unfolding s_def by (rule div_le_dividend)
  then have s: "s \<le> 2 ^ 51" using assms by (rule order_trans)
  have nq: "(of_nat n :: rat) = of_nat s * 1000000000 + of_nat r" unfolding n by simp
  have ra: "(of_nat r :: rat) = 1000000000 * a" unfolding a_def by simp
  have "(of_nat r :: rat) < of_nat nanos_per_sec" using r by (simp only: of_nat_less_iff)
  then have a1: "a < 1" and a0: "0 \<le> a" unfolding a_def by simp_all
  have A0: "0 \<le> A" unfolding A_def using a0 by (rule fl_nonneg)
  have eA: "\<bar>A - a\<bar> \<le> a / 2 ^ 53 + 1 / 2 ^ 60" using fl_error [of a] a0 by (simp add: A_def)
  have y0: "0 \<le> y" unfolding y_def using A0 by simp
  have eF: "\<bar>F - y\<bar> \<le> y / 2 ^ 53 + 1 / 2 ^ 60" using fl_error [of y] y0 by (simp add: F_def)
  have nb: "(of_nat n :: rat) \<le> 2 ^ 51"
    using assms by (metis of_nat_le_iff of_nat_numeral of_nat_power)
  have "A - a \<le> 1 / 2 ^ 52" "a - A \<le> 1 / 2 ^ 52"
    using eA a1 unfolding abs_le_iff by simp_all
  moreover have "y * 1000000000 \<le> 2 ^ 51 + 1000000000"
    using nb nq a0 a1 calculation unfolding y_def ra by simp
  then have "F - y \<le> 1 / 2 ^ 31" "y - F \<le> 1 / 2 ^ 31"
    using eF unfolding abs_le_iff by simp_all
  moreover have "F * 1000000000 - of_nat n = (F - y) * 1000000000 + (A - a) * 1000000000"
    unfolding nq ra y_def by (simp add: algebra_simps)
  ultimately have "\<bar>F * 1000000000 - of_nat n\<bar> < 1 / 2" unfolding abs_less_iff by simp
  then have "rhe (F * of_nat nanos_per_sec) = int n" by (intro rhe_unique) simp
  moreover have "duration_as_secs_f64 n = F"
    using s by (simp add: duration_as_secs_f64_def F_def y_def A_def a_def s_def r_def fadd_def fdiv_def fl_of_nat)
  moreover have "0 \<le> F" unfolding F_def using y0 by (rule fl_nonneg)
  moreover have "n < 2 ^ 64 * nanos_per_sec"
  proof -
    have "(2::nat) ^ 51 < 2 ^ 64 * nanos_per_sec" by simp
    with assms show ?thesis by (rule le_less_trans)
  qed
  ultimately show ?thesis by (simp add: duration_from_secs_f64_def Let_def)
qed
subsection \<open>Ttl\<close>

definition ttl_from_secs :: "nat \<Rightarrow> ttl" where
  "ttl_from_secs secs = duration_from_secs secs"

definition ttl_from_secs_f64 :: "f64 \<Rightarrow> ttl option" where
  "ttl_from_secs_f64 secs = duration_from_secs_f64 secs"

definition ttl_as_duration :: "ttl \<Rightarrow> duration" where
  "ttl_as_duration t = t"

definition ttl_as_secs_f64 :: "ttl \<Rightarrow> f64" where
  "ttl_as_secs_f64 t = duration_as_secs_f64 t"

text \<open>
  The serde representation of a \<open>Ttl\<close> is its seconds as a number.  Deserializing calls
  \<open>Duration::from_secs_f64\<close>, which panics on a negative or overlong value instead of
  returning the deserializer's error.
\<close>

definition ttl_serialize :: "ttl \<Rightarrow> f64" where
  "ttl_serialize t = duration_as_secs_f64 t"

definition ttl_deserialize :: "f64 \<Rightarrow> ttl option" where
  "ttl_deserialize secs = duration_from_secs_f64 secs"

lemma ttl_roundtrip_whole:
  "s \<le> 2 ^ 53 \<Longrightarrow> ttl_deserialize (ttl_serialize (ttl_from_secs s)) = Some (ttl_from_secs s)"
  by (simp add: ttl_serialize_def ttl_deserialize_def ttl_from_secs_def duration_as_secs_f64_whole
      duration_from_secs_f64_whole)

lemma ttl_roundtrip:
  "t \<le> 2 ^ 51 \<Longrightarrow> ttl_from_secs_f64 (ttl_as_secs_f64 t) = Some t"
  unfolding ttl_from_secs_f64_def ttl_as_secs_f64_def by (rule duration_f64_roundtrip)

subsection \<open>Timestamp\<close>

definition ts_add_duration :: "timestamp \<Rightarrow> duration \<Rightarrow> timestamp" where
  "ts_add_duration t d = fadd t (duration_as_secs_f64 d)"

definition ts_sub_duration :: "timestamp \<Rightarrow> duration \<Rightarrow> timestamp" where
  "ts_sub_duration t d = fsub t (duration_as_secs_f64 d)"

definition ts_diff :: "timestamp \<Rightarrow> timestamp \<Rightarrow> duration option" where
  "ts_diff t u = duration_from_secs_f64 (fsub t u)"

definition ts_add_secs :: "timestamp \<Rightarrow> f64 \<Rightarrow> timestamp" where
  "ts_add_secs t x = fadd t x"

definition ts_sub_secs :: "timestamp \<Rightarrow> f64 \<Rightarrow> timestamp" where
  "ts_sub_secs t x = fsub t x"

definition ts_max :: "timestamp \<Rightarrow> timestamp \<Rightarrow> timestamp" where
  "ts_max t u = (if u \<le> t then t else u)"

lemma ts_add_duration_ge: "is_f64 t \<Longrightarrow> t \<le> ts_add_duration t d"
  by (simp add: ts_add_duration_def fadd_ge_left duration_as_secs_f64_nonneg)

text \<open>Subtracting a later timestamp panics; subtracting an earlier one does not (below 2^64 s).\<close>

lemma ts_diff_panics_iff:
  assumes "is_f64 t" and "is_f64 u" and "\<bar>t\<bar> \<le> 2 ^ 52" and "\<bar>u\<bar> \<le> 2 ^ 52"
  shows "ts_diff t u = None \<longleftrightarrow> fsub t u < 0"
proof -
  have b: "fsub t u \<le> 2 ^ 53"
    unfolding fsub_def using is_f64_of_int [of "2 ^ 53"] assms(3,4) by (intro fl_le) auto
  have "nat (rhe (fsub t u * of_nat nanos_per_sec)) < 2 ^ 64 * nanos_per_sec"
  proof -
    have "fsub t u * of_nat nanos_per_sec \<le> of_int (2 ^ 53 * int nanos_per_sec)"
      using b by simp
    then have "rhe (fsub t u * of_nat nanos_per_sec) \<le> 2 ^ 53 * int nanos_per_sec"
      by (rule rhe_le)
    then show ?thesis by simp
  qed
  then show ?thesis by (simp add: ts_diff_def duration_from_secs_f64_def Let_def)
qed

subsection \<open>Conversion to and from chrono dates\<close>

record ('dt, 'tz) chrono =
  timestamp_opt :: "'tz \<Rightarrow> int \<Rightarrow> nat \<Rightarrow> 'dt option"  \<comment> \<open>\<open>TimeZone::timestamp_opt(..).single()\<close>\<close>
  dt_timestamp :: "'dt \<Rightarrow> int"                \<comment> \<open>\<open>DateTime::timestamp\<close>: whole seconds\<close>
  with_utc :: "'dt \<Rightarrow> 'dt"                    \<comment> \<open>\<open>with_timezone(&Utc)\<close>\<close>
  dt_second :: "'dt \<Rightarrow> nat"
  dt_minute :: "'dt \<Rightarrow> nat"
  dt_hour :: "'dt \<Rightarrow> nat"
  dt_day :: "'dt \<Rightarrow> nat"
  dt_weekday_from_monday :: "'dt \<Rightarrow> nat"
  dt_month :: "'dt \<Rightarrow> nat"

text \<open>
  What the crate documents: a date built from a timestamp denotes that instant, and changing
  the zone keeps the instant.
\<close>

definition chrono_ok :: "('dt, 'tz) chrono \<Rightarrow> bool" where
  "chrono_ok C \<longleftrightarrow>
     (\<forall>tz s n d. timestamp_opt C tz s n = Some d \<longrightarrow> dt_timestamp C d = s) \<and>
     (\<forall>d. dt_timestamp C (with_utc C d) = dt_timestamp C d)"

definition datetime_parts :: "timestamp \<Rightarrow> int \<times> nat" where
  "datetime_parts t =
     (let secs = as_i64 t; nanos = as_u32 (fmul (fsub t (fl (of_int secs))) (of_nat nanos_per_sec))
      in (secs, nanos))"

definition to_datetime :: "('dt, 'tz) chrono \<Rightarrow> timestamp \<Rightarrow> 'tz \<Rightarrow> 'dt option" where
  "to_datetime C t tz = (let (secs, nanos) = datetime_parts t in timestamp_opt C tz secs nanos)"

definition from_datetime :: "('dt, 'tz) chrono \<Rightarrow> 'dt \<Rightarrow> timestamp" where
  "from_datetime C d = fl (of_int (dt_timestamp C d))"

lemma as_i64_of_int: "\<bar>n\<bar> \<le> 2 ^ 53 \<Longrightarrow> as_i64 (of_int n) = n"
  by (auto simp: as_i64_def trunc_def simp del: of_int_minus simp flip: of_int_minus)

lemma datetime_parts_int:
  assumes "\<bar>n\<bar> \<le> 2 ^ 53"
  shows "datetime_parts (of_int n) = (n, 0)"
proof -
  have "as_i64 (of_int n) = n" using assms by (auto simp: as_i64_def trunc_def)
  moreover have "fl (of_int n) = of_int n" using assms by (rule fl_of_int)
  ultimately show ?thesis
    by (simp add: datetime_parts_def Let_def fsub_def fmul_def as_u32_def trunc_def)
qed

text \<open>On whole seconds the two conversions are inverse, whatever the zone.\<close>

lemma datetime_roundtrip:
  assumes "chrono_ok C" and "\<bar>n\<bar> \<le> 2 ^ 53" and "to_datetime C (of_int n) tz = Some d"
  shows "from_datetime C (with_utc C d) = of_int n"
  using assms by (simp add: chrono_ok_def to_datetime_def datetime_parts_int from_datetime_def
      fl_of_int)

lemma to_datetime_timestamp:
  assumes "chrono_ok C" and "to_datetime C t tz = Some d"
  shows "dt_timestamp C d = as_i64 t"
  using assms by (auto simp: chrono_ok_def to_datetime_def datetime_parts_def Let_def)

end
