(* ===== verification/Task.thy ===== *)
theory Task imports Util begin

section \<open>Tasks, their errors and the registry (src/src/task.rs, src/src/stage.rs)\<close>

text \<open>
  The data every backend stores (\<open>TaskInfo\<close>, \<open>TaskRecord\<close>, \<open>StageInfo\<close>), the errors that steer
  a task's life cycle, the identifier derived from a schedule point, and the registry through
  which a worker finds the code to run.  The string newtypes are \<^typ>\<open>string\<close>s.  The uuid crate
  and serde_json are parameters, and so is the user's handler, which may also panic.
\<close>

type_synonym task_id = string
type_synonym task_name = string
type_synonym task_group = string
type_synonym worker_id = string
type_synonym scheduler_name = string
type_synonym schedule_entry_key = string

subsection \<open>Decimal formatting\<close>

definition digit :: "nat \<Rightarrow> char" where
  "digit d = char_of (48 + d)"

fun show_nat :: "nat \<Rightarrow> string" where
  "show_nat n = (if n < 10 then [digit n] else show_nat (n div 10) @ [digit (n mod 10)])"

declare show_nat.simps [simp del]

definition digits_value :: "string \<Rightarrow> nat" where
  "digits_value s = foldl (\<lambda>a c. 10 * a + (of_char c - 48)) 0 s"

lemma digit_value: "d < 10 \<Longrightarrow> (of_char (digit d) :: nat) = 48 + d"
  by (simp add: digit_def)

lemma digits_value_show_nat: "digits_value (show_nat n) = n"
proof (induction n rule: show_nat.induct)
  case (1 n)
  show ?case
    by (cases "n < 10")
      (use "1.IH" in \<open>auto simp: show_nat.simps [of n] digits_value_def digit_value\<close>)
qed

lemma show_nat_inject [simp]: "show_nat m = show_nat n \<longleftrightarrow> m = n"
  by (metis digits_value_show_nat)

lemma set_show_nat: "set (show_nat n) \<subseteq> digit ` {..<10}"
proof (induction n rule: show_nat.induct)
  case (1 n)
  show ?case
    by (cases "n < 10") (use "1.IH" in \<open>auto simp: show_nat.simps [of n]\<close>)
qed

lemma digit_not_minus: "d < 10 \<Longrightarrow> digit d \<noteq> CHR ''-''"
  using digit_value [of d] by auto

lemma digit_inject: "d < 10 \<Longrightarrow> e < 10 \<Longrightarrow> digit d = digit e \<longleftrightarrow> d = e"
  by (metis add_left_cancel digit_value)

definition pad3 :: "nat \<Rightarrow> string" where
  "pad3 n = [digit (n div 100), digit (n div 10 mod 10), digit (n mod 10)]"

lemma pad3_inject:
  assumes "m < 1000" and "n < 1000" shows "pad3 m = pad3 n \<longleftrightarrow> m = n"
proof
  assume "pad3 m = pad3 n"
  with assms have "m div 100 = n div 100" "m div 10 mod 10 = n div 10 mod 10" "m mod 10 = n mod 10"
    by (simp_all add: pad3_def digit_inject)
  moreover have "k = 100 * (k div 100) + 10 * (k div 10 mod 10) + k mod 10" for k :: nat
  proof -
    have "k div 100 = k div 10 div 10" using div_mult2_eq [of k 10 10] by simp
    then show ?thesis using mult_div_mod_eq [of 10 "k div 10"] mult_div_mod_eq [of 10 k] by linarith
  qed
  ultimately show "m = n" by metis
qed simp

lemma length_pad3 [simp]: "length (pad3 n) = 3"
  by (simp add: pad3_def)

lemma append_sep_eqD:
  assumes "p @ a @ d @ b = p' @ a' @ d @ b'" and "length b = length b'"
  shows "p @ a = p' @ a'" and "b = b'"
proof -
  have "(p @ a) @ (d @ b) = (p' @ a') @ (d @ b')" using assms(1) by simp
  moreover have "length (d @ b) = length (d @ b')" using assms(2) by simp
  ultimately have "p @ a = p' @ a' \<and> d @ b = d @ b'" using append_eq_append_conv by blast
  then show "p @ a = p' @ a'" and "b = b'" by simp_all
qed

text \<open>\<open>{:.3}\<close>: the exact value rounded to three decimals, ties to even.\<close>

definition format_3 :: "f64 \<Rightarrow> string" where
  "format_3 x =
     (let k = nat (rhe (\<bar>x\<bar> * 1000))
      in (if x < 0 then ''-'' else []) @ show_nat (k div 1000) @ ''.'' @ pad3 (k mod 1000))"

definition on_millis :: "f64 \<Rightarrow> bool" where
  "on_millis x \<longleftrightarrow> of_int \<lfloor>x * 1000\<rfloor> = x * 1000"

lemma on_millis_of_int [simp]: "on_millis (of_int n)"
proof -
  have "of_int n * 1000 = (of_int (n * 1000) :: rat)" by simp
  then show ?thesis unfolding on_millis_def by (simp only: floor_of_int)
qed

lemma rhe_on_millis:
  assumes "on_millis x" shows "of_int (rhe (\<bar>x\<bar> * 1000)) = \<bar>x\<bar> * 1000"
proof -
  have "\<bar>x\<bar> * 1000 = of_int \<bar>\<lfloor>x * 1000\<rfloor>\<bar>"
    using assms unfolding on_millis_def by (metis abs_mult abs_numeral of_int_abs)
  then show ?thesis by (metis rhe_of_int)
qed

lemma format_3_inject:
  assumes "on_millis x" and "on_millis y" and "format_3 x = format_3 y"
  shows "x = y"
proof -
  define k l where "k = nat (rhe (\<bar>x\<bar> * 1000))" and "l = nat (rhe (\<bar>y\<bar> * 1000))"
  have nodash: "show_nat n \<noteq> CHR ''-'' # s" for n s
    using set_show_nat [of n] digit_not_minus by fastforce
  have eq: "(if x < 0 then ''-'' else []) @ show_nat (k div 1000) @ ''.'' @ pad3 (k mod 1000)
          = (if y < 0 then ''-'' else []) @ show_nat (l div 1000) @ ''.'' @ pad3 (l mod 1000)"
    using assms(3) by (simp add: format_3_def Let_def k_def l_def)
  then have pre: "(if x < 0 then ''-'' else []) @ show_nat (k div 1000)
          = (if y < 0 then ''-'' else []) @ show_nat (l div 1000)"
    and pad: "pad3 (k mod 1000) = pad3 (l mod 1000)"
    by (rule append_sep_eqD; simp)+
  have sign: "x < 0 \<longleftrightarrow> y < 0"
  proof (rule ccontr)
    assume "\<not> ?thesis"
    with pre have "show_nat (k div 1000) = CHR ''-'' # show_nat (l div 1000) \<or>
        show_nat (l div 1000) = CHR ''-'' # show_nat (k div 1000)"
      by (cases "x < 0"; cases "y < 0") simp_all
    with nodash show False by blast
  qed
  with pre have int: "k div 1000 = l div 1000" by simp
  from pad have "k mod 1000 = l mod 1000" by (simp add: pad3_inject)
  with int have "k = l"
    using mult_div_mod_eq [of 1000 k] mult_div_mod_eq [of 1000 l] by linarith
  moreover have "0 \<le> rhe (\<bar>x\<bar> * 1000)" "0 \<le> rhe (\<bar>y\<bar> * 1000)" by (simp_all add: rhe_ge)
  ultimately have "rhe (\<bar>x\<bar> * 1000) = rhe (\<bar>y\<bar> * 1000)"
    unfolding k_def l_def by (simp only: eq_nat_nat_iff)
  then have "of_int (rhe (\<bar>x\<bar> * 1000)) = (of_int (rhe (\<bar>y\<bar> * 1000)) :: rat)" by (rule arg_cong)
  then have "\<bar>x\<bar> * 1000 = \<bar>y\<bar> * 1000"
    unfolding rhe_on_millis [OF assms(1)] rhe_on_millis [OF assms(2)] .
  then have "\<bar>x\<bar> = \<bar>y\<bar>" by simp
  with sign show "x = y" by (auto simp: abs_if split: if_splits)
qed

subsection \<open>Identifiers derived from a schedule point\<close>

text \<open>
  \<open>Uuid::new_v5\<close> of the uuid crate is the argument \<open>uuid5\<close> (a namespace and a name to the text of
  an identifier); the name hashed is the scheduler, the entry and the point, NUL separated.
\<close>

definition schedule_id_namespace :: nat where
  "schedule_id_namespace = 0x7a5b4c219f384d6eae102c9351b7f0d4"

definition schedule_point_name :: "string \<Rightarrow> string \<Rightarrow> timestamp \<Rightarrow> string" where
  "schedule_point_name scheduler entry_key pt =
     scheduler @ [CHR 0x00] @ entry_key @ [CHR 0x00] @ format_3 pt"

definition for_schedule_point ::
  "(nat \<Rightarrow> bytes \<Rightarrow> string) \<Rightarrow> string \<Rightarrow> string \<Rightarrow> timestamp \<Rightarrow> task_id" where
  "for_schedule_point uuid5 scheduler entry_key pt =
     uuid5 schedule_id_namespace (schedule_point_name scheduler entry_key pt)"

lemma append_Cons_unique:
  assumes "x \<notin> set xs" and "x \<notin> set ys" and "xs @ x # us = ys @ x # vs"
  shows "xs = ys \<and> us = vs"
  using assms by (induction xs arbitrary: ys) (auto simp: Cons_eq_append_conv)

lemma schedule_point_name_inject:
  assumes "CHR 0x00 \<notin> set s" and "CHR 0x00 \<notin> set s'"
    and "CHR 0x00 \<notin> set k" and "CHR 0x00 \<notin> set k'"
    and "on_millis t" and "on_millis t'"
    and "schedule_point_name s k t = schedule_point_name s' k' t'"
  shows "s = s' \<and> k = k' \<and> t = t'"
proof -
  have "s @ CHR 0x00 # (k @ CHR 0x00 # format_3 t) = s' @ CHR 0x00 # (k' @ CHR 0x00 # format_3 t')"
    using assms(7) by (simp add: schedule_point_name_def)
  from append_Cons_unique [OF assms(1,2) this]
  have s: "s = s'" and "k @ CHR 0x00 # format_3 t = k' @ CHR 0x00 # format_3 t'" by (rule conjunct1, rule conjunct2)
  from append_Cons_unique [OF assms(3,4) this(2)]
  have "k = k'" and "format_3 t = format_3 t'" by (rule conjunct1, rule conjunct2)
  with s show ?thesis using format_3_inject [OF assms(5,6)] by (intro conjI)
qed

subsection \<open>Task metadata\<close>

definition default_task_ttl :: ttl where
  "default_task_ttl = duration_from_secs (60 * 60 * 24 * 7)"

record task_info =
  ti_id :: task_id
  ti_group :: task_group
  ti_name :: task_name
  ti_due :: timestamp
  ti_created :: timestamp
  ti_scheduled :: "timestamp option"
  ti_retry_count :: "32 word"
  ti_ttl :: ttl

text \<open>\<open>now\<close> is what \<open>Timestamp::now()\<close> returns, \<open>fresh\<close> what \<open>TaskId::generate()\<close> does.\<close>

definition init_with_id ::
  "timestamp \<Rightarrow> task_id \<Rightarrow> task_group \<Rightarrow> task_name \<Rightarrow> timestamp option \<Rightarrow> timestamp option \<Rightarrow> ttl
   \<Rightarrow> task_info" where
  "init_with_id now i grp name due scheduled ttl =
     \<lparr>ti_id = i, ti_group = grp, ti_name = name,
      ti_due = (case due of Some d \<Rightarrow> d | None \<Rightarrow> now), ti_created = now,
      ti_scheduled = scheduled, ti_retry_count = 0, ti_ttl = ttl\<rparr>"

definition init ::
  "timestamp \<Rightarrow> task_id \<Rightarrow> task_group \<Rightarrow> task_name \<Rightarrow> timestamp option \<Rightarrow> timestamp option \<Rightarrow> ttl
   \<Rightarrow> task_info" where
  "init now fresh grp name due scheduled ttl =
     init_with_id now fresh grp name due scheduled ttl"

text \<open>\<open>retry_count + 1\<close> wraps at \<open>2 ^ 32\<close> in a release build.\<close>

definition clone_for_retry :: "timestamp \<Rightarrow> task_info \<Rightarrow> duration \<Rightarrow> task_info" where
  "clone_for_retry now info interval =
     \<lparr>ti_id = ti_id info, ti_group = ti_group info, ti_name = ti_name info,
      ti_due = fadd now (duration_as_secs_f64 interval), ti_created = ti_created info,
      ti_scheduled = None, ti_retry_count = ti_retry_count info + 1, ti_ttl = ti_ttl info\<rparr>"

record task_record =
  tr_info :: task_info
  tr_data :: bytes

definition new_record :: "task_info \<Rightarrow> bytes \<Rightarrow> task_record" where
  "new_record info data = \<lparr>tr_info = info, tr_data = data\<rparr>"

lemma new_record_sel [simp]: "tr_info (new_record i d) = i" "tr_data (new_record i d) = d"
  by (simp_all add: new_record_def)

abbreviation tr_id :: "task_record \<Rightarrow> task_id" where "tr_id r \<equiv> ti_id (tr_info r)"

lemma clone_for_retry_id [simp]: "ti_id (clone_for_retry now info d) = ti_id info"
  and clone_for_retry_group [simp]: "ti_group (clone_for_retry now info d) = ti_group info"
  by (simp_all add: clone_for_retry_def)

lemma clone_for_retry_due:
  "is_f64 now \<Longrightarrow> now \<le> ti_due (clone_for_retry now info d)"
  by (simp add: clone_for_retry_def fadd_ge_left duration_as_secs_f64_nonneg)

lemma clone_for_retry_count:
  "unat (ti_retry_count info) < 2 ^ 32 - 1 \<Longrightarrow>
   unat (ti_retry_count (clone_for_retry now info d)) = unat (ti_retry_count info) + 1"
  by (simp add: clone_for_retry_def unat_word_ariths)

subsection \<open>Task errors\<close>

datatype task_error =
    Discard "string option"
  | Retry "string option" duration
  | Fatal "string option"

definition discard :: task_error where "discard = Discard None"
definition discard_reason :: "string \<Rightarrow> task_error" where "discard_reason msg = Discard (Some msg)"
definition retry :: "duration \<Rightarrow> task_error" where "retry d = Retry None d"
definition retry_reason :: "duration \<Rightarrow> string \<Rightarrow> task_error" where
  "retry_reason d msg = Retry (Some msg) d"
definition fatal :: task_error where "fatal = Fatal None"
definition fatal_reason :: "string \<Rightarrow> task_error" where "fatal_reason msg = Fatal (Some msg)"

subsection \<open>Executing a task\<close>

text \<open>
  A handler either returns or panics; the payload of a panic is a string slice, a \<open>String\<close> or
  something else.
\<close>

datatype panic = PanicStr string | PanicString string | PanicOther

datatype 'a outcome = Returned 'a | Panicked panic

record ('i, 'o) task =
  t_group :: task_group
  t_name :: task_name
  t_handle :: "task_info \<Rightarrow> 'i \<Rightarrow> (task_error + 'o) outcome"
  encode_input :: "'i \<Rightarrow> task_error + bytes"
  decode_input :: "bytes \<Rightarrow> task_error + 'i"
  encode_output :: "'o \<Rightarrow> task_error + bytes"
  decode_output :: "bytes \<Rightarrow> task_error + 'o"

definition prepare ::
  "('i, 'o) task \<Rightarrow> timestamp \<Rightarrow> task_id \<Rightarrow> 'i \<Rightarrow> timestamp option \<Rightarrow> ttl option
   \<Rightarrow> task_error + task_record" where
  "prepare T now fresh input due ttl =
     (let info = init now fresh (t_group T) (t_name T) due None
                   (case ttl of Some t \<Rightarrow> t | None \<Rightarrow> default_task_ttl)
      in case encode_input T input of
           Inl e \<Rightarrow> Inl e
         | Inr data \<Rightarrow> Inr (new_record info data))"

type_synonym executor = "task_info \<Rightarrow> bytes \<Rightarrow> (task_error + bytes) outcome"

definition execute :: "('i, 'o) task \<Rightarrow> executor" where
  "execute T info input =
     (case decode_input T input of
        Inl e \<Rightarrow> Returned (Inl e)
      | Inr typed_input \<Rightarrow>
          (case t_handle T info typed_input of
             Panicked p \<Rightarrow> Panicked p
           | Returned (Inl e) \<Rightarrow> Returned (Inl e)
           | Returned (Inr output) \<Rightarrow> Returned (encode_output T output)))"

text \<open>
  \<open>JsonTask\<close>: the codecs are serde_json's \<open>to_vec\<close> and \<open>from_slice\<close> (arguments), whose error
  becomes a fatal task error.
\<close>

record ('i, 'o) json_task =
  j_group :: task_group
  j_name :: task_name
  j_handle :: "task_info \<Rightarrow> 'i \<Rightarrow> (task_error + 'o) outcome"

definition json_encode :: "('a \<Rightarrow> string + bytes) \<Rightarrow> 'a \<Rightarrow> task_error + bytes" where
  "json_encode to_vec x = (case to_vec x of Inl e \<Rightarrow> Inl (fatal_reason e) | Inr b \<Rightarrow> Inr b)"

definition json_decode :: "(bytes \<Rightarrow> string + 'a) \<Rightarrow> bytes \<Rightarrow> task_error + 'a" where
  "json_decode from_slice b = (case from_slice b of Inl e \<Rightarrow> Inl (fatal_reason e) | Inr x \<Rightarrow> Inr x)"

definition task_of_json ::
  "('i \<Rightarrow> string + bytes) \<Rightarrow> (bytes \<Rightarrow> string + 'i) \<Rightarrow> ('o \<Rightarrow> string + bytes) \<Rightarrow> (bytes \<Rightarrow> string + 'o)
   \<Rightarrow> ('i, 'o) json_task \<Rightarrow> ('i, 'o) task" where
  "task_of_json enc_i dec_i enc_o dec_o J =
     \<lparr>t_group = j_group J, t_name = j_name J, t_handle = j_handle J,
      encode_input = json_encode enc_i, decode_input = json_decode dec_i,
      encode_output = json_encode enc_o, decode_output = json_decode dec_o\<rparr>"

lemma prepare_then_execute:
  assumes "prepare T now fresh input due ttl = Inr rec"
    and "\<And>b. encode_input T input = Inr b \<Longrightarrow> decode_input T b = Inr input"
  shows "execute T (tr_info rec) (tr_data rec) =
      (case t_handle T (tr_info rec) input of
         Panicked p \<Rightarrow> Panicked p
       | Returned (Inl e) \<Rightarrow> Returned (Inl e)
       | Returned (Inr output) \<Rightarrow> Returned (encode_output T output))"
  using assms by (auto simp: prepare_def execute_def Let_def split: sum.splits)

subsection \<open>The registry\<close>

record task_registry =
  executors :: "task_group \<times> task_name \<Rightarrow> executor option"

definition new_registry :: task_registry where
  "new_registry = \<lparr>executors = Map.empty\<rparr>"

definition register :: "('i, 'o) task \<Rightarrow> task_registry \<Rightarrow> task_registry" where
  "register T reg = reg\<lparr>executors := (executors reg)((t_group T, t_name T) \<mapsto> execute T)\<rparr>"

definition registry_get :: "task_registry \<Rightarrow> string \<Rightarrow> string \<Rightarrow> executor option" where
  "registry_get reg grp name = executors reg (grp, name)"

lemma registry_get_new [simp]: "registry_get new_registry g n = None"
  by (simp add: registry_get_def new_registry_def)

lemma registry_get_register [simp]:
  "registry_get (register T reg) g n =
     (if g = t_group T \<and> n = t_name T then Some (execute T) else registry_get reg g n)"
  by (auto simp: registry_get_def register_def)

subsection \<open>Stage information\<close>

record stage_info =
  si_worker_id :: worker_id
  si_task_id :: task_id
  si_assigned_at :: timestamp

definition stage_info_init :: "timestamp \<Rightarrow> worker_id \<Rightarrow> task_info \<Rightarrow> stage_info" where
  "stage_info_init now worker info =
     \<lparr>si_worker_id = worker, si_task_id = ti_id info, si_assigned_at = now\<rparr>"

end
