(* ===== verification/Utf8.thy ===== *)
theory Utf8 imports Prelude begin

section \<open>String::from_utf8_lossy\<close>

text \<open>
  The backends decode the bytes of an error message with the standard library's lossy UTF-8
  decoder: each maximal prefix of an ill-formed sequence becomes one replacement character
  (the bytes EF BF BD), everything well formed is kept.
\<close>

abbreviation byte :: "char \<Rightarrow> nat" where "byte c \<equiv> of_char c"

definition is_cont :: "char \<Rightarrow> bool" where
  "is_cont c \<longleftrightarrow> 0x80 \<le> byte c \<and> byte c \<le> 0xBF"

text \<open>Whether a second byte may follow the given first byte of a 3- or 4-byte sequence.\<close>

definition second_ok :: "char \<Rightarrow> char \<Rightarrow> bool" where
  "second_ok a c \<longleftrightarrow>
     (if byte a = 0xE0 then 0xA0 \<le> byte c \<and> byte c \<le> 0xBF
      else if byte a = 0xED then 0x80 \<le> byte c \<and> byte c \<le> 0x9F
      else if byte a = 0xF0 then 0x90 \<le> byte c \<and> byte c \<le> 0xBF
      else if byte a = 0xF4 then 0x80 \<le> byte c \<and> byte c \<le> 0x8F
      else is_cont c)"

text \<open>Whether the sequence starting at a byte is well formed, and how many bytes it takes.\<close>

definition utf8_step :: "char \<Rightarrow> bytes \<Rightarrow> bool \<times> nat" where
  "utf8_step a bs =
     (if byte a < 0x80 then (True, 1)
      else if 0xC2 \<le> byte a \<and> byte a \<le> 0xDF then
        (case bs of c # _ \<Rightarrow> if is_cont c then (True, 2) else (False, 1) | [] \<Rightarrow> (False, 1))
      else if 0xE0 \<le> byte a \<and> byte a \<le> 0xEF then
        (case bs of
           c # d # _ \<Rightarrow> if second_ok a c then if is_cont d then (True, 3) else (False, 2) else (False, 1)
         | [c] \<Rightarrow> if second_ok a c then (False, 2) else (False, 1)
         | [] \<Rightarrow> (False, 1))
      else if 0xF0 \<le> byte a \<and> byte a \<le> 0xF4 then
        (case bs of
           c # d # e # _ \<Rightarrow>
             if second_ok a c then
               if is_cont d then if is_cont e then (True, 4) else (False, 3) else (False, 2)
             else (False, 1)
         | [c, d] \<Rightarrow> if second_ok a c then if is_cont d then (False, 3) else (False, 2) else (False, 1)
         | [c] \<Rightarrow> if second_ok a c then (False, 2) else (False, 1)
         | [] \<Rightarrow> (False, 1))
      else (False, 1))"

definition replacement_character :: bytes where
  "replacement_character = [CHR 0xEF, CHR 0xBF, CHR 0xBD]"

function from_utf8_lossy :: "bytes \<Rightarrow> string" where
  "from_utf8_lossy [] = []"
| "from_utf8_lossy (a # bs) =
     (let (ok, n) = utf8_step a bs
      in (if ok then a # take (n - 1) bs else replacement_character)
         @ from_utf8_lossy (drop (n - 1) bs))"
  by pat_completeness auto
termination
  by (relation "measure length") auto

definition is_ascii :: "string \<Rightarrow> bool" where
  "is_ascii s \<longleftrightarrow> (\<forall>c\<in>set s. byte c < 0x80)"

lemma is_ascii_Cons [simp]: "is_ascii (c # s) \<longleftrightarrow> byte c < 0x80 \<and> is_ascii s"
  and is_ascii_Nil [simp]: "is_ascii []"
  and is_ascii_append [simp]: "is_ascii (s @ t) \<longleftrightarrow> is_ascii s \<and> is_ascii t"
  by (auto simp: is_ascii_def)

lemma from_utf8_lossy_ascii: "is_ascii s \<Longrightarrow> from_utf8_lossy s = s"
  by (induction s) (simp_all add: utf8_step_def)

lemma from_utf8_lossy_ascii_append:
  "is_ascii s \<Longrightarrow> from_utf8_lossy (s @ t) = s @ from_utf8_lossy t"
  by (induction s) (simp_all add: utf8_step_def)

end
