(* ===== verification/Backend_Api.thy ===== *)
theory Backend_Api imports Task Utf8 begin

section \<open>The backend interface and its contract (src/src/backend.rs)\<close>

text \<open>
  The errors and events every backend shares; the traits \<open>TaskBackend\<close>, \<open>WorkerTracker\<close>,
  \<open>LockProvider\<close> and \<open>Lock\<close> as records of operations over a state \<open>'s\<close>, which is how their
  clients hold them (\<open>Arc<dyn ..>\<close>); and the contract the trait's documentation promises, as
  functions on an abstract view of the store and as locales whose assumptions are the promises.

  An operation that reads the clock takes the reading \<open>now\<close> as its first argument.  A failing
  operation returns \<^const>\<open>Inl\<close> of its error beside the state it leaves.
\<close>

subsection \<open>Errors and control events\<close>

datatype backend_error =
    Serialization string
  | Deserialization string
  | Unavailable string
  | OperationFailed string
  | Unknown string

datatype get_result_error =
    GR_NotFound
  | GR_NoResult task_record
  | GR_Failed task_record string
  | GR_Backend backend_error

datatype control_event =
    Shutdown "task_group list option"
  | Pause "task_group list option"
  | Resume "task_group list option"

fun event_groups :: "control_event \<Rightarrow> task_group list option" where
  "event_groups (Shutdown groups) = groups"
| "event_groups (Pause groups) = groups"
| "event_groups (Resume groups) = groups"

datatype receive_events_error = ReceiveFailed string | ReceiveConnectionError string

datatype send_event_error = SendFailed string | SendConnectionError string | SerializationError string

subsection \<open>The traits\<close>

record 's task_backend =
  tb_put_tasks :: "task_record list \<Rightarrow> 's \<Rightarrow> (backend_error + unit) \<times> 's"
  tb_get_queued_tasks :: "string \<Rightarrow> nat \<Rightarrow> 's \<Rightarrow> backend_error + task_record list"
  tb_assign_tasks :: "timestamp \<Rightarrow> string \<Rightarrow> string \<Rightarrow> nat \<Rightarrow> 's \<Rightarrow> (backend_error + task_record list) \<times> 's"
  tb_lookup_tasks :: "task_id list \<Rightarrow> 's \<Rightarrow> backend_error + task_record option list"
  tb_retry_task :: "task_record \<Rightarrow> 's \<Rightarrow> (backend_error + unit) \<times> 's"
  tb_discard_tasks :: "task_id list \<Rightarrow> 's \<Rightarrow> (backend_error + unit) \<times> 's"
  tb_succeed :: "timestamp \<Rightarrow> task_record \<Rightarrow> bytes \<Rightarrow> 's \<Rightarrow> (backend_error + unit) \<times> 's"
  tb_fail :: "timestamp \<Rightarrow> task_record \<Rightarrow> bytes \<Rightarrow> 's \<Rightarrow> (backend_error + unit) \<times> 's"
  tb_get_result :: "task_id \<Rightarrow> 's \<Rightarrow> get_result_error + (task_record \<times> bytes)"
  tb_get_done_task_ids ::
    "timestamp \<Rightarrow> timestamp option \<Rightarrow> timestamp option \<Rightarrow> nat \<Rightarrow> 's \<Rightarrow> backend_error + task_id list"
  tb_get_disposable_task_ids :: "timestamp \<Rightarrow> nat \<Rightarrow> 's \<Rightarrow> backend_error + task_id list"
  tb_get_stage_info :: "nat \<Rightarrow> 's \<Rightarrow> backend_error + stage_info list"
  tb_restore :: "stage_info \<Rightarrow> 's \<Rightarrow> (backend_error + unit) \<times> 's"
  tb_persist_scheduler_state_and_put_tasks ::
    "scheduler_name \<Rightarrow> bytes \<Rightarrow> task_record list \<Rightarrow> 's \<Rightarrow> (backend_error + unit) \<times> 's"
  tb_get_scheduler_state :: "scheduler_name \<Rightarrow> 's \<Rightarrow> backend_error + bytes option"

text \<open>The provided method: claim one task.\<close>

definition assign_task ::
  "'s task_backend \<Rightarrow> timestamp \<Rightarrow> string \<Rightarrow> string \<Rightarrow> 's \<Rightarrow> (backend_error + task_record option) \<times> 's" where
  "assign_task B now grp worker s =
     (case tb_assign_tasks B now grp worker 1 s of
        (Inl e, s') \<Rightarrow> (Inl e, s')
      | (Inr [], s') \<Rightarrow> (Inr None, s')
      | (Inr (r # _), s') \<Rightarrow> (Inr (Some r), s'))"

text \<open>A \<open>HashSet\<close> of worker ids is the list of its elements in iteration order.\<close>

record 's worker_tracker =
  wt_set_worker_ttl :: "worker_id list \<Rightarrow> timestamp \<Rightarrow> 's \<Rightarrow> (backend_error + unit) \<times> 's"
  wt_get_workers :: "'s \<Rightarrow> backend_error + (worker_id \<times> timestamp) list"
  wt_purge_workers :: "worker_id list \<Rightarrow> 's \<Rightarrow> (backend_error + unit) \<times> 's"

text \<open>A lock object of type \<open>'l\<close> has state of its own (whether this handle holds the lock).\<close>

record ('s, 'l) lock_provider =
  lp_get_lock :: "string \<Rightarrow> 's \<Rightarrow> backend_error + 'l"
  lp_acquire :: "'l \<Rightarrow> 's \<Rightarrow> bool \<times> 'l \<times> 's"
  lp_release :: "'l \<Rightarrow> 's \<Rightarrow> 'l \<times> 's"
  lp_drop :: "'l \<Rightarrow> 's \<Rightarrow> 's"

subsection \<open>The abstract store\<close>

text \<open>
  What a client can observe of a task: the record, and whether it is waiting in its group's
  queue, assigned to a worker, or finished with a result or an error message.
\<close>

datatype status =
    Queued
  | Staged worker_id timestamp
  | Succeeded bytes
  | Failed string

type_synonym tview = "task_id \<Rightarrow> (task_record \<times> status) option"

definition spec_put :: "task_record \<Rightarrow> tview \<Rightarrow> tview" where
  "spec_put r v = (if v (tr_id r) = None then v(tr_id r \<mapsto> (r, Queued)) else v)"

definition spec_put_all :: "task_record list \<Rightarrow> tview \<Rightarrow> tview" where
  "spec_put_all rs v = fold spec_put rs v"

definition spec_assign :: "timestamp \<Rightarrow> worker_id \<Rightarrow> task_record list \<Rightarrow> tview \<Rightarrow> tview" where
  "spec_assign now w rs v = fold (\<lambda>r v. v(tr_id r \<mapsto> (r, Staged w now))) rs v"

definition spec_retry :: "task_record \<Rightarrow> tview \<Rightarrow> tview" where
  "spec_retry r v = v(tr_id r \<mapsto> (r, Queued))"

definition spec_discard :: "task_id list \<Rightarrow> tview \<Rightarrow> tview" where
  "spec_discard ids v = v |` (- set ids)"

definition spec_finish :: "task_record \<Rightarrow> status \<Rightarrow> tview \<Rightarrow> tview" where
  "spec_finish r st v =
     v(tr_id r \<mapsto> (case v (tr_id r) of None \<Rightarrow> (r, st) | Some (r0, _) \<Rightarrow> (r0, st)))"

definition spec_restore :: "task_id \<Rightarrow> tview \<Rightarrow> tview" where
  "spec_restore i v =
     (case v i of Some (r, Staged w t) \<Rightarrow> v(i \<mapsto> (r, Queued)) | _ \<Rightarrow> v)"

definition spec_result :: "tview \<Rightarrow> task_id \<Rightarrow> get_result_error + (task_record \<times> bytes)" where
  "spec_result v i =
     (case v i of
        None \<Rightarrow> Inl GR_NotFound
      | Some (r, Succeeded b) \<Rightarrow> Inr (r, b)
      | Some (r, Failed m) \<Rightarrow> Inl (GR_Failed r m)
      | Some (r, _) \<Rightarrow> Inl (GR_NoResult r))"

text \<open>A task a worker of group \<open>g\<close> may claim at time \<open>now\<close>.\<close>

definition claimable :: "timestamp \<Rightarrow> string \<Rightarrow> tview \<Rightarrow> task_record \<Rightarrow> bool" where
  "claimable now g v r \<longleftrightarrow>
     v (tr_id r) = Some (r, Queued) \<and> ti_group (tr_info r) = g \<and> ti_due (tr_info r) \<le> now"

text \<open>
  What \<open>assign_tasks\<close> promises of the batch it returns: at most \<open>limit\<close> claimable tasks, in due
  order, none of them later than a claimable task that stays behind; and a short batch means
  that nothing claimable stays behind.
\<close>

definition good_batch :: "timestamp \<Rightarrow> string \<Rightarrow> nat \<Rightarrow> tview \<Rightarrow> task_record list \<Rightarrow> bool" where
  "good_batch now g limit v rs \<longleftrightarrow>
     length rs \<le> limit \<and> distinct (map tr_id rs) \<and>
     sorted (map (\<lambda>r. ti_due (tr_info r)) rs) \<and>
     (\<forall>r\<in>set rs. claimable now g v r) \<and>
     (\<forall>r\<in>set rs. \<forall>q. claimable now g v q \<longrightarrow> q \<notin> set rs \<longrightarrow> ti_due (tr_info r) \<le> ti_due (tr_info q)) \<and>
     (length rs < limit \<longrightarrow> (\<forall>q. claimable now g v q \<longrightarrow> q \<in> set rs))"

lemma spec_put_same: "v (tr_id r) \<noteq> None \<Longrightarrow> spec_put r v = v"
  by (auto simp: spec_put_def)

lemma spec_put_keeps: "v i = Some x \<Longrightarrow> spec_put r v i = Some x"
  by (auto simp: spec_put_def)

lemma spec_put_all_keeps: "v i = Some x \<Longrightarrow> spec_put_all rs v i = Some x"
  unfolding spec_put_all_def by (induction rs arbitrary: v) (auto simp: spec_put_keeps)

text \<open>What was not there before comes from the batch, and is queued.\<close>

lemma spec_put_all_new:
  "spec_put_all rs v i = Some x \<Longrightarrow> v i = None \<Longrightarrow> \<exists>r\<in>set rs. tr_id r = i \<and> x = (r, Queued)"
proof (induction rs arbitrary: v)
  case (Cons r rs)
  show ?case
  proof (cases "i = tr_id r")
    case True
    with Cons.prems(2) have "spec_put r v i = Some (r, Queued)" by (simp add: spec_put_def)
    then have "spec_put_all rs (spec_put r v) i = Some (r, Queued)" by (rule spec_put_all_keeps)
    with Cons.prems(1) True show ?thesis by (simp add: spec_put_all_def)
  next
    case False
    with Cons.prems(2) have "spec_put r v i = None" by (simp add: spec_put_def)
    with Cons.IH [of "spec_put r v"] Cons.prems(1) show ?thesis by (simp add: spec_put_all_def)
  qed
qed (simp add: spec_put_all_def)

lemma spec_put_known: "spec_put r v (tr_id r) \<noteq> None"
  by (simp add: spec_put_def)

lemma spec_put_all_known: "r \<in> set rs \<Longrightarrow> spec_put_all rs v (tr_id r) \<noteq> None"
proof (induction rs arbitrary: v)
  case (Cons q rs)
  show ?case
  proof (cases "r = q")
    case True
    obtain x where "spec_put q v (tr_id q) = Some x" using spec_put_known by blast
    then show ?thesis
      using True spec_put_all_keeps [of "spec_put q v"] by (simp add: spec_put_all_def)
  next
    case False
    with Cons show ?thesis by (simp add: spec_put_all_def)
  qed
qed simp

lemma spec_put_all_noop: "(\<And>r. r \<in> set rs \<Longrightarrow> v (tr_id r) \<noteq> None) \<Longrightarrow> spec_put_all rs v = v"
proof (induction rs arbitrary: v)
  case (Cons r rs)
  then have "spec_put r v = v" by (intro spec_put_same) simp
  with Cons show ?case by (simp add: spec_put_all_def)
qed (simp add: spec_put_all_def)

text \<open>Submitting the same batch again changes nothing: submission is idempotent by id.\<close>

lemma spec_put_all_idem: "spec_put_all rs (spec_put_all rs v) = spec_put_all rs v"
  by (rule spec_put_all_noop) (rule spec_put_all_known)

lemma spec_assign_apply:
  "spec_assign now w rs v i =
     (case find (\<lambda>r. tr_id r = i) (rev rs) of Some r \<Rightarrow> Some (r, Staged w now) | None \<Rightarrow> v i)"
proof (induction rs rule: rev_induct)
  case (snoc r rs)
  then show ?case by (simp add: spec_assign_def)
qed (simp add: spec_assign_def)

lemma spec_assign_other: "i \<notin> tr_id ` set rs \<Longrightarrow> spec_assign now w rs v i = v i"
  unfolding spec_assign_def by (induction rs arbitrary: v) auto

lemma spec_assign_in:
  assumes "distinct (map tr_id rs)" and "r \<in> set rs"
  shows "spec_assign now w rs v (tr_id r) = Some (r, Staged w now)"
  using assms
proof (induction rs arbitrary: v)
  case (Cons q rs)
  show ?case
  proof (cases "r = q")
    case True
    with Cons.prems have "tr_id r \<notin> tr_id ` set rs" by auto
    with True show ?thesis
      using spec_assign_other [of "tr_id r" rs] by (simp add: spec_assign_def)
  next
    case False
    with Cons show ?thesis by (simp add: spec_assign_def)
  qed
qed simp

lemma claimable_unique: "claimable now g v r \<Longrightarrow> claimable now' g' v q \<Longrightarrow> tr_id r = tr_id q \<Longrightarrow> r = q"
  by (auto simp: claimable_def)

lemma claimable_after_assign:
  assumes "distinct (map tr_id rs)"
  shows "claimable t g (spec_assign now w rs v) q \<longleftrightarrow> claimable t g v q \<and> tr_id q \<notin> tr_id ` set rs"
proof (cases "tr_id q \<in> tr_id ` set rs")
  case True
  then obtain r where "r \<in> set rs" "tr_id q = tr_id r" by blast
  then show ?thesis using spec_assign_in [OF assms] by (simp add: claimable_def)
next
  case False
  then show ?thesis by (simp add: claimable_def spec_assign_other)
qed

lemma spec_restore_Staged:
  "v i = Some (r, Staged w t) \<Longrightarrow> spec_restore i v = v(i \<mapsto> (r, Queued))"
  by (simp add: spec_restore_def)

lemma spec_restore_other:
  "(\<And>r w t. v i \<noteq> Some (r, Staged w t)) \<Longrightarrow> spec_restore i v = v"
  by (auto simp: spec_restore_def split: option.splits status.splits)

lemma spec_restore_at: "spec_restore j v i = (if i = j then spec_restore i v i else v i)"
  by (auto simp: spec_restore_def split: option.splits status.splits)

lemma spec_restore_cong: "v1 i = v i \<Longrightarrow> spec_restore i v1 i = spec_restore i v i"
  by (simp add: spec_restore_def split: option.splits status.splits)

lemma spec_restore_idem: "spec_restore i (spec_restore i v) i = spec_restore i v i"
  by (auto simp: spec_restore_def split: option.splits status.splits)

subsection \<open>The contract as locales\<close>

text \<open>
  \<open>task_store\<close> is what every backend gives its clients: \<open>view\<close> reads a state as the abstract
  store, \<open>sched\<close> reads the persisted scheduler states, \<open>inv\<close> is the backend's own invariant.  An
  operation that fails leaves both as they were, except \<open>assign_tasks\<close>, about whose failures
  nothing is promised.
\<close>

locale task_store =
  fixes B :: "'s task_backend"
    and inv :: "'s \<Rightarrow> bool"
    and view :: "'s \<Rightarrow> tview"
    and sched :: "'s \<Rightarrow> scheduler_name \<Rightarrow> bytes option"
  assumes put_law: "inv s \<Longrightarrow> tb_put_tasks B rs s = (res, s') \<Longrightarrow>
      inv s' \<and> sched s' = sched s \<and>
      view s' = (case res of Inl _ \<Rightarrow> view s | Inr _ \<Rightarrow> spec_put_all rs (view s))"
    and retry_law: "inv s \<Longrightarrow> tb_retry_task B r s = (res, s') \<Longrightarrow>
      inv s' \<and> sched s' = sched s \<and>
      view s' = (case res of Inl _ \<Rightarrow> view s | Inr _ \<Rightarrow> spec_retry r (view s))"
    and discard_law: "inv s \<Longrightarrow> tb_discard_tasks B ids s = (res, s') \<Longrightarrow>
      inv s' \<and> sched s' = sched s \<and>
      view s' = (case res of Inl _ \<Rightarrow> view s | Inr _ \<Rightarrow> spec_discard ids (view s))"
    and persist_law: "inv s \<Longrightarrow>
      tb_persist_scheduler_state_and_put_tasks B name data rs s = (res, s') \<Longrightarrow>
      inv s' \<and>
      sched s' = (case res of Inl _ \<Rightarrow> sched s | Inr _ \<Rightarrow> (sched s)(name \<mapsto> data)) \<and>
      view s' = (case res of Inl _ \<Rightarrow> view s | Inr _ \<Rightarrow> spec_put_all rs (view s))"
    and sched_law: "inv s \<Longrightarrow> tb_get_scheduler_state B name s = Inr d \<Longrightarrow> d = sched s name"
    and lookup_law: "inv s \<Longrightarrow> tb_lookup_tasks B ids s = Inr os \<Longrightarrow>
      os = map (\<lambda>i. map_option fst (view s i)) ids"
    and assign_law: "inv s \<Longrightarrow> tb_assign_tasks B now g w limit s = (Inr rs, s') \<Longrightarrow>
      inv s' \<and> sched s' = sched s \<and> good_batch now g limit (view s) rs \<and>
      view s' = spec_assign now w rs (view s)"
begin

lemma put_again:
  assumes "inv s" and "tb_put_tasks B rs s = (Inr (), s1)" and "tb_put_tasks B rs s1 = (res, s2)"
  shows "view s2 = view s1"
  using put_law [OF assms(1,2)] put_law [of s1 rs res s2] assms(3)
  by (auto simp: spec_put_all_idem split: sum.splits)

text \<open>The persisted tasks are submitted once, however often the same step is repeated.\<close>

lemma persist_again:
  assumes "inv s" and "tb_persist_scheduler_state_and_put_tasks B n d rs s = (Inr (), s1)"
    and "tb_persist_scheduler_state_and_put_tasks B n d' rs s1 = (res, s2)"
  shows "view s2 = view s1"
  using persist_law [OF assms(1,2)] persist_law [of s1 n d' rs res s2] assms(3)
  by (auto simp: spec_put_all_idem split: sum.splits)

text \<open>Two claims in a row hand out disjoint sets of tasks, whoever makes them and when.\<close>

lemma assign_twice_disjoint:
  assumes "inv s" and "tb_assign_tasks B t1 g1 w1 l1 s = (Inr rs1, s1)"
    and "tb_assign_tasks B t2 g2 w2 l2 s1 = (Inr rs2, s2)"
  shows "tr_id ` set rs1 \<inter> tr_id ` set rs2 = {}"
proof -
  from assign_law [OF assms(1,2)] have s1: "inv s1" and b1: "good_batch t1 g1 l1 (view s) rs1"
    and v1: "view s1 = spec_assign t1 w1 rs1 (view s)" by auto
  from b1 have d: "distinct (map tr_id rs1)" by (simp add: good_batch_def)
  from assign_law [OF s1 assms(3)] have "\<forall>r\<in>set rs2. claimable t2 g2 (view s1) r"
    by (simp add: good_batch_def)
  then have "\<forall>r\<in>set rs2. tr_id r \<notin> tr_id ` set rs1"
    unfolding v1 claimable_after_assign [OF d] by blast
  then have "\<forall>i\<in>tr_id ` set rs2. i \<notin> tr_id ` set rs1" by (simp only: ball_simps)
  then show ?thesis unfolding disjoint_iff by blast
qed

lemma assign_task_None:
  assumes "inv s" and "assign_task B now g w s = (Inr None, s')"
  shows "\<not> claimable now g (view s) r"
proof -
  from assms(2) have "tb_assign_tasks B now g w 1 s = (Inr [], s')"
    by (auto simp: assign_task_def split: prod.splits sum.splits list.splits)
  from assign_law [OF assms(1) this] show ?thesis by (simp add: good_batch_def)
qed

lemma assign_task_Some:
  assumes "inv s" and "assign_task B now g w s = (Inr (Some r), s')"
  shows "claimable now g (view s) r \<and> view s' = (view s)(tr_id r \<mapsto> (r, Staged w now)) \<and>
    (\<forall>q. claimable now g (view s) q \<longrightarrow> ti_due (tr_info r) \<le> ti_due (tr_info q))"
proof -
  from assms(2) obtain rs where a: "tb_assign_tasks B now g w 1 s = (Inr (r # rs), s')"
    by (auto simp: assign_task_def split: prod.splits sum.splits list.splits)
  from assign_law [OF assms(1) a] have "rs = []" and "good_batch now g 1 (view s) [r]"
    and "view s' = spec_assign now w [r] (view s)" by (auto simp: good_batch_def)
  then show ?thesis by (auto simp: good_batch_def spec_assign_def)
qed

end

text \<open>
  \<open>full_backend\<close> adds what the documentation of \<open>succeed\<close>, \<open>fail\<close>, \<open>restore\<close> and \<open>get_result\<close>
  says: finishing a task that the backend no longer knows saves it, and restoring affects
  only a task that is still assigned.
\<close>

locale full_backend = task_store +
  assumes succeed_law: "inv s \<Longrightarrow> tb_succeed B now r b s = (res, s') \<Longrightarrow>
      inv s' \<and> sched s' = sched s \<and>
      view s' = (case res of Inl _ \<Rightarrow> view s | Inr _ \<Rightarrow> spec_finish r (Succeeded b) (view s))"
    and fail_law: "inv s \<Longrightarrow> tb_fail B now r b s = (res, s') \<Longrightarrow>
      inv s' \<and> sched s' = sched s \<and>
      view s' = (case res of Inl _ \<Rightarrow> view s
                 | Inr _ \<Rightarrow> spec_finish r (Failed (from_utf8_lossy b)) (view s))"
    and restore_law: "inv s \<Longrightarrow> tb_restore B si s = (res, s') \<Longrightarrow>
      inv s' \<and> sched s' = sched s \<and>
      view s' = (case res of Inl _ \<Rightarrow> view s | Inr _ \<Rightarrow> spec_restore (si_task_id si) (view s))"
    and result_law: "inv s \<Longrightarrow> tb_get_result B i s = out \<Longrightarrow>
      (\<forall>e. out \<noteq> Inl (GR_Backend e)) \<Longrightarrow> out = spec_result (view s) i"
begin

lemma result_after_succeed:
  assumes "inv s" and "tb_succeed B now r b s = (Inr (), s')"
    and "tb_get_result B (tr_id r) s' = res" and "\<forall>e. res \<noteq> Inl (GR_Backend e)"
  shows "\<exists>r0. res = Inr (r0, b)"
proof -
  from succeed_law [OF assms(1,2)] have "inv s'" and
    "view s' = spec_finish r (Succeeded b) (view s)" by auto
  with result_law [OF _ assms(3,4)] show ?thesis
    by (auto simp: spec_result_def spec_finish_def split: option.splits)
qed

lemma restore_keeps_finished:
  assumes "inv s" and "tb_restore B si s = (res, s')"
    and "view s i = Some (r, st)" and "\<And>w t. st \<noteq> Staged w t"
  shows "view s' i = Some (r, st)"
proof (cases "i = si_task_id si")
  case True
  then have "spec_restore (si_task_id si) (view s) = view s"
    using assms(3,4) by (intro spec_restore_other) auto
  with True restore_law [OF assms(1,2)] assms(3) show ?thesis by (auto split: sum.splits)
next
  case False
  with restore_law [OF assms(1,2)] assms(3) show ?thesis
    by (auto simp: spec_restore_def split: sum.splits option.splits status.splits)
qed

end


subsection \<open>Workers, expiry and locks\<close>

text \<open>\<open>wview\<close> reads when each registered worker expires.\<close>

locale worker_registry =
  fixes W :: "'s worker_tracker"
    and winv :: "'s \<Rightarrow> bool"
    and wview :: "'s \<Rightarrow> worker_id \<Rightarrow> timestamp option"
  assumes set_ttl_law: "winv s \<Longrightarrow> distinct ws \<Longrightarrow> wt_set_worker_ttl W ws t s = (res, s') \<Longrightarrow>
      winv s' \<and> wview s' = (case res of Inl _ \<Rightarrow> wview s
        | Inr _ \<Rightarrow> (\<lambda>w. if w \<in> set ws then Some t else wview s w))"
    and get_workers_law: "winv s \<Longrightarrow> wt_get_workers W s = Inr l \<Longrightarrow>
      distinct (map fst l) \<and> map_of l = wview s"
    and purge_law: "winv s \<Longrightarrow> wt_purge_workers W ws s = (res, s') \<Longrightarrow>
      winv s' \<and> wview s' = (case res of Inl _ \<Rightarrow> wview s | Inr _ \<Rightarrow> wview s |` (- set ws))"
begin

lemma get_workers_set:
  assumes "winv s" and "wt_get_workers W s = Inr l"
  shows "(w, t) \<in> set l \<longleftrightarrow> wview s w = Some t"
  using get_workers_law [OF assms] by (metis map_of_eq_Some_iff)

lemma purge_then_absent:
  "winv s \<Longrightarrow> wt_purge_workers W ws s = (Inr (), s') \<Longrightarrow> w \<in> set ws \<Longrightarrow> wview s' w = None"
  using purge_law by fastforce

end

text \<open>
  What the services of a process rely on: one state in which the task operations leave the
  workers alone, the worker and lock operations leave the tasks alone, and the reports on
  staged and disposable tasks are about that state.  \<open>expiry\<close> reads when a finished task may be
  removed.
\<close>

locale cluster = full_backend B inv view sched + worker_registry W inv wview
  for B :: "'s task_backend" and inv view sched and W :: "'s worker_tracker" and wview +
  fixes L :: "('s, 'l) lock_provider"
    and expiry :: "'s \<Rightarrow> task_id \<Rightarrow> timestamp option"
  assumes stage_law: "inv s \<Longrightarrow> tb_get_stage_info B n s = Inr sis \<Longrightarrow>
      length sis \<le> n \<and> distinct (map si_task_id sis) \<and>
      (\<forall>si\<in>set sis. \<exists>r. view s (si_task_id si) = Some (r, Staged (si_worker_id si) (si_assigned_at si))) \<and>
      (length sis < n \<longrightarrow> (\<forall>i r w t. view s i = Some (r, Staged w t) \<longrightarrow> i \<in> si_task_id ` set sis))"
    and disposable_law: "inv s \<Longrightarrow> tb_get_disposable_task_ids B now n s = Inr ids \<Longrightarrow>
      length ids \<le> n \<and> distinct ids \<and> (\<forall>i\<in>set ids. \<exists>t. expiry s i = Some t \<and> t < now) \<and>
      (length ids < n \<longrightarrow> (\<forall>i t. expiry s i = Some t \<longrightarrow> t < now \<longrightarrow> i \<in> set ids))"
    and expiry_finished: "inv s \<Longrightarrow> expiry s i = Some t \<Longrightarrow>
      (\<exists>r b. view s i = Some (r, Succeeded b)) \<or> (\<exists>r m. view s i = Some (r, Failed m))"
    and discard_frame: "inv s \<Longrightarrow> tb_discard_tasks B ids s = (res, s') \<Longrightarrow> wview s' = wview s"
    and restore_frame: "inv s \<Longrightarrow> tb_restore B si s = (res, s') \<Longrightarrow> wview s' = wview s"
    and ttl_frame: "inv s \<Longrightarrow> wt_set_worker_ttl W ws t s = (res, s') \<Longrightarrow>
      view s' = view s \<and> sched s' = sched s"
    and purge_frame: "inv s \<Longrightarrow> wt_purge_workers W ws s = (res, s') \<Longrightarrow>
      view s' = view s \<and> sched s' = sched s"
    and acquire_frame: "inv s \<Longrightarrow> lp_acquire L l s = (ok, l', s') \<Longrightarrow>
      inv s' \<and> view s' = view s \<and> sched s' = sched s \<and> wview s' = wview s \<and> expiry s' = expiry s"
    and release_frame: "inv s \<Longrightarrow> lp_release L l s = (l', s') \<Longrightarrow>
      inv s' \<and> view s' = view s \<and> sched s' = sched s \<and> wview s' = wview s \<and> expiry s' = expiry s"
    and drop_frame: "inv s \<Longrightarrow> lp_drop L l s = s' \<Longrightarrow>
      inv s' \<and> view s' = view s \<and> sched s' = sched s \<and> wview s' = wview s \<and> expiry s' = expiry s"

end
