(* ===== verification/Memory.thy ===== *)
theory Memory imports Backend_Api begin

section \<open>The in-process backend (src/src/impls/memory.rs)\<close>

text \<open>
  \<open>Entry\<close>, \<open>State\<close> and every operation of \<open>MemoryBackend\<close> on the state behind its mutex, each
  one atomic because the code holds the mutex guard for the whole call.  The task table is an
  association list: its order is the iteration order of the \<open>HashMap\<close>, which is unspecified, and
  the operations that iterate sort by due time (or completion time) and then by \<open>seq\<close>.  \<open>now\<close> is
  the value of \<open>Timestamp::now()\<close> during the call.
\<close>

subsection \<open>Entries and state\<close>

record entry =
  e_seq :: nat
  e_info :: task_info
  e_data :: bytes
  e_began :: "timestamp option"
  e_assignee :: "worker_id option"
  e_done :: "timestamp option"
  e_disposable :: "timestamp option"
  e_result :: "bytes option"
  e_error :: "string option"

definition entry_new :: "nat \<Rightarrow> task_record \<Rightarrow> entry" where
  "entry_new seq r =
     \<lparr>e_seq = seq, e_info = tr_info r, e_data = tr_data r, e_began = None, e_assignee = None,
      e_done = None, e_disposable = None, e_result = None, e_error = None\<rparr>"

definition entry_record :: "entry \<Rightarrow> task_record" where
  "entry_record e = new_record (e_info e) (e_data e)"

definition is_queued :: "entry \<Rightarrow> bool" where
  "is_queued e \<longleftrightarrow> e_began e = None \<and> e_done e = None"

record mem_state =
  st_seq :: nat
  st_tasks :: "(task_id \<times> entry) list"
  st_workers :: "(worker_id \<times> timestamp) list"
  st_scheduler_states :: "scheduler_name \<Rightarrow> bytes option"
  st_held_locks :: "string set"

definition state_default :: mem_state where
  "state_default =
     \<lparr>st_seq = 0, st_tasks = [], st_workers = [], st_scheduler_states = Map.empty,
      st_held_locks = {}\<rparr>"

definition next_seq :: "mem_state \<Rightarrow> nat \<times> mem_state" where
  "next_seq st = (st_seq st + 1, st\<lparr>st_seq := st_seq st + 1\<rparr>)"

definition put :: "task_record \<Rightarrow> mem_state \<Rightarrow> mem_state" where
  "put r st =
     (if map_of (st_tasks st) (tr_id r) \<noteq> None then st
      else let (seq, st) = next_seq st
           in st\<lparr>st_tasks := AList.update (tr_id r) (entry_new seq r) (st_tasks st)\<rparr>)"

definition due_key :: "entry \<Rightarrow> timestamp \<times> nat" where
  "due_key e = (ti_due (e_info e), e_seq e)"

definition ordered :: "(entry \<Rightarrow> bool) \<Rightarrow> mem_state \<Rightarrow> entry list" where
  "ordered pred st = sort_key due_key (filter pred (map snd (st_tasks st)))"

definition finish ::
  "timestamp \<Rightarrow> task_record \<Rightarrow> bytes option \<Rightarrow> string option \<Rightarrow> mem_state \<Rightarrow> mem_state" where
  "finish now r result error st =
     (let i = tr_id r; st = put r st
      in case map_of (st_tasks st) i of
           None \<Rightarrow> st
         | Some e \<Rightarrow>
             st\<lparr>st_tasks := AList.update i
                 (e\<lparr>e_began := None, e_assignee := None, e_done := Some now,
                    e_disposable := Some (ts_add_duration now (ttl_as_duration (ti_ttl (e_info e)))),
                    e_result := result, e_error := error\<rparr>) (st_tasks st)\<rparr>)"

subsection \<open>TaskBackend\<close>

definition put_tasks :: "task_record list \<Rightarrow> mem_state \<Rightarrow> mem_state" where
  "put_tasks tasks st = fold put tasks st"

definition get_queued_tasks :: "string \<Rightarrow> nat \<Rightarrow> mem_state \<Rightarrow> task_record list" where
  "get_queued_tasks grp limit st =
     map entry_record (take limit (ordered (\<lambda>e. is_queued e \<and> ti_group (e_info e) = grp) st))"

definition due_entries :: "timestamp \<Rightarrow> string \<Rightarrow> nat \<Rightarrow> mem_state \<Rightarrow> entry list" where
  "due_entries now grp limit st =
     take limit (ordered (\<lambda>e. is_queued e \<and> ti_group (e_info e) = grp \<and> ti_due (e_info e) \<le> now) st)"

text \<open>The second loop of \<open>assign_tasks\<close>; \<^const>\<open>None\<close> is the panic of \<open>expect("just located")\<close>.\<close>

fun claim ::
  "timestamp \<Rightarrow> worker_id \<Rightarrow> task_id list \<Rightarrow> mem_state \<Rightarrow> (task_record list \<times> mem_state) option" where
  "claim now w [] st = Some ([], st)"
| "claim now w (i # ids) st =
     (case map_of (st_tasks st) i of
        None \<Rightarrow> None
      | Some e \<Rightarrow>
          let e' = e\<lparr>e_began := Some now, e_assignee := Some w\<rparr>;
              st' = st\<lparr>st_tasks := AList.update i e' (st_tasks st)\<rparr>
          in map_option (\<lambda>(rs, st''). (entry_record e' # rs, st'')) (claim now w ids st'))"

definition assign_tasks ::
  "timestamp \<Rightarrow> string \<Rightarrow> string \<Rightarrow> nat \<Rightarrow> mem_state \<Rightarrow> (task_record list \<times> mem_state) option" where
  "assign_tasks now grp worker limit st =
     claim now worker (map (\<lambda>e. ti_id (e_info e)) (due_entries now grp limit st)) st"

definition lookup_tasks :: "task_id list \<Rightarrow> mem_state \<Rightarrow> task_record option list" where
  "lookup_tasks ids st = map (\<lambda>i. map_option entry_record (map_of (st_tasks st) i)) ids"

definition retry_task :: "task_record \<Rightarrow> mem_state \<Rightarrow> mem_state" where
  "retry_task r st =
     (let i = tr_id r;
          (seq, st) = (case map_of (st_tasks st) i of
                         Some previous \<Rightarrow>
                           (e_seq previous, st\<lparr>st_tasks := AList.delete i (st_tasks st)\<rparr>)
                       | None \<Rightarrow> next_seq st)
      in st\<lparr>st_tasks := AList.update i (entry_new seq r) (st_tasks st)\<rparr>)"

definition discard_tasks :: "task_id list \<Rightarrow> mem_state \<Rightarrow> mem_state" where
  "discard_tasks ids st = fold (\<lambda>i st. st\<lparr>st_tasks := AList.delete i (st_tasks st)\<rparr>) ids st"

definition mem_succeed :: "timestamp \<Rightarrow> task_record \<Rightarrow> bytes \<Rightarrow> mem_state \<Rightarrow> mem_state" where
  "mem_succeed now r result st = finish now r (Some result) None st"

definition mem_fail :: "timestamp \<Rightarrow> task_record \<Rightarrow> bytes \<Rightarrow> mem_state \<Rightarrow> mem_state" where
  "mem_fail now r error st = finish now r None (Some (from_utf8_lossy error)) st"

definition get_result :: "task_id \<Rightarrow> mem_state \<Rightarrow> get_result_error + (task_record \<times> bytes)" where
  "get_result i st =
     (case map_of (st_tasks st) i of
        None \<Rightarrow> Inl GR_NotFound
      | Some e \<Rightarrow>
          (case e_error e of
             Some message \<Rightarrow> Inl (GR_Failed (entry_record e) message)
           | None \<Rightarrow>
               (case e_result e of
                  Some result \<Rightarrow> Inr (entry_record e, result)
                | None \<Rightarrow> Inl (GR_NoResult (entry_record e)))))"

definition key_or_0 :: "timestamp option \<Rightarrow> timestamp" where
  "key_or_0 t = (case t of Some x \<Rightarrow> x | None \<Rightarrow> 0)"

text \<open>\<open>expect("filtered")\<close> in the comparison is only evaluated on entries the filter kept.\<close>

definition get_done_task_ids ::
  "timestamp \<Rightarrow> timestamp option \<Rightarrow> timestamp option \<Rightarrow> nat \<Rightarrow> mem_state \<Rightarrow> task_id list" where
  "get_done_task_ids now since until limit st =
     (let until = (case until of Some t \<Rightarrow> t | None \<Rightarrow> now)
      in map (\<lambda>e. ti_id (e_info e))
           (take limit (sort_key (\<lambda>e. (key_or_0 (e_done e), e_seq e))
             (filter (\<lambda>e. case e_done e of
                            Some d \<Rightarrow> d \<le> until \<and> (case since of Some s \<Rightarrow> s \<le> d | None \<Rightarrow> True)
                          | None \<Rightarrow> False) (map snd (st_tasks st))))))"

definition get_disposable_task_ids :: "timestamp \<Rightarrow> nat \<Rightarrow> mem_state \<Rightarrow> task_id list" where
  "get_disposable_task_ids now limit st =
     map (\<lambda>e. ti_id (e_info e))
       (take limit (sort_key (\<lambda>e. (key_or_0 (e_disposable e), e_seq e))
         (filter (\<lambda>e. case e_disposable e of Some d \<Rightarrow> d < now | None \<Rightarrow> False)
           (map snd (st_tasks st)))))"

definition entry_stage_info :: "entry \<Rightarrow> stage_info" where
  "entry_stage_info e =
     \<lparr>si_worker_id = (case e_assignee e of Some w \<Rightarrow> w | None \<Rightarrow> []),
      si_task_id = ti_id (e_info e), si_assigned_at = key_or_0 (e_began e)\<rparr>"

definition get_stage_info :: "nat \<Rightarrow> mem_state \<Rightarrow> stage_info list" where
  "get_stage_info limit st =
     map entry_stage_info (take limit (ordered (\<lambda>e. e_began e \<noteq> None) st))"

definition mem_restore :: "stage_info \<Rightarrow> mem_state \<Rightarrow> mem_state" where
  "mem_restore info st =
     (case map_of (st_tasks st) (si_task_id info) of
        None \<Rightarrow> st
      | Some e \<Rightarrow>
          st\<lparr>st_tasks := AList.update (si_task_id info)
                (e\<lparr>e_began := None, e_assignee := None\<rparr>) (st_tasks st)\<rparr>)"

definition persist_scheduler_state_and_put_tasks ::
  "scheduler_name \<Rightarrow> bytes \<Rightarrow> task_record list \<Rightarrow> mem_state \<Rightarrow> mem_state" where
  "persist_scheduler_state_and_put_tasks name data tasks st =
     put_tasks tasks (st\<lparr>st_scheduler_states := (st_scheduler_states st)(name \<mapsto> data)\<rparr>)"

definition get_scheduler_state :: "scheduler_name \<Rightarrow> mem_state \<Rightarrow> bytes option" where
  "get_scheduler_state name st = st_scheduler_states st name"

subsection \<open>WorkerTracker\<close>

text \<open>
  \<open>set_worker_ttl\<close> updates the expiry of the workers it knows while filtering the given set, and
  appends the others sorted by id.
\<close>

definition bytes_key :: "string \<Rightarrow> nat list" where
  "bytes_key s = map of_char s"

definition sort_by_id :: "worker_id list \<Rightarrow> worker_id list" where
  "sort_by_id ws = sort_key bytes_key ws"

fun refresh_known ::
  "timestamp \<Rightarrow> worker_id list \<Rightarrow> (worker_id \<times> timestamp) list \<Rightarrow> worker_id list \<times> (worker_id \<times> timestamp) list" where
  "refresh_known t [] known = ([], known)"
| "refresh_known t (w # ws) known =
     (case map_of known w of
        Some _ \<Rightarrow> refresh_known t ws (AList.update w t known)
      | None \<Rightarrow> (let (added, known') = refresh_known t ws known in (w # added, known')))"

definition set_worker_ttl :: "worker_id list \<Rightarrow> timestamp \<Rightarrow> mem_state \<Rightarrow> mem_state" where
  "set_worker_ttl worker_ids expires_at st =
     (let (added, known) = refresh_known expires_at worker_ids (st_workers st)
      in st\<lparr>st_workers := known @ map (\<lambda>w. (w, expires_at)) (sort_by_id added)\<rparr>)"

definition get_workers :: "mem_state \<Rightarrow> (worker_id \<times> timestamp) list" where
  "get_workers st = st_workers st"

definition purge_workers :: "worker_id list \<Rightarrow> mem_state \<Rightarrow> mem_state" where
  "purge_workers worker_ids st =
     st\<lparr>st_workers := filter (\<lambda>(w, _). w \<notin> set worker_ids) (st_workers st)\<rparr>"

subsection \<open>Locks\<close>

record mem_lock =
  ml_target :: string
  ml_held :: bool

definition get_lock :: "string \<Rightarrow> mem_lock" where
  "get_lock target = \<lparr>ml_target = target, ml_held = False\<rparr>"

definition mem_acquire :: "mem_lock \<Rightarrow> mem_state \<Rightarrow> bool \<times> mem_lock \<times> mem_state" where
  "mem_acquire l st =
     (if ml_held l then (True, l, st)
      else let fresh = (ml_target l \<notin> st_held_locks st)
           in (fresh, l\<lparr>ml_held := fresh\<rparr>,
               st\<lparr>st_held_locks := insert (ml_target l) (st_held_locks st)\<rparr>))"

definition mem_release :: "mem_lock \<Rightarrow> mem_state \<Rightarrow> mem_lock \<times> mem_state" where
  "mem_release l st =
     (if ml_held l
      then (l\<lparr>ml_held := False\<rparr>, st\<lparr>st_held_locks := st_held_locks st - {ml_target l}\<rparr>)
      else (l, st))"

definition mem_drop :: "mem_lock \<Rightarrow> mem_state \<Rightarrow> mem_state" where
  "mem_drop l st =
     (if ml_held l then st\<lparr>st_held_locks := st_held_locks st - {ml_target l}\<rparr> else st)"

subsection \<open>Events and destruction\<close>

text \<open>
  The broadcast channel is tokio's.  \<open>receive_events\<close> turns what successive \<open>recv\<close> calls return
  into a stream: events are yielded, a lag is skipped, a closed channel ends the stream.
\<close>

datatype recv = Received control_event | Lagged nat | Closed

fun next_event :: "recv list \<Rightarrow> (control_event \<times> recv list) option" where
  "next_event [] = None"
| "next_event (Received ev # rs) = Some (ev, rs)"
| "next_event (Lagged _ # rs) = next_event rs"
| "next_event (Closed # _) = None"

text \<open>
  \<open>send_event\<close> hands the event to the channel, whose sending is an argument; its error (nobody is
  subscribed) is dropped.
\<close>

definition mem_send_event ::
  "(control_event \<Rightarrow> 's \<Rightarrow> (control_event + nat) \<times> 's) \<Rightarrow> control_event \<Rightarrow> 's \<Rightarrow> (send_event_error + unit) \<times> 's" where
  "mem_send_event channel_send event s = (case channel_send event s of (_, s') \<Rightarrow> (Inr (), s'))"

definition destroy_all :: "mem_state \<Rightarrow> mem_state" where
  "destroy_all st = state_default"

subsection \<open>MemoryBackend as an implementation of the traits\<close>

text \<open>
  \<open>assign_calls\<close> is an \<open>AtomicU64\<close> beside the state; only \<open>assign_tasks\<close> touches it.  The panic of
  \<open>claim\<close> would reach the caller of \<open>assign_tasks\<close>, whose only caller treats it as an empty batch
  (\<open>GroupRunner::spawn\<close>); \<open>assign_tasks_spec\<close> shows that it does not happen.
\<close>

record memory_backend =
  mb_state :: mem_state
  mb_assign_calls :: "64 word"

definition memory_new :: memory_backend where
  "memory_new = \<lparr>mb_state = state_default, mb_assign_calls = 0\<rparr>"

definition on_state :: "(mem_state \<Rightarrow> mem_state) \<Rightarrow> memory_backend \<Rightarrow> (backend_error + unit) \<times> memory_backend" where
  "on_state f b = (Inr (), b\<lparr>mb_state := f (mb_state b)\<rparr>)"

definition assign_call_count :: "memory_backend \<Rightarrow> 64 word" where
  "assign_call_count b = mb_assign_calls b"

definition memory_assign_tasks ::
  "timestamp \<Rightarrow> string \<Rightarrow> string \<Rightarrow> nat \<Rightarrow> memory_backend
   \<Rightarrow> (backend_error + task_record list) \<times> memory_backend" where
  "memory_assign_tasks now grp worker limit b =
     (let b = b\<lparr>mb_assign_calls := mb_assign_calls b + 1\<rparr>
      in case assign_tasks now grp worker limit (mb_state b) of
           None \<Rightarrow> (Inr [], b)
         | Some (rs, st') \<Rightarrow> (Inr rs, b\<lparr>mb_state := st'\<rparr>))"

definition memory_tasks :: "memory_backend task_backend" where
  "memory_tasks =
     \<lparr>tb_put_tasks = (\<lambda>rs. on_state (put_tasks rs)),
      tb_get_queued_tasks = (\<lambda>g n b. Inr (get_queued_tasks g n (mb_state b))),
      tb_assign_tasks = memory_assign_tasks,
      tb_lookup_tasks = (\<lambda>ids b. Inr (lookup_tasks ids (mb_state b))),
      tb_retry_task = (\<lambda>r. on_state (retry_task r)),
      tb_discard_tasks = (\<lambda>ids. on_state (discard_tasks ids)),
      tb_succeed = (\<lambda>now r res. on_state (mem_succeed now r res)),
      tb_fail = (\<lambda>now r err. on_state (mem_fail now r err)),
      tb_get_result = (\<lambda>i b. get_result i (mb_state b)),
      tb_get_done_task_ids = (\<lambda>now since til n b. Inr (get_done_task_ids now since til n (mb_state b))),
      tb_get_disposable_task_ids = (\<lambda>now n b. Inr (get_disposable_task_ids now n (mb_state b))),
      tb_get_stage_info = (\<lambda>n b. Inr (get_stage_info n (mb_state b))),
      tb_restore = (\<lambda>si. on_state (mem_restore si)),
      tb_persist_scheduler_state_and_put_tasks =
        (\<lambda>name data rs. on_state (persist_scheduler_state_and_put_tasks name data rs)),
      tb_get_scheduler_state = (\<lambda>name b. Inr (get_scheduler_state name (mb_state b)))\<rparr>"

definition memory_workers :: "memory_backend worker_tracker" where
  "memory_workers =
     \<lparr>wt_set_worker_ttl = (\<lambda>ws t. on_state (set_worker_ttl ws t)),
      wt_get_workers = (\<lambda>b. Inr (get_workers (mb_state b))),
      wt_purge_workers = (\<lambda>ws. on_state (purge_workers ws))\<rparr>"

definition memory_locks :: "(memory_backend, mem_lock) lock_provider" where
  "memory_locks =
     \<lparr>lp_get_lock = (\<lambda>target b. Inr (get_lock target)),
      lp_acquire = (\<lambda>l b. case mem_acquire l (mb_state b) of (ok, l', st) \<Rightarrow> (ok, l', b\<lparr>mb_state := st\<rparr>)),
      lp_release = (\<lambda>l b. case mem_release l (mb_state b) of (l', st) \<Rightarrow> (l', b\<lparr>mb_state := st\<rparr>)),
      lp_drop = (\<lambda>l b. b\<lparr>mb_state := mem_drop l (mb_state b)\<rparr>)\<rparr>"

end
