(* ===== verification/Memory_Facts.thy ===== *)
theory Memory_Facts imports Memory begin

section \<open>The in-process backend keeps its contract\<close>

text \<open>
  The invariant of \<^typ>\<open>mem_state\<close>, the abstract view of it, and one lemma per operation that
  says what the operation does to both; and the interpretation of the contract's locales on
  \<open>MemoryBackend\<close>.
\<close>

subsection \<open>The invariant\<close>

text \<open>
  An entry is queued, assigned or finished: it has an assignee exactly while it has a start
  time, and a completion time excludes both and comes with a disposal time and exactly one of
  a result and an error.
\<close>

definition wf_entry :: "entry \<Rightarrow> bool" where
  "wf_entry e \<longleftrightarrow>
     (e_began e = None \<longleftrightarrow> e_assignee e = None) \<and>
     (e_done e \<noteq> None \<longrightarrow> e_began e = None) \<and>
     (e_disposable e = None \<longleftrightarrow> e_done e = None) \<and>
     (e_done e = None \<longrightarrow> e_result e = None \<and> e_error e = None) \<and>
     (e_done e \<noteq> None \<longrightarrow> (e_result e = None) \<noteq> (e_error e = None))"

definition wf_mem :: "mem_state \<Rightarrow> bool" where
  "wf_mem st \<longleftrightarrow>
     distinct (map fst (st_tasks st)) \<and>
     (\<forall>i e. map_of (st_tasks st) i = Some e \<longrightarrow>
        ti_id (e_info e) = i \<and> wf_entry e \<and> e_seq e \<le> st_seq st) \<and>
     (\<forall>i j e f. map_of (st_tasks st) i = Some e \<longrightarrow> map_of (st_tasks st) j = Some f \<longrightarrow>
        e_seq e = e_seq f \<longrightarrow> i = j) \<and>
     distinct (map fst (st_workers st))"

lemma wf_memD:
  assumes "wf_mem st" and "map_of (st_tasks st) i = Some e"
  shows "ti_id (e_info e) = i" "wf_entry e" "e_seq e \<le> st_seq st"
  using assms by (auto simp: wf_mem_def)

lemma wf_mem_default [wf_intros]: "wf_mem state_default"
  by (simp add: wf_mem_def state_default_def)

lemma wf_entry_new [simp]: "wf_entry (entry_new n r)"
  and entry_new_sel [simp]: "e_info (entry_new n r) = tr_info r" "e_seq (entry_new n r) = n"
  and entry_record_new [simp]: "entry_record (entry_new n r) = r"
  by (simp_all add: wf_entry_def entry_new_def entry_record_def new_record_def)

lemma values_iff:
  "wf_mem st \<Longrightarrow> e \<in> snd ` set (st_tasks st) \<longleftrightarrow> (\<exists>i. map_of (st_tasks st) i = Some e)"
  by (force simp: wf_mem_def)

lemma wf_mem_update:
  assumes "wf_mem st" and "ti_id (e_info e) = i" and "wf_entry e" and "e_seq e \<le> n" and "st_seq st \<le> n"
    and "\<And>j f. map_of (st_tasks st) j = Some f \<Longrightarrow> e_seq f = e_seq e \<Longrightarrow> j = i"
  shows "wf_mem (st\<lparr>st_seq := n, st_tasks := AList.update i e (st_tasks st)\<rparr>)"
  using assms unfolding wf_mem_def
  by (auto simp: update_conv' distinct_update split: if_splits) (metis order_trans)+

lemma wf_mem_update_same:
  assumes "wf_mem st" and "map_of (st_tasks st) i = Some e0"
    and "e_info e = e_info e0" and "e_seq e = e_seq e0" and "wf_entry e"
  shows "wf_mem (st\<lparr>st_tasks := AList.update i e (st_tasks st)\<rparr>)"
proof -
  have "wf_mem (st\<lparr>st_seq := st_seq st, st_tasks := AList.update i e (st_tasks st)\<rparr>)"
    using assms wf_memD [OF assms(1,2)]
    by (intro wf_mem_update) (auto simp: wf_mem_def)
  then show ?thesis by simp
qed

lemma wf_mem_delete:
  assumes "wf_mem st" shows "wf_mem (st\<lparr>st_tasks := AList.delete i (st_tasks st)\<rparr>)"
  using assms unfolding wf_mem_def
  by (auto simp: delete_conv' distinct_delete split: if_splits)

subsection \<open>The abstract view\<close>

definition entry_status :: "entry \<Rightarrow> status" where
  "entry_status e =
     (case e_error e of
        Some m \<Rightarrow> Failed m
      | None \<Rightarrow>
          (case e_result e of
             Some b \<Rightarrow> Succeeded b
           | None \<Rightarrow>
               (case e_began e of
                  Some t \<Rightarrow> Staged (case e_assignee e of Some w \<Rightarrow> w | None \<Rightarrow> []) t
                | None \<Rightarrow> Queued)))"

definition mem_view :: "mem_state \<Rightarrow> tview" where
  "mem_view st i = map_option (\<lambda>e. (entry_record e, entry_status e)) (map_of (st_tasks st) i)"

lemma entry_status_new [simp]: "entry_status (entry_new n r) = Queued"
  by (simp add: entry_status_def entry_new_def)

lemma entry_status_Queued_iff:
  "wf_entry e \<Longrightarrow> entry_status e = Queued \<longleftrightarrow> is_queued e"
  by (auto simp: wf_entry_def entry_status_def is_queued_def split: option.splits)

lemma put_cases:
  "put r st = (if map_of (st_tasks st) (tr_id r) \<noteq> None then st
     else st\<lparr>st_seq := st_seq st + 1,
             st_tasks := AList.update (tr_id r) (entry_new (st_seq st + 1) r) (st_tasks st)\<rparr>)"
  by (simp add: put_def next_seq_def)

lemma wf_mem_put [wf_intros]:
  assumes "wf_mem st" shows "wf_mem (put r st)"
proof (cases "map_of (st_tasks st) (tr_id r)")
  case None
  have "wf_mem (st\<lparr>st_seq := st_seq st + 1,
             st_tasks := AList.update (tr_id r) (entry_new (st_seq st + 1) r) (st_tasks st)\<rparr>)"
    using assms by (intro wf_mem_update) (auto dest: wf_memD(3))
  with None show ?thesis by (simp add: put_cases)
qed (use assms in \<open>simp add: put_cases\<close>)

lemma view_put [backend_simps]: "mem_view (put r st) = spec_put r (mem_view st)"
  by (rule ext) (auto simp: put_cases mem_view_def spec_put_def update_conv')

lemma sched_put [simp]: "st_scheduler_states (put r st) = st_scheduler_states st"
  by (simp add: put_cases)

lemma put_tasks_facts:
  "(wf_mem st \<longrightarrow> wf_mem (put_tasks rs st)) \<and>
   mem_view (put_tasks rs st) = spec_put_all rs (mem_view st) \<and>
   st_scheduler_states (put_tasks rs st) = st_scheduler_states st"
  unfolding put_tasks_def spec_put_all_def
  by (induction rs arbitrary: st) (simp_all add: wf_mem_put view_put)

lemma wf_mem_put_tasks [wf_intros]: "wf_mem st \<Longrightarrow> wf_mem (put_tasks rs st)"
  and view_put_tasks [backend_simps]: "mem_view (put_tasks rs st) = spec_put_all rs (mem_view st)"
  and sched_put_tasks [simp]: "st_scheduler_states (put_tasks rs st) = st_scheduler_states st"
  using put_tasks_facts by blast+

lemma put_knows: "\<exists>e. map_of (st_tasks (put r st)) (tr_id r) = Some e"
  by (auto simp: put_cases update_conv')

lemma finish_cases:
  obtains e where "map_of (st_tasks (put r st)) (tr_id r) = Some e"
    and "finish now r res err st = (put r st)\<lparr>st_tasks := AList.update (tr_id r)
        (e\<lparr>e_began := None, e_assignee := None, e_done := Some now,
           e_disposable := Some (ts_add_duration now (ttl_as_duration (ti_ttl (e_info e)))),
           e_result := res, e_error := err\<rparr>) (st_tasks (put r st))\<rparr>"
proof -
  obtain e where "map_of (st_tasks (put r st)) (tr_id r) = Some e" using put_knows by blast
  then show thesis by (intro that [of e]) (simp_all add: finish_def Let_def)
qed

lemma wf_mem_finish:
  assumes "wf_mem st" and "(res = None) \<noteq> (err = None)"
  shows "wf_mem (finish now r res err st)"
proof (cases rule: finish_cases [of r st now res err])
  case (1 e)
  show ?thesis unfolding 1(2)
    by (rule wf_mem_update_same [OF wf_mem_put [OF assms(1)] 1(1)])
      (use assms(2) in \<open>auto simp: wf_entry_def\<close>)
qed

definition outcome_status :: "bytes option \<Rightarrow> string option \<Rightarrow> status" where
  "outcome_status res err =
     (case err of Some m \<Rightarrow> Failed m | None \<Rightarrow> (case res of Some b \<Rightarrow> Succeeded b | None \<Rightarrow> Queued))"

lemma view_finish:
  assumes "(res = None) \<noteq> (err = None)"
  shows "mem_view (finish now r res err st) = spec_finish r (outcome_status res err) (mem_view st)"
proof (cases rule: finish_cases [of r st now res err])
  case (1 e)
  have "entry_record (e\<lparr>e_began := None, e_assignee := None, e_done := Some now,
      e_disposable := d, e_result := res, e_error := err\<rparr>) = entry_record e" for d
    by (simp add: entry_record_def)
  moreover have "entry_status (e\<lparr>e_began := None, e_assignee := None, e_done := Some now,
      e_disposable := d, e_result := res, e_error := err\<rparr>) = outcome_status res err" for d
    by (simp add: entry_status_def outcome_status_def split: option.splits)
  moreover have "mem_view (put r st) (tr_id r) = Some (entry_record e, entry_status e)"
    using 1(1) by (simp add: mem_view_def)
  ultimately show ?thesis unfolding 1(2)
    by (intro ext)
      (auto simp: mem_view_def update_conv' view_put [unfolded fun_eq_iff mem_view_def]
        spec_finish_def spec_put_def split: option.splits if_splits)
qed


lemma retry_cases:
  "retry_task r st =
     (case map_of (st_tasks st) (tr_id r) of
        Some e \<Rightarrow> st\<lparr>st_tasks := AList.update (tr_id r) (entry_new (e_seq e) r)
                                (AList.delete (tr_id r) (st_tasks st))\<rparr>
      | None \<Rightarrow> st\<lparr>st_seq := st_seq st + 1,
                   st_tasks := AList.update (tr_id r) (entry_new (st_seq st + 1) r) (st_tasks st)\<rparr>)"
  by (simp add: retry_task_def next_seq_def Let_def split: option.splits)

lemma wf_mem_retry [wf_intros]:
  assumes "wf_mem st" shows "wf_mem (retry_task r st)"
proof (cases "map_of (st_tasks st) (tr_id r)")
  case None
  then show ?thesis
    using wf_mem_put [OF assms, of r] by (simp add: retry_cases put_cases)
next
  case (Some e)
  let ?st = "st\<lparr>st_tasks := AList.delete (tr_id r) (st_tasks st)\<rparr>"
  have "j = tr_id r" if "map_of (st_tasks st) j = Some f" "e_seq f = e_seq e" for j f
    using assms Some that by (auto simp: wf_mem_def)
  then have "wf_mem (?st\<lparr>st_seq := st_seq ?st,
      st_tasks := AList.update (tr_id r) (entry_new (e_seq e) r) (st_tasks ?st)\<rparr>)"
    using wf_memD [OF assms Some]
    by (intro wf_mem_update wf_mem_delete assms) (auto simp: delete_conv' split: if_splits)
  with Some show ?thesis by (simp add: retry_cases)
qed

lemma view_retry [backend_simps]: "mem_view (retry_task r st) = spec_retry r (mem_view st)"
  by (rule ext)
    (auto simp: retry_cases mem_view_def spec_retry_def update_conv' delete_conv' split: option.splits)

lemma sched_retry [simp]: "st_scheduler_states (retry_task r st) = st_scheduler_states st"
  by (simp add: retry_cases split: option.splits)

lemma discard_facts:
  "(wf_mem st \<longrightarrow> wf_mem (discard_tasks ids st)) \<and>
   mem_view (discard_tasks ids st) = spec_discard ids (mem_view st) \<and>
   st_scheduler_states (discard_tasks ids st) = st_scheduler_states st"
proof (induction ids arbitrary: st)
  case Nil
  then show ?case by (simp add: discard_tasks_def spec_discard_def)
next
  case (Cons i ids)
  let ?st = "st\<lparr>st_tasks := AList.delete i (st_tasks st)\<rparr>"
  have "discard_tasks (i # ids) st = discard_tasks ids ?st" by (simp add: discard_tasks_def)
  moreover have "spec_discard ids (mem_view ?st) = spec_discard (i # ids) (mem_view st)"
    by (rule ext) (auto simp: spec_discard_def mem_view_def delete_conv' restrict_map_def)
  ultimately show ?case using Cons.IH [of ?st] wf_mem_delete [of st i] by simp
qed

lemma wf_mem_discard [wf_intros]: "wf_mem st \<Longrightarrow> wf_mem (discard_tasks ids st)"
  and view_discard [backend_simps]: "mem_view (discard_tasks ids st) = spec_discard ids (mem_view st)"
  and sched_discard [simp]: "st_scheduler_states (discard_tasks ids st) = st_scheduler_states st"
  using discard_facts by blast+

lemma wf_mem_restore [wf_intros]:
  assumes "wf_mem st" shows "wf_mem (mem_restore si st)"
proof (cases "map_of (st_tasks st) (si_task_id si)")
  case (Some e)
  then have "wf_mem (st\<lparr>st_tasks := AList.update (si_task_id si)
      (e\<lparr>e_began := None, e_assignee := None\<rparr>) (st_tasks st)\<rparr>)"
    using wf_memD(2) [OF assms Some]
    by (intro wf_mem_update_same [OF assms Some]) (auto simp: wf_entry_def)
  with Some show ?thesis by (simp add: mem_restore_def)
qed (use assms in \<open>simp add: mem_restore_def\<close>)

lemma view_restore [backend_simps]:
  assumes "wf_mem st"
  shows "mem_view (mem_restore si st) = spec_restore (si_task_id si) (mem_view st)"
proof (cases "map_of (st_tasks st) (si_task_id si)")
  case None
  then show ?thesis by (simp add: mem_restore_def spec_restore_def mem_view_def)
next
  case (Some e)
  have "entry_record (e\<lparr>e_began := None, e_assignee := None\<rparr>) = entry_record e"
    by (simp add: entry_record_def)
  moreover have "entry_status (e\<lparr>e_began := None, e_assignee := None\<rparr>) =
      (case entry_status e of Staged w t \<Rightarrow> Queued | x \<Rightarrow> x)"
    using wf_memD(2) [OF assms Some] by (auto simp: wf_entry_def entry_status_def split: option.splits)
  ultimately show ?thesis using Some
    by (intro ext) (auto simp: mem_restore_def spec_restore_def mem_view_def update_conv'
        split: status.splits)
qed

lemma sched_restore [simp]: "st_scheduler_states (mem_restore si st) = st_scheduler_states st"
  by (simp add: mem_restore_def split: option.splits)

lemma sched_finish [simp]: "st_scheduler_states (finish now r res err st) = st_scheduler_states st"
  by (simp add: finish_def Let_def split: option.splits)

lemma sched_succeed [simp]: "st_scheduler_states (mem_succeed now r b st) = st_scheduler_states st"
  and sched_fail [simp]: "st_scheduler_states (mem_fail now r b st) = st_scheduler_states st"
  by (simp_all add: mem_succeed_def mem_fail_def)

lemma wf_mem_succeed [wf_intros]: "wf_mem st \<Longrightarrow> wf_mem (mem_succeed now r b st)"
  and wf_mem_fail [wf_intros]: "wf_mem st \<Longrightarrow> wf_mem (mem_fail now r b st)"
  by (simp_all add: mem_succeed_def mem_fail_def wf_mem_finish)

lemma view_succeed [backend_simps]:
    "mem_view (mem_succeed now r b st) = spec_finish r (Succeeded b) (mem_view st)"
  and view_fail [backend_simps]:
    "mem_view (mem_fail now r b st) = spec_finish r (Failed (from_utf8_lossy b)) (mem_view st)"
  by (simp_all add: mem_succeed_def mem_fail_def view_finish outcome_status_def)

lemma get_result_view:
  assumes "wf_mem st" shows "get_result i st = spec_result (mem_view st) i"
  by (auto simp: get_result_def spec_result_def mem_view_def entry_status_def split: option.splits)

subsection \<open>Claiming tasks\<close>

lemma claim_step:
  fixes now :: timestamp and w :: worker_id
  assumes "wf_mem st" and "map_of (st_tasks st) i = Some e" and "is_queued e"
  defines "st' \<equiv> st\<lparr>st_tasks := AList.update i (e\<lparr>e_began := Some now, e_assignee := Some w\<rparr>) (st_tasks st)\<rparr>"
  shows "wf_mem st'" and "mem_view st' = (mem_view st)(i \<mapsto> (entry_record e, Staged w now))"
proof -
  have wfe: "wf_entry e" using wf_memD(2) [OF assms(1,2)] .
  then have "wf_entry (e\<lparr>e_began := Some now, e_assignee := Some w\<rparr>)"
    using assms(3) by (auto simp: wf_entry_def is_queued_def)
  then show "wf_mem st'" unfolding st'_def
    by (intro wf_mem_update_same [OF assms(1,2)]) simp_all
  show "mem_view st' = (mem_view st)(i \<mapsto> (entry_record e, Staged w now))"
    using wfe assms(3) unfolding st'_def
    by (intro ext) (auto simp: mem_view_def update_conv' entry_record_def entry_status_def
        wf_entry_def is_queued_def)
qed

lemma claim_spec:
  assumes "wf_mem st" and "distinct ids"
    and "list_all2 (\<lambda>i e. map_of (st_tasks st) i = Some e \<and> is_queued e) ids es"
  shows "\<exists>st'. claim now w ids st = Some (map entry_record es, st') \<and> wf_mem st' \<and>
     mem_view st' = spec_assign now w (map entry_record es) (mem_view st) \<and>
     st_scheduler_states st' = st_scheduler_states st"
  using assms
proof (induction es arbitrary: ids st)
  case Nil
  then show ?case by (simp add: spec_assign_def)
next
  case (Cons e es)
  from Cons.prems(3) obtain i ids' where ids: "ids = i # ids'"
    and e: "map_of (st_tasks st) i = Some e" and q: "is_queued e"
    and l: "list_all2 (\<lambda>i e. map_of (st_tasks st) i = Some e \<and> is_queued e) ids' es"
    by (auto simp: list_all2_Cons2)
  define st1 where "st1 = st\<lparr>st_tasks :=
      AList.update i (e\<lparr>e_began := Some now, e_assignee := Some w\<rparr>) (st_tasks st)\<rparr>"
  from claim_step [OF Cons.prems(1) e q, where now = now and w = w]
  have wf1: "wf_mem st1" and v1: "mem_view st1 = (mem_view st)(i \<mapsto> (entry_record e, Staged w now))"
    by (simp_all add: st1_def)
  from Cons.prems(2) ids have ni: "i \<notin> set ids'" and d: "distinct ids'" by auto
  have "list_all2 (\<lambda>i e. map_of (st_tasks st1) i = Some e \<and> is_queued e) ids' es"
    using l ni by (auto simp: list_all2_conv_all_nth st1_def update_conv')
  from Cons.IH [OF wf1 d this] obtain st' where
    "claim now w ids' st1 = Some (map entry_record es, st')" and "wf_mem st'"
    and "mem_view st' = spec_assign now w (map entry_record es) (mem_view st1)"
    and "st_scheduler_states st' = st_scheduler_states st1" by blast
  moreover have "tr_id (entry_record e) = i"
    using wf_memD(1) [OF Cons.prems(1) e] by (simp add: entry_record_def)
  ultimately show ?case
    using e by (simp add: ids st1_def [symmetric] Let_def spec_assign_def v1)
      (simp add: st1_def entry_record_def)
qed


lemma distinct_values_id:
  assumes "wf_mem st" shows "distinct (map (\<lambda>e. ti_id (e_info e)) (map snd (st_tasks st)))"
proof -
  have "ti_id (e_info e) = i" if "(i, e) \<in> set (st_tasks st)" for i e
    using assms that by (auto simp: wf_mem_def)
  then have "map (\<lambda>e. ti_id (e_info e)) (map snd (st_tasks st)) = map fst (st_tasks st)" by auto
  moreover have "distinct (map fst (st_tasks st))" using assms by (simp add: wf_mem_def)
  ultimately show ?thesis by metis
qed

lemma set_ordered:
  "wf_mem st \<Longrightarrow> e \<in> set (ordered P st) \<longleftrightarrow> (\<exists>i. map_of (st_tasks st) i = Some e) \<and> P e"
  using values_iff [of st e] by (auto simp: ordered_def)

lemma ordered_ids_distinct:
  assumes "wf_mem st" shows "distinct (map (\<lambda>e. ti_id (e_info e)) (ordered P st))"
  unfolding ordered_def distinct_map_sort_key
  using distinct_values_id [OF assms] by (rule distinct_map_filter)

lemma sorted_ordered: "sorted (map due_key (ordered P st))"
  by (simp add: ordered_def)

lemma entry_record_id [simp]: "tr_id (entry_record e) = ti_id (e_info e)"
  and entry_record_info [simp]: "tr_info (entry_record e) = e_info e"
  by (simp_all add: entry_record_def)

lemma claimable_iff:
  assumes "wf_mem st"
  shows "claimable now g (mem_view st) q \<longleftrightarrow>
     (\<exists>e \<in> set (ordered (\<lambda>e. is_queued e \<and> ti_group (e_info e) = g \<and> ti_due (e_info e) \<le> now) st).
        q = entry_record e)"
proof
  assume c: "claimable now g (mem_view st) q"
  then obtain e where e: "map_of (st_tasks st) (tr_id q) = Some e" and q: "q = entry_record e"
    and "entry_status e = Queued" by (auto simp: claimable_def mem_view_def)
  then have "is_queued e" using entry_status_Queued_iff wf_memD(2) [OF assms e] by simp
  with c e q have "e \<in> set (ordered (\<lambda>e. is_queued e \<and> ti_group (e_info e) = g \<and> ti_due (e_info e) \<le> now) st)"
    by (auto simp: set_ordered [OF assms] claimable_def)
  with q show "\<exists>e \<in> set (ordered (\<lambda>e. is_queued e \<and> ti_group (e_info e) = g \<and> ti_due (e_info e) \<le> now) st).
        q = entry_record e"
    by blast
next
  assume "\<exists>e \<in> set (ordered (\<lambda>e. is_queued e \<and> ti_group (e_info e) = g \<and> ti_due (e_info e) \<le> now) st).
        q = entry_record e"
  then obtain e i where e: "map_of (st_tasks st) i = Some e" and q: "q = entry_record e"
    and p: "is_queued e" "ti_group (e_info e) = g" "ti_due (e_info e) \<le> now"
    unfolding Bex_def set_ordered [OF assms] by blast
  then show "claimable now g (mem_view st) q"
    using wf_memD(1,2) [OF assms e] entry_status_Queued_iff [of e]
    by (simp add: claimable_def mem_view_def)
qed

lemma due_entries_batch:
  assumes "wf_mem st"
  shows "good_batch now g limit (mem_view st) (map entry_record (due_entries now g limit st))"
proof -
  let ?P = "\<lambda>e. is_queued e \<and> ti_group (e_info e) = g \<and> ti_due (e_info e) \<le> now"
  let ?os = "ordered ?P st"
  have es: "due_entries now g limit st = take limit ?os" by (simp add: due_entries_def)
  have "distinct (map tr_id (map entry_record (take limit ?os)))"
    using ordered_ids_distinct [OF assms, of ?P] by (simp add: o_def flip: take_map)
  moreover have "sorted (map (\<lambda>r. ti_due (tr_info r)) (map entry_record (take limit ?os)))"
    using sorted_map_fst [OF sorted_ordered [of ?P st]]
    by (simp add: o_def due_key_def sorted_wrt_take flip: take_map)
  moreover have "claimable now g (mem_view st) r" if "r \<in> set (map entry_record (take limit ?os))" for r
    using that in_set_takeD by (fastforce simp: claimable_iff [OF assms])
  moreover have "ti_due (tr_info r) \<le> ti_due (tr_info q)"
    if r: "r \<in> set (map entry_record (take limit ?os))" and q: "claimable now g (mem_view st) q"
      and nq: "q \<notin> set (map entry_record (take limit ?os))" for r q
  proof -
    from r obtain e where e: "e \<in> set (take limit ?os)" "r = entry_record e" by auto
    from q obtain f where "f \<in> set ?os" and f: "q = entry_record f"
      unfolding claimable_iff [OF assms] by blast
    with nq have "f \<in> set (drop limit ?os)"
      by (metis (no_types, lifting) Un_iff append_take_drop_id image_eqI list.set_map set_append)
    then have "due_key e \<le> due_key f"
      using take_sorted_least [OF sorted_ordered] e(1) by blast
    then show ?thesis by (auto simp: e(2) f due_key_def less_eq_prod_def)
  qed
  moreover have "q \<in> set (map entry_record (take limit ?os))"
    if "length (take limit ?os) < limit" and "claimable now g (mem_view st) q" for q
    using that(2) unfolding take_short [OF that(1)] claimable_iff [OF assms] by auto
  ultimately show ?thesis unfolding es good_batch_def by simp
qed

lemma assign_tasks_spec:
  assumes "wf_mem st"
  shows "\<exists>rs st'. assign_tasks now g w limit st = Some (rs, st') \<and> wf_mem st' \<and>
     rs = map entry_record (due_entries now g limit st) \<and>
     good_batch now g limit (mem_view st) rs \<and> mem_view st' = spec_assign now w rs (mem_view st) \<and>
     st_scheduler_states st' = st_scheduler_states st"
proof -
  let ?es = "due_entries now g limit st"
  let ?P = "\<lambda>e. is_queued e \<and> ti_group (e_info e) = g \<and> ti_due (e_info e) \<le> now"
  have "distinct (map (\<lambda>e. ti_id (e_info e)) ?es)"
    using ordered_ids_distinct [OF assms, of ?P] by (simp add: due_entries_def flip: take_map)
  moreover have "map_of (st_tasks st) (ti_id (e_info e)) = Some e \<and> is_queued e" if "e \<in> set ?es" for e
  proof -
    from that have "e \<in> set (ordered ?P st)" by (auto simp: due_entries_def dest: in_set_takeD)
    then show ?thesis using wf_memD(1) [OF assms] by (auto simp: set_ordered [OF assms])
  qed
  then have "list_all2 (\<lambda>i e. map_of (st_tasks st) i = Some e \<and> is_queued e)
      (map (\<lambda>e. ti_id (e_info e)) ?es) ?es"
    by (simp add: list_all2_conv_all_nth)
  ultimately show ?thesis
    using claim_spec [OF assms] due_entries_batch [OF assms] unfolding assign_tasks_def by blast
qed


subsection \<open>Hash map order does not show\<close>

text \<open>
  Two states that differ only in the iteration order of the task table answer every query
  alike, since \<open>seq\<close> separates entries with the same time.
\<close>

definition same_tasks :: "mem_state \<Rightarrow> mem_state \<Rightarrow> bool" where
  "same_tasks st st' \<longleftrightarrow> mset (st_tasks st) = mset (st_tasks st')"

lemma inj_on_seq:
  assumes "wf_mem st" shows "inj_on e_seq (set (map snd (st_tasks st)))"
proof (rule inj_onI)
  fix e f
  assume "e \<in> set (map snd (st_tasks st))" "f \<in> set (map snd (st_tasks st))" and seq: "e_seq e = e_seq f"
  then obtain i j where "map_of (st_tasks st) i = Some e" "map_of (st_tasks st) j = Some f"
    using values_iff [OF assms] by auto
  moreover from this seq have "i = j" using assms by (auto simp: wf_mem_def)
  ultimately show "e = f" by simp
qed

lemma sort_values_unique:
  assumes "wf_mem st" and "same_tasks st st'"
  shows "sort_key (\<lambda>e. (h e, e_seq e)) (filter P (map snd (st_tasks st)))
       = sort_key (\<lambda>e. (h e, e_seq e)) (filter P (map snd (st_tasks st')))"
proof (rule sort_key_unique)
  show "mset (filter P (map snd (st_tasks st))) = mset (filter P (map snd (st_tasks st')))"
    using assms(2) by (simp add: same_tasks_def)
  show "inj_on (\<lambda>e. (h e, e_seq e)) (set (filter P (map snd (st_tasks st))))"
    using inj_on_seq [OF assms(1)] by (auto simp: inj_on_def)
  show "distinct (filter P (map snd (st_tasks st)))"
    using distinct_values_id [OF assms(1)] by (intro distinct_filter) (metis distinct_map)
qed

lemma ordered_same_tasks:
  "wf_mem st \<Longrightarrow> same_tasks st st' \<Longrightarrow> ordered P st = ordered P st'"
  unfolding ordered_def due_key_def by (rule sort_values_unique)

subsection \<open>Reports on staged, finished and disposable tasks\<close>

lemma stage_info_entry:
  "wf_entry e \<Longrightarrow> e_began e \<noteq> None \<Longrightarrow>
   entry_status e = Staged (si_worker_id (entry_stage_info e)) (si_assigned_at (entry_stage_info e))"
  by (auto simp: wf_entry_def entry_status_def entry_stage_info_def key_or_0_def split: option.splits)

lemma staged_began:
  "entry_status e = Staged w t \<Longrightarrow> e_began e \<noteq> None"
  by (auto simp: entry_status_def split: option.splits)

lemma get_stage_info_spec:
  assumes "wf_mem st" and "sis = get_stage_info n st"
  shows "length sis \<le> n" and "distinct (map si_task_id sis)"
    and "\<forall>si\<in>set sis. \<exists>r. mem_view st (si_task_id si) = Some (r, Staged (si_worker_id si) (si_assigned_at si))"
    and "length sis < n \<Longrightarrow> mem_view st i = Some (r, Staged w t) \<Longrightarrow> i \<in> si_task_id ` set sis"
proof -
  let ?es = "take n (ordered (\<lambda>e. e_began e \<noteq> None) st)"
  have sis: "sis = map entry_stage_info ?es" by (simp add: assms(2) get_stage_info_def)
  have id: "si_task_id (entry_stage_info e) = ti_id (e_info e)" for e
    by (simp add: entry_stage_info_def)
  show "length sis \<le> n" by (simp add: sis)
  show "distinct (map si_task_id sis)"
    using ordered_ids_distinct [OF assms(1), of "\<lambda>e. e_began e \<noteq> None"]
    by (simp add: sis o_def id flip: take_map)
  show "\<forall>si\<in>set sis. \<exists>r. mem_view st (si_task_id si) = Some (r, Staged (si_worker_id si) (si_assigned_at si))"
  proof
    fix si assume "si \<in> set sis"
    then obtain e where "e \<in> set ?es" and si: "si = entry_stage_info e" by (auto simp: sis)
    then have "e \<in> set (ordered (\<lambda>e. e_began e \<noteq> None) st)" by (auto dest: in_set_takeD)
    then obtain i where e: "map_of (st_tasks st) i = Some e" and "e_began e \<noteq> None"
      by (auto simp: set_ordered [OF assms(1)])
    with wf_memD(1,2) [OF assms(1) e] stage_info_entry
    show "\<exists>r. mem_view st (si_task_id si) = Some (r, Staged (si_worker_id si) (si_assigned_at si))"
      by (auto simp: si id mem_view_def)
  qed
  assume short: "length sis < n" and v: "mem_view st i = Some (r, Staged w t)"
  then obtain e where e: "map_of (st_tasks st) i = Some e" and "entry_status e = Staged w t"
    by (auto simp: mem_view_def)
  then have "e \<in> set (ordered (\<lambda>e. e_began e \<noteq> None) st)"
    using staged_began by (auto simp: set_ordered [OF assms(1)])
  moreover from short have "?es = ordered (\<lambda>e. e_began e \<noteq> None) st"
    by (intro take_short) (simp add: sis)
  ultimately have "entry_stage_info e \<in> set sis" by (auto simp: sis)
  then show "i \<in> si_task_id ` set sis"
    using id [of e] wf_memD(1) [OF assms(1) e] by force
qed

definition mem_expiry :: "mem_state \<Rightarrow> task_id \<Rightarrow> timestamp option" where
  "mem_expiry st i = Option.bind (map_of (st_tasks st) i) e_disposable"

text \<open>
  Both reports on finished tasks list, in time order, entries whose time passes a test; their
  ids are distinct and a short report is complete.
\<close>

lemma timed_report:
  assumes "wf_mem st"
  defines "rep \<equiv> \<lambda>n P h. map (\<lambda>e. ti_id (e_info e))
      (take n (sort_key (\<lambda>e. (h e :: timestamp, e_seq e)) (filter P (map snd (st_tasks st)))))"
  shows "length (rep n P h) \<le> n" and "distinct (rep n P h)"
    and "i \<in> set (rep n P h) \<Longrightarrow> \<exists>e. map_of (st_tasks st) i = Some e \<and> P e"
    and "length (rep n P h) < n \<Longrightarrow> map_of (st_tasks st) i = Some e \<Longrightarrow> P e \<Longrightarrow> i \<in> set (rep n P h)"
proof -
  let ?es = "sort_key (\<lambda>e. (h e :: timestamp, e_seq e)) (filter P (map snd (st_tasks st)))"
  have set: "e \<in> set ?es \<longleftrightarrow> (\<exists>i. map_of (st_tasks st) i = Some e) \<and> P e" for e
    using values_iff [OF assms(1), of e] by auto
  have "distinct (map (\<lambda>e. ti_id (e_info e)) ?es)"
    unfolding distinct_map_sort_key using distinct_values_id [OF assms(1)] by (rule distinct_map_filter)
  then show "distinct (rep n P h)" by (simp add: rep_def flip: take_map)
  show "length (rep n P h) \<le> n" by (simp add: rep_def)
  show "\<exists>e. map_of (st_tasks st) i = Some e \<and> P e" if "i \<in> set (rep n P h)"
  proof -
    from that obtain e where "e \<in> set (take n ?es)" and i: "i = ti_id (e_info e)" by (auto simp: rep_def)
    then have "e \<in> set ?es" by (blast dest: in_set_takeD)
    then obtain j where "map_of (st_tasks st) j = Some e" and "P e" unfolding set by blast
    then show ?thesis using wf_memD(1) [OF assms(1)] i by auto
  qed
  show "i \<in> set (rep n P h)" if "length (rep n P h) < n" "map_of (st_tasks st) i = Some e" "P e"
  proof -
    from that(1) have "take n ?es = ?es" by (intro take_short) (simp add: rep_def)
    moreover have "e \<in> set ?es" unfolding set using that(2,3) by blast
    ultimately show ?thesis using wf_memD(1) [OF assms(1) that(2)] by (force simp: rep_def)
  qed
qed

lemma disposable_spec:
  assumes "wf_mem st" and "ids = get_disposable_task_ids now n st"
  shows "length ids \<le> n" and "distinct ids"
    and "i \<in> set ids \<Longrightarrow> \<exists>t. mem_expiry st i = Some t \<and> t < now"
    and "length ids < n \<Longrightarrow> mem_expiry st i = Some t \<Longrightarrow> t < now \<Longrightarrow> i \<in> set ids"
proof -
  let ?P = "\<lambda>e. case e_disposable e of Some d \<Rightarrow> d < now | None \<Rightarrow> False"
  have P: "?P e \<longleftrightarrow> (\<exists>t. e_disposable e = Some t \<and> t < now)" for e by (auto split: option.splits)
  note rep = timed_report [OF assms(1), where n = n and P = ?P and h = "\<lambda>e. key_or_0 (e_disposable e)",
      folded get_disposable_task_ids_def, folded assms(2)]
  show "length ids \<le> n" and "distinct ids" by (fact rep(1), fact rep(2))
  show "\<exists>t. mem_expiry st i = Some t \<and> t < now" if "i \<in> set ids"
    using rep(3) [OF that] unfolding P mem_expiry_def option_bind_Some_iff by blast
  show "i \<in> set ids" if "length ids < n" "mem_expiry st i = Some t" "t < now"
  proof -
    from that(2) obtain e where "map_of (st_tasks st) i = Some e" and "e_disposable e = Some t"
      unfolding mem_expiry_def option_bind_Some_iff by blast
    then show ?thesis using rep(4) [OF that(1), where i = i and e = e] that(3) by simp
  qed
qed

lemma expiry_finished:
  assumes "wf_mem st" and "mem_expiry st i = Some t"
  shows "(\<exists>r b. mem_view st i = Some (r, Succeeded b)) \<or> (\<exists>r m. mem_view st i = Some (r, Failed m))"
proof -
  from assms(2) obtain e where e: "map_of (st_tasks st) i = Some e" and "e_disposable e = Some t"
    by (auto simp: mem_expiry_def option_bind_Some_iff)
  then have "e_done e \<noteq> None" and "(e_result e = None) \<noteq> (e_error e = None)"
    using wf_memD(2) [OF assms(1) e] by (auto simp: wf_entry_def)
  then show ?thesis using e by (auto simp: mem_view_def entry_status_def split: option.splits)
qed


subsection \<open>Workers\<close>

lemma refresh_known_spec:
  assumes "refresh_known t ws known = (added, known')"
  shows "added = filter (\<lambda>w. map_of known w = None) ws \<and> map fst known' = map fst known \<and>
    map_of known' = (\<lambda>w. if w \<in> set ws \<and> map_of known w \<noteq> None then Some t else map_of known w)"
  using assms
proof (induction t ws known arbitrary: added known' rule: refresh_known.induct)
  case (2 t w ws known)
  show ?case
  proof (cases "map_of known w")
    case None
    with "2.prems" obtain a where "refresh_known t ws known = (a, known')" and "added = w # a"
      by (auto split: prod.splits)
    with "2.IH"(1) [OF None] None show ?thesis by (auto simp: fun_eq_iff)
  next
    case (Some u)
    have keys: "map fst (AList.update w t known) = map fst known"
      using Some by (simp add: update_keys) (metis map_of_eq_None_iff option.distinct(1) set_map)
    from Some "2.prems" have "refresh_known t ws (AList.update w t known) = (added, known')" by simp
    from "2.IH"(2) [OF Some this] keys Some show ?thesis
      by (auto simp: fun_eq_iff update_conv' intro!: filter_cong)
  qed
qed (auto simp: fun_eq_iff)

lemma set_sort_by_id [simp]: "set (sort_by_id ws) = set ws"
  and distinct_sort_by_id [simp]: "distinct (sort_by_id ws) = distinct ws"
  by (simp_all add: sort_by_id_def)

lemma map_of_const_list: "map_of (map (\<lambda>w. (w, t)) ws) w = (if w \<in> set ws then Some t else None)"
  by (induction ws) auto

lemma set_worker_ttl_spec:
  assumes "wf_mem st" and "distinct ws"
  shows "wf_mem (set_worker_ttl ws t st) \<and> st_tasks (set_worker_ttl ws t st) = st_tasks st \<and>
    st_scheduler_states (set_worker_ttl ws t st) = st_scheduler_states st \<and>
    map_of (st_workers (set_worker_ttl ws t st)) =
      (\<lambda>w. if w \<in> set ws then Some t else map_of (st_workers st) w)"
proof -
  obtain added known where r: "refresh_known t ws (st_workers st) = (added, known)"
    by (cases "refresh_known t ws (st_workers st)")
  from refresh_known_spec [OF r] have a: "added = filter (\<lambda>w. map_of (st_workers st) w = None) ws"
    and k: "map fst known = map fst (st_workers st)"
    and m: "map_of known = (\<lambda>w. if w \<in> set ws \<and> map_of (st_workers st) w \<noteq> None then Some t
                              else map_of (st_workers st) w)" by auto
  have eq: "set_worker_ttl ws t st =
      st\<lparr>st_workers := known @ map (\<lambda>w. (w, t)) (sort_by_id added)\<rparr>"
    by (simp add: set_worker_ttl_def r)
  have "distinct (map fst (known @ map (\<lambda>w. (w, t)) (sort_by_id added)))"
    using assms by (auto simp: k a o_def wf_mem_def map_of_eq_None_iff)
  then have "wf_mem (set_worker_ttl ws t st)"
    using assms(1) by (simp add: eq wf_mem_def)
  moreover have "map_of (known @ map (\<lambda>w. (w, t)) (sort_by_id added)) w =
      (if w \<in> set ws then Some t else map_of (st_workers st) w)" for w
    by (auto simp: map_add_def map_of_const_list m a split: option.splits)
  ultimately show ?thesis by (auto simp: eq)
qed

lemma purge_workers_spec:
  "(wf_mem st \<longrightarrow> wf_mem (purge_workers ws st)) \<and> st_tasks (purge_workers ws st) = st_tasks st \<and>
   st_scheduler_states (purge_workers ws st) = st_scheduler_states st \<and>
   map_of (st_workers (purge_workers ws st)) = map_of (st_workers st) |` (- set ws)"
proof -
  have eq: "purge_workers ws st =
      st\<lparr>st_workers := filter (\<lambda>p. fst p \<notin> set ws) (st_workers st)\<rparr>"
    by (simp add: purge_workers_def case_prod_unfold)
  have "map_of (filter (\<lambda>p. fst p \<notin> set ws) (st_workers st)) = map_of (st_workers st) |` (- set ws)"
    by (rule ext) (simp add: map_of_filter_key [of "\<lambda>w. w \<notin> set ws"] restrict_map_def)
  moreover have "wf_mem st \<longrightarrow> wf_mem (purge_workers ws st)"
    by (auto simp: eq wf_mem_def distinct_map_filter)
  ultimately show ?thesis by (simp add: eq)
qed

subsection \<open>Locks\<close>

text \<open>
  Lock handles opened, used and dropped in any order.  In every state so reached at most one
  live handle per target holds its lock.
\<close>

inductive lock_run :: "mem_lock list \<Rightarrow> mem_state \<Rightarrow> bool" where
  start: "lock_run [] state_default"
| open_lock: "lock_run ls st \<Longrightarrow> lock_run (ls @ [get_lock target]) st"
| acquire: "lock_run ls st \<Longrightarrow> n < length ls \<Longrightarrow> mem_acquire (ls ! n) st = (ok, l, st') \<Longrightarrow>
    lock_run (ls[n := l]) st'"
| release: "lock_run ls st \<Longrightarrow> n < length ls \<Longrightarrow> mem_release (ls ! n) st = (l, st') \<Longrightarrow>
    lock_run (ls[n := l]) st'"
| drop_lock: "lock_run ls st \<Longrightarrow> n < length ls \<Longrightarrow>
    lock_run (take n ls @ drop (Suc n) ls) (mem_drop (ls ! n) st)"

inductive_cases lock_runE: "lock_run ls st"

definition held_targets :: "mem_lock list \<Rightarrow> string list" where
  "held_targets ls = map ml_target (filter ml_held ls)"

definition locks_ok :: "mem_lock list \<Rightarrow> mem_state \<Rightarrow> bool" where
  "locks_ok ls st \<longleftrightarrow> distinct (held_targets ls) \<and> set (held_targets ls) = st_held_locks st"

lemma held_targets_append [simp]: "held_targets (ls @ ms) = held_targets ls @ held_targets ms"
  and held_targets_Cons [simp]:
    "held_targets (l # ls) = (if ml_held l then ml_target l # held_targets ls else held_targets ls)"
  and held_targets_Nil [simp]: "held_targets [] = []"
  by (simp_all add: held_targets_def)

lemma split_at: "n < length ls \<Longrightarrow> ls = take n ls @ ls ! n # drop (Suc n) ls"
  by (rule id_take_nth_drop)

lemma locks_ok_split:
  "locks_ok (as @ l # bs) st \<longleftrightarrow>
     distinct (held_targets as @ held_targets bs) \<and>
     (ml_held l \<longrightarrow> ml_target l \<notin> set (held_targets as) \<union> set (held_targets bs)) \<and>
     st_held_locks st = set (held_targets as) \<union> set (held_targets bs) \<union>
       (if ml_held l then {ml_target l} else {})"
  by (auto simp: locks_ok_def)

lemma locks_ok_acquire:
  "locks_ok (as @ l # bs) st \<Longrightarrow> mem_acquire l st = (ok, l', st') \<Longrightarrow> locks_ok (as @ l' # bs) st'"
  unfolding locks_ok_split by (auto simp: mem_acquire_def Let_def split: if_splits)

lemma locks_ok_release:
  "locks_ok (as @ l # bs) st \<Longrightarrow> mem_release l st = (l', st') \<Longrightarrow> locks_ok (as @ l' # bs) st'"
  unfolding locks_ok_split by (auto simp: mem_release_def split: if_splits)

lemma locks_ok_drop:
  "locks_ok (as @ l # bs) st \<Longrightarrow> locks_ok (as @ bs) (mem_drop l st)"
  unfolding locks_ok_split by (auto simp: mem_drop_def locks_ok_def)

lemma lock_run_ok: "lock_run ls st \<Longrightarrow> locks_ok ls st"
proof (induction rule: lock_run.induct)
  case start
  then show ?case by (simp add: locks_ok_def state_default_def)
next
  case (open_lock ls st target)
  then show ?case by (simp add: locks_ok_def get_lock_def)
next
  case (acquire ls st n ok l st')
  have "locks_ok (take n ls @ ls ! n # drop (Suc n) ls) st"
    using acquire.IH split_at [OF acquire.hyps(2)] by simp
  from locks_ok_acquire [OF this acquire.hyps(3)] show ?case
    using acquire.hyps(2) by (simp add: upd_conv_take_nth_drop)
next
  case (release ls st n l st')
  have "locks_ok (take n ls @ ls ! n # drop (Suc n) ls) st"
    using release.IH split_at [OF release.hyps(2)] by simp
  from locks_ok_release [OF this release.hyps(3)] show ?case
    using release.hyps(2) by (simp add: upd_conv_take_nth_drop)
next
  case (drop_lock ls st n)
  have "locks_ok (take n ls @ ls ! n # drop (Suc n) ls) st"
    using drop_lock.IH split_at [OF drop_lock.hyps(2)] by simp
  from locks_ok_drop [OF this] show ?case .
qed

subsection \<open>The contract holds\<close>

abbreviation mb_inv :: "memory_backend \<Rightarrow> bool" where "mb_inv b \<equiv> wf_mem (mb_state b)"
abbreviation mb_view :: "memory_backend \<Rightarrow> tview" where "mb_view b \<equiv> mem_view (mb_state b)"
abbreviation mb_sched :: "memory_backend \<Rightarrow> scheduler_name \<Rightarrow> bytes option" where
  "mb_sched b \<equiv> st_scheduler_states (mb_state b)"
abbreviation mb_workers :: "memory_backend \<Rightarrow> worker_id \<Rightarrow> timestamp option" where
  "mb_workers b \<equiv> map_of (st_workers (mb_state b))"
abbreviation mb_expiry :: "memory_backend \<Rightarrow> task_id \<Rightarrow> timestamp option" where
  "mb_expiry b \<equiv> mem_expiry (mb_state b)"

lemma wf_mem_sched_update [simp]: "wf_mem (st\<lparr>st_scheduler_states := x\<rparr>) = wf_mem st"
  and wf_mem_locks_update [simp]: "wf_mem (st\<lparr>st_held_locks := y\<rparr>) = wf_mem st"
  and view_sched_update [simp]: "mem_view (st\<lparr>st_scheduler_states := x\<rparr>) = mem_view st"
  and view_locks_update [simp]: "mem_view (st\<lparr>st_held_locks := y\<rparr>) = mem_view st"
  and expiry_locks_update [simp]: "mem_expiry (st\<lparr>st_held_locks := y\<rparr>) = mem_expiry st"
  by (simp_all add: wf_mem_def mem_view_def mem_expiry_def fun_eq_iff)

lemma persist_spec:
  "(wf_mem st \<longrightarrow> wf_mem (persist_scheduler_state_and_put_tasks n d rs st)) \<and>
   mem_view (persist_scheduler_state_and_put_tasks n d rs st) = spec_put_all rs (mem_view st) \<and>
   st_scheduler_states (persist_scheduler_state_and_put_tasks n d rs st) = (st_scheduler_states st)(n \<mapsto> d)"
  by (simp add: persist_scheduler_state_and_put_tasks_def view_put_tasks wf_mem_put_tasks)

lemma lookup_view: "lookup_tasks ids st = map (\<lambda>i. map_option fst (mem_view st i)) ids"
  by (simp add: lookup_tasks_def mem_view_def option.map_comp o_def)

lemma assign_law_memory:
  assumes "mb_inv b" and "memory_assign_tasks now g w limit b = (Inr rs, b')"
  shows "mb_inv b' \<and> mb_sched b' = mb_sched b \<and> good_batch now g limit (mb_view b) rs \<and>
    mb_view b' = spec_assign now w rs (mb_view b)"
  using assign_tasks_spec [OF assms(1), of now g w limit] assms(2)
  by (auto simp: memory_assign_tasks_def)

end
