(* ===== verification/Scheduler.thy ===== *)
theory Scheduler imports Backend_Api begin

section \<open>The scheduler (src/src/scheduler.rs)\<close>

text \<open>
  Schedule fields and their validation, cron-like schedules and duplication policies, the grid
  of schedule points, and the scheduler itself over an arbitrary task backend and lock provider.
  The chrono crate is the record \<^typ>\<open>('dt, 'tz) chrono\<close> of \<open>Util\<close>; the serde_json encoding of the
  scheduler's state, \<open>Uuid::new_v5\<close> and \<open>local_tz\<close> are arguments.  A panic is \<^const>\<open>None\<close>.
\<close>

definition SCHEDULE_POINT_INTERVAL :: f64 where
  "SCHEDULE_POINT_INTERVAL = 5"

subsection \<open>Schedule fields\<close>

record schedule_field_error =
  sfe_field :: string
  sfe_value :: nat
  sfe_min :: nat
  sfe_max :: nat
  sfe_interval :: nat

definition schedule_field_error_display :: "schedule_field_error \<Rightarrow> string" where
  "schedule_field_error_display e =
     (if sfe_interval e = 1
      then ''Invalid value for '' @ sfe_field e @ '': '' @ show_nat (sfe_value e) @
        '' is not in range '' @ show_nat (sfe_min e) @ ''-'' @ show_nat (sfe_max e)
      else ''Invalid value for '' @ sfe_field e @ '': '' @ show_nat (sfe_value e) @
        '' (expected values: '' @ show_nat (sfe_min e) @ '', '' @
        show_nat (sfe_min e + sfe_interval e) @ '', ..., '' @ show_nat (sfe_max e) @ '')'')"

text \<open>
  One instance of the macro \<open>schedule_field!\<close>: its name, bounds and interval.  The set a field
  holds is the list of its elements in the iteration order of the \<open>HashSet\<close>, and \<open>collect\<close> is
  what collecting an iterator into a \<open>HashSet\<close> does: the same elements once each, in some order.
\<close>

record field_type =
  ft_name :: string
  ft_min :: nat
  ft_max :: nat
  ft_interval :: nat

type_synonym schedule_field = "nat list"

definition collect_ok :: "(nat list \<Rightarrow> nat list) \<Rightarrow> bool" where
  "collect_ok collect \<longleftrightarrow> (\<forall>xs. set (collect xs) = set xs \<and> distinct (collect xs))"

definition field_all :: "(nat list \<Rightarrow> nat list) \<Rightarrow> field_type \<Rightarrow> schedule_field" where
  "field_all collect ft =
     collect (map (\<lambda>k. ft_min ft + k * ft_interval ft) [0..<(ft_max ft - ft_min ft) div ft_interval ft + 1])"

definition field_invalid :: "field_type \<Rightarrow> nat \<Rightarrow> bool" where
  "field_invalid ft v \<longleftrightarrow>
     \<not> (ft_min ft \<le> v \<and> v \<le> ft_max ft) \<or> (v - ft_min ft) mod ft_interval ft \<noteq> 0"

definition field_new ::
  "(nat list \<Rightarrow> nat list) \<Rightarrow> field_type \<Rightarrow> nat list \<Rightarrow> schedule_field_error + schedule_field" where
  "field_new collect ft vs =
     (let values = collect vs
      in case find (field_invalid ft) values of
           Some invalid \<Rightarrow>
             Inl \<lparr>sfe_field = ft_name ft, sfe_value = invalid, sfe_min = ft_min ft,
                  sfe_max = ft_max ft, sfe_interval = ft_interval ft\<rparr>
         | None \<Rightarrow> Inr values)"

definition field_single :: "(nat list \<Rightarrow> nat list) \<Rightarrow> field_type \<Rightarrow> nat \<Rightarrow> schedule_field_error + schedule_field" where
  "field_single collect ft v = field_new collect ft [v]"

definition field_contains :: "schedule_field \<Rightarrow> nat \<Rightarrow> bool" where
  "field_contains f v \<longleftrightarrow> v \<in> set f"

definition Seconds :: field_type where
  "Seconds = \<lparr>ft_name = ''Seconds'', ft_min = 0, ft_max = 59,
     ft_interval = as_usize SCHEDULE_POINT_INTERVAL\<rparr>"
definition Minutes :: field_type where
  "Minutes = \<lparr>ft_name = ''Minutes'', ft_min = 0, ft_max = 59, ft_interval = 1\<rparr>"
definition Hours :: field_type where
  "Hours = \<lparr>ft_name = ''Hours'', ft_min = 0, ft_max = 23, ft_interval = 1\<rparr>"
definition Days :: field_type where
  "Days = \<lparr>ft_name = ''Days'', ft_min = 1, ft_max = 31, ft_interval = 1\<rparr>"
definition Weekdays :: field_type where
  "Weekdays = \<lparr>ft_name = ''Weekdays'', ft_min = 0, ft_max = 6, ft_interval = 1\<rparr>"
definition Months :: field_type where
  "Months = \<lparr>ft_name = ''Months'', ft_min = 1, ft_max = 12, ft_interval = 1\<rparr>"

text \<open>\<open>Default\<close>: all values, except \<open>Seconds::single(0).unwrap()\<close>.\<close>

definition field_default :: "(nat list \<Rightarrow> nat list) \<Rightarrow> field_type \<Rightarrow> schedule_field option" where
  "field_default collect ft =
     (if ft_name ft = ''Seconds''
      then (case field_single collect ft 0 of Inl _ \<Rightarrow> None | Inr f \<Rightarrow> Some f)
      else Some (field_all collect ft))"

text \<open>The \<open>TryFrom\<close> implementations: \<open>All\<close>, one value, or a vector, set or array of values.\<close>

datatype field_arg = All | One nat | Values "nat list"

definition field_try_from ::
  "(nat list \<Rightarrow> nat list) \<Rightarrow> field_type \<Rightarrow> field_arg \<Rightarrow> schedule_field_error + schedule_field" where
  "field_try_from collect ft arg =
     (case arg of
        All \<Rightarrow> Inr (field_all collect ft)
      | One v \<Rightarrow> field_single collect ft v
      | Values vs \<Rightarrow> field_new collect ft vs)"

subsection \<open>Schedules and duplication policies\<close>

type_synonym 'dt policy = "'dt list \<Rightarrow> 'dt option \<Rightarrow> 'dt list"

definition OnlyEarliest :: "'dt policy" where
  "OnlyEarliest points last_at = (case points of [] \<Rightarrow> [] | p # _ \<Rightarrow> [p])"

definition OnlyLatest :: "'dt policy" where
  "OnlyLatest points last_at = (case rev points of [] \<Rightarrow> [] | p # _ \<Rightarrow> [p])"

record ('dt, 'tz) schedule =
  get_timezone :: "'tz option"
  schedule_call :: "'dt list \<Rightarrow> 'dt option \<Rightarrow> 'dt list"

record ('dt, 'tz) regular_schedule =
  rs_seconds :: schedule_field
  rs_minutes :: schedule_field
  rs_hours :: schedule_field
  rs_days :: schedule_field
  rs_weekdays :: schedule_field
  rs_months :: schedule_field
  rs_tzinfo :: "'tz option"
  rs_policy :: "'dt policy"

abbreviation bind_result :: "'e + 'a \<Rightarrow> ('a \<Rightarrow> 'e + 'b) \<Rightarrow> 'e + 'b" where
  "bind_result r f \<equiv> (case r of Inl e \<Rightarrow> Inl e | Inr x \<Rightarrow> f x)"

definition regular_schedule_new ::
  "(nat list \<Rightarrow> nat list) \<Rightarrow> field_arg \<Rightarrow> field_arg \<Rightarrow> field_arg \<Rightarrow> field_arg \<Rightarrow> field_arg \<Rightarrow> field_arg
   \<Rightarrow> 'tz option \<Rightarrow> 'dt policy \<Rightarrow> schedule_field_error + ('dt, 'tz) regular_schedule" where
  "regular_schedule_new collect seconds minutes hours days weekdays months tzinfo policy =
     bind_result (field_try_from collect Seconds seconds) (\<lambda>s.
     bind_result (field_try_from collect Minutes minutes) (\<lambda>m.
     bind_result (field_try_from collect Hours hours) (\<lambda>h.
     bind_result (field_try_from collect Days days) (\<lambda>d.
     bind_result (field_try_from collect Weekdays weekdays) (\<lambda>wd.
     bind_result (field_try_from collect Months months) (\<lambda>mo.
       Inr \<lparr>rs_seconds = s, rs_minutes = m, rs_hours = h, rs_days = d, rs_weekdays = wd,
            rs_months = mo, rs_tzinfo = tzinfo, rs_policy = policy\<rparr>))))))"

definition regular_filter :: "('dt, 'tz) chrono \<Rightarrow> ('dt, 'tz) regular_schedule \<Rightarrow> 'dt \<Rightarrow> bool" where
  "regular_filter C S p =
     (if \<not> field_contains (rs_seconds S) (dt_second C p) then False
      else if \<not> field_contains (rs_minutes S) (dt_minute C p) then False
      else if \<not> field_contains (rs_hours S) (dt_hour C p) then False
      else if \<not> field_contains (rs_days S) (dt_day C p) then False
      else if \<not> field_contains (rs_weekdays S) (dt_weekday_from_monday C p) then False
      else if \<not> field_contains (rs_months S) (dt_month C p) then False
      else True)"

definition regular_call ::
  "('dt, 'tz) chrono \<Rightarrow> ('dt, 'tz) regular_schedule \<Rightarrow> 'dt list \<Rightarrow> 'dt option \<Rightarrow> 'dt list" where
  "regular_call C S points last_at = rs_policy S (filter (regular_filter C S) points) last_at"

definition regular_as_schedule ::
  "('dt, 'tz) chrono \<Rightarrow> ('dt, 'tz) regular_schedule \<Rightarrow> ('dt, 'tz) schedule" where
  "regular_as_schedule C S = \<lparr>get_timezone = rs_tzinfo S, schedule_call = regular_call C S\<rparr>"

subsection \<open>Entries, state and the grid of schedule points\<close>

record ('dt, 'tz) schedule_entry =
  se_key :: schedule_entry_key
  se_schedule :: "('dt, 'tz) schedule"
  se_group :: task_group
  se_name :: task_name
  se_data :: bytes
  se_result_ttl :: "ttl option"

record scheduler_state =
  last_run_at :: timestamp
  last_scheduled_at :: "schedule_entry_key \<Rightarrow> timestamp option"

definition round_ts :: "timestamp \<Rightarrow> timestamp" where
  "round_ts ts = fmul (ffloor (fdiv ts SCHEDULE_POINT_INTERVAL)) SCHEDULE_POINT_INTERVAL"

text \<open>The subtraction of timestamps panics on a negative difference, which the guard excludes.\<close>

definition list_schedule_points :: "scheduler_state option \<Rightarrow> timestamp \<Rightarrow> timestamp list option" where
  "list_schedule_points state now =
     (let a = round_ts now
      in case state of
           None \<Rightarrow> Some [a]
         | Some s \<Rightarrow>
             (if a \<le> last_run_at s then Some []
              else case ts_diff a (last_run_at s) of
                     None \<Rightarrow> None
                   | Some elapsed \<Rightarrow>
                       (let points = as_usize (fdiv (duration_as_secs_f64 elapsed) SCHEDULE_POINT_INTERVAL)
                        in Some (map (\<lambda>i. ts_add_secs (last_run_at s)
                                            (fmul (fl (of_nat i)) SCHEDULE_POINT_INTERVAL))
                             [1..<points + 1]))))"

subsection \<open>The scheduler\<close>

record ('dt, 'tz) scheduler =
  sc_name :: scheduler_name
  sc_entries :: "('dt, 'tz) schedule_entry list"
  sc_tzinfo :: "'tz option"

definition scheduler_new ::
  "scheduler_name \<Rightarrow> ('dt, 'tz) schedule_entry list \<Rightarrow> 'tz option \<Rightarrow> ('dt, 'tz) scheduler option" where
  "scheduler_new name entries tzinfo =
     (if card (set (map se_key entries)) = length entries
      then Some \<lparr>sc_name = name, sc_entries = entries, sc_tzinfo = tzinfo\<rparr>
      else None)"

text \<open>
  What the scheduler takes from other code: chrono, \<open>local_tz\<close>, \<open>Uuid::new_v5\<close>, the serde_json
  codec of its state, and its clock, read once for every task it builds.
\<close>

record ('dt, 'tz) sched_env =
  env_chrono :: "('dt, 'tz) chrono"
  env_local_tz :: 'tz
  env_uuid5 :: "nat \<Rightarrow> bytes \<Rightarrow> string"
  env_to_vec :: "scheduler_state \<Rightarrow> bytes"
  env_from_slice :: "bytes \<Rightarrow> scheduler_state option"

definition get_state ::
  "('dt, 'tz) sched_env \<Rightarrow> 's task_backend \<Rightarrow> scheduler_name \<Rightarrow> 's \<Rightarrow> backend_error + scheduler_state option" where
  "get_state E B name s =
     (case tb_get_scheduler_state B name s of
        Inl e \<Rightarrow> Inl e
      | Inr None \<Rightarrow> Inr None
      | Inr (Some data) \<Rightarrow> Inr (env_from_slice E data))"

definition point_task ::
  "('dt, 'tz) sched_env \<Rightarrow> scheduler_name \<Rightarrow> ('dt, 'tz) schedule_entry \<Rightarrow> timestamp \<Rightarrow> 'dt \<Rightarrow> task_record" where
  "point_task E name entry created sp =
     (let sp_utc = with_utc (env_chrono E) sp; at_utc = from_datetime (env_chrono E) sp_utc
      in new_record
           (init_with_id created (for_schedule_point (env_uuid5 E) name (se_key entry) at_utc)
              (se_group entry) (se_name entry) (Some at_utc) (Some at_utc)
              (case se_result_ttl entry of Some t \<Rightarrow> t | None \<Rightarrow> default_task_ttl))
           (se_data entry))"

text \<open>
  The body of the loop over the entries, on the accumulated \<open>last_scheduled_at\<close> map and task
  list; the inner loop is the fold over the points the schedule chose.
\<close>

definition entry_points ::
  "('dt, 'tz) sched_env \<Rightarrow> ('dt, 'tz) scheduler \<Rightarrow> timestamp list \<Rightarrow> timestamp option
   \<Rightarrow> ('dt, 'tz) schedule_entry \<Rightarrow> 'dt list option" where
  "entry_points E sc points lst entry =
     (let tz = (case get_timezone (se_schedule entry) of
                  Some z \<Rightarrow> z
                | None \<Rightarrow> (case sc_tzinfo sc of Some z \<Rightarrow> z | None \<Rightarrow> env_local_tz E))
      in case those (map (\<lambda>sp. to_datetime (env_chrono E) sp tz) points) of
           None \<Rightarrow> None
         | Some ps \<Rightarrow>
             (case lst of
                None \<Rightarrow> Some (schedule_call (se_schedule entry) ps None)
              | Some ts \<Rightarrow>
                  (case to_datetime (env_chrono E) ts tz of
                     None \<Rightarrow> None
                   | Some d \<Rightarrow> Some (schedule_call (se_schedule entry) ps (Some d)))))"

definition schedule_points ::
  "('dt, 'tz) sched_env \<Rightarrow> scheduler_name \<Rightarrow> (nat \<Rightarrow> timestamp) \<Rightarrow> ('dt, 'tz) schedule_entry \<Rightarrow> 'dt list
   \<Rightarrow> (schedule_entry_key \<Rightarrow> timestamp option) \<times> task_record list
   \<Rightarrow> (schedule_entry_key \<Rightarrow> timestamp option) \<times> task_record list" where
  "schedule_points E name clock entry scheduled acc =
     fold (\<lambda>sp (m, tasks).
         (m(se_key entry \<mapsto> from_datetime (env_chrono E) (with_utc (env_chrono E) sp)),
          tasks @ [point_task E name entry (clock (length tasks)) sp]))
       scheduled acc"

fun schedule_all ::
  "('dt, 'tz) sched_env \<Rightarrow> ('dt, 'tz) scheduler \<Rightarrow> (nat \<Rightarrow> timestamp) \<Rightarrow> scheduler_state option
   \<Rightarrow> timestamp list \<Rightarrow> ('dt, 'tz) schedule_entry list
   \<Rightarrow> (schedule_entry_key \<Rightarrow> timestamp option) \<times> task_record list
   \<Rightarrow> ((schedule_entry_key \<Rightarrow> timestamp option) \<times> task_record list) option" where
  "schedule_all E sc clock state points [] acc = Some acc"
| "schedule_all E sc clock state points (entry # entries) (m, tasks) =
     (let lst = (case state of None \<Rightarrow> None | Some s \<Rightarrow> last_scheduled_at s (se_key entry));
          m' = (case lst of Some ts \<Rightarrow> m(se_key entry \<mapsto> ts) | None \<Rightarrow> m)
      in case entry_points E sc points lst entry of
           None \<Rightarrow> None
         | Some scheduled \<Rightarrow>
             schedule_all E sc clock state points entries
               (schedule_points E (sc_name sc) clock entry scheduled (m', tasks)))"

text \<open>\<open>None\<close> in the first component is a panic.\<close>

definition schedule_entries ::
  "('dt, 'tz) sched_env \<Rightarrow> 's task_backend \<Rightarrow> ('dt, 'tz) scheduler \<Rightarrow> (nat \<Rightarrow> timestamp) \<Rightarrow> timestamp
   \<Rightarrow> 's \<Rightarrow> (backend_error + unit) option \<times> 's" where
  "schedule_entries E B sc clock now s =
     (case get_state E B (sc_name sc) s of
        Inl e \<Rightarrow> (Some (Inl e), s)
      | Inr state \<Rightarrow>
          (case list_schedule_points state now of
             None \<Rightarrow> (None, s)
           | Some [] \<Rightarrow> (Some (Inr ()), s)
           | Some points \<Rightarrow>
               (case schedule_all E sc clock state points (sc_entries sc) (Map.empty, []) of
                  None \<Rightarrow> (None, s)
                | Some (m, tasks) \<Rightarrow>
                    (let new_state = \<lparr>last_run_at = last points, last_scheduled_at = m\<rparr>;
                         (res, s') = tb_persist_scheduler_state_and_put_tasks B (sc_name sc)
                                       (env_to_vec E new_state) tasks s
                     in (Some res, s')))))"

text \<open>
  \<open>Service::call\<close>.  The three clock readings are \<open>t0\<close>, \<open>t1\<close> and \<open>t2\<close>.  The lock handle is dropped
  when the \<open>if let\<close> chain is left, on a panic as well.
\<close>

definition scheduler_call ::
  "('dt, 'tz) sched_env \<Rightarrow> 's task_backend \<Rightarrow> ('s, 'l) lock_provider \<Rightarrow> ('dt, 'tz) scheduler
   \<Rightarrow> (nat \<Rightarrow> timestamp) \<Rightarrow> timestamp \<Rightarrow> timestamp \<Rightarrow> timestamp \<Rightarrow> 's \<Rightarrow> duration option \<times> 's" where
  "scheduler_call E B L sc clock t0 t1 t2 s =
     (let start = round_ts t0;
          interval = ts_diff (ts_max (ts_add_secs start SCHEDULE_POINT_INTERVAL) t2) t2
      in if sc_entries sc = [] then (interval, s)
         else case lp_get_lock L (''scheduler.'' @ sc_name sc) s of
                Inl _ \<Rightarrow> (interval, s)
              | Inr l \<Rightarrow>
                  (case lp_acquire L l s of
                     (False, l, s) \<Rightarrow> (interval, lp_drop L l s)
                   | (True, l, s) \<Rightarrow>
                       (case schedule_entries E B sc clock t1 s of
                          (None, s) \<Rightarrow> (None, lp_drop L l s)
                        | (Some _, s) \<Rightarrow>
                            (case lp_release L l s of (l, s) \<Rightarrow> (interval, lp_drop L l s)))))"

end
