(* ===== verification/Scheduler_Facts.thy ===== *)
theory Scheduler_Facts imports Scheduler begin

section \<open>Facts about the scheduler\<close>

text \<open>
  Rounding to the grid in \<open>f64\<close> arithmetic, the list of schedule points, the loop over the
  entries, and, in the locale of task stores, what a run of the scheduler does to the store.
\<close>

subsection \<open>Schedule fields\<close>

lemma field_new_Inr:
  assumes "collect_ok collect"
  shows "field_new collect ft vs = Inr f \<longleftrightarrow> (\<forall>v\<in>set vs. \<not> field_invalid ft v) \<and> f = collect vs"
  using assms by (auto simp: field_new_def Let_def collect_ok_def find_None_iff split: option.splits)
    (metis find_None_iff option.distinct(1))

lemma field_new_Inl:
  assumes "collect_ok collect" and "field_new collect ft vs = Inl e"
  shows "sfe_value e \<in> set vs \<and> field_invalid ft (sfe_value e) \<and> sfe_field e = ft_name ft \<and>
    sfe_min e = ft_min ft \<and> sfe_max e = ft_max ft \<and> sfe_interval e = ft_interval ft"
proof -
  from assms(2) obtain v where f: "find (field_invalid ft) (collect vs) = Some v"
    and e: "e = \<lparr>sfe_field = ft_name ft, sfe_value = v, sfe_min = ft_min ft,
                  sfe_max = ft_max ft, sfe_interval = ft_interval ft\<rparr>"
    by (auto simp: field_new_def Let_def split: option.splits)
  from f have "v \<in> set (collect vs)" "field_invalid ft v"
    by (auto simp: find_Some_iff)
  with e assms(1) show ?thesis by (simp add: collect_ok_def)
qed

lemma field_all_set:
  assumes "collect_ok collect" and "ft_min ft \<le> ft_max ft" and "0 < ft_interval ft"
  shows "set (field_all collect ft) = {v. \<not> field_invalid ft v}"
proof -
  have "v \<in> (\<lambda>k. ft_min ft + k * ft_interval ft) ` {0..<(ft_max ft - ft_min ft) div ft_interval ft + 1}
      \<longleftrightarrow> \<not> field_invalid ft v" for v
  proof
    assume "v \<in> (\<lambda>k. ft_min ft + k * ft_interval ft) ` {0..<(ft_max ft - ft_min ft) div ft_interval ft + 1}"
    then obtain k where v: "v = ft_min ft + k * ft_interval ft"
      and k: "k < (ft_max ft - ft_min ft) div ft_interval ft + 1" by (auto simp only: image_iff atLeastLessThan_iff)
    from k have "k \<le> (ft_max ft - ft_min ft) div ft_interval ft" by simp
    then have "k * ft_interval ft \<le> ft_max ft - ft_min ft"
      by (metis div_times_less_eq_dividend le_trans mult_le_mono1)
    with v assms(2) show "\<not> field_invalid ft v" by (simp add: field_invalid_def)
  next
    assume "\<not> field_invalid ft v"
    then have b: "ft_min ft \<le> v" "v \<le> ft_max ft" and m: "(v - ft_min ft) mod ft_interval ft = 0"
      by (auto simp: field_invalid_def)
    let ?k = "(v - ft_min ft) div ft_interval ft"
    have "v = ft_min ft + ?k * ft_interval ft"
      using b(1) m div_mult_mod_eq [of "v - ft_min ft" "ft_interval ft"] by simp
    moreover have "?k \<le> (ft_max ft - ft_min ft) div ft_interval ft"
      using b by (intro div_le_mono) simp
    ultimately show "v \<in> (\<lambda>k. ft_min ft + k * ft_interval ft) ` {0..<(ft_max ft - ft_min ft) div ft_interval ft + 1}"
      by (intro image_eqI [of _ _ ?k]) auto
  qed
  then have "(\<lambda>k. ft_min ft + k * ft_interval ft) ` {0..<(ft_max ft - ft_min ft) div ft_interval ft + 1}
      = {v. \<not> field_invalid ft v}" by blast
  then show ?thesis using assms(1) by (simp only: field_all_def collect_ok_def set_map set_upt)
qed

lemma seconds_interval: "ft_interval Seconds = 5"
  by (simp add: Seconds_def SCHEDULE_POINT_INTERVAL_def as_usize_def trunc_def)

lemma field_types_ok:
  "ft \<in> {Seconds, Minutes, Hours, Days, Weekdays, Months} \<Longrightarrow> ft_min ft \<le> ft_max ft \<and> 0 < ft_interval ft"
  using seconds_interval
  by (auto simp: Seconds_def Minutes_def Hours_def Days_def Weekdays_def Months_def)

definition arg_values :: "field_type \<Rightarrow> field_arg \<Rightarrow> nat set" where
  "arg_values ft arg =
     (case arg of All \<Rightarrow> {v. \<not> field_invalid ft v} | One v \<Rightarrow> {v} | Values vs \<Rightarrow> set vs)"

lemma field_try_from_Inr:
  assumes "collect_ok collect" and "ft_min ft \<le> ft_max ft \<and> 0 < ft_interval ft"
    and "field_try_from collect ft arg = Inr f"
  shows "set f = arg_values ft arg \<and> (\<forall>v\<in>arg_values ft arg. \<not> field_invalid ft v)"
proof (cases arg)
  case All
  with assms show ?thesis
    using field_all_set [OF assms(1), of ft] by (auto simp: field_try_from_def arg_values_def)
next
  case (One v)
  with assms(3) have "field_new collect ft [v] = Inr f"
    by (simp add: field_try_from_def field_single_def)
  with One show ?thesis
    unfolding field_new_Inr [OF assms(1)] using assms(1) by (simp add: arg_values_def collect_ok_def)
next
  case (Values vs)
  with assms(3) have "field_new collect ft vs = Inr f" by (simp add: field_try_from_def)
  with Values show ?thesis
    unfolding field_new_Inr [OF assms(1)] using assms(1) by (simp add: arg_values_def collect_ok_def)
qed

lemma field_try_from_Inl:
  assumes "collect_ok collect" and "field_try_from collect ft arg = Inl e"
  shows "sfe_value e \<in> arg_values ft arg \<and> field_invalid ft (sfe_value e) \<and> sfe_field e = ft_name ft"
proof (cases arg)
  case (One v)
  with assms(2) have "field_new collect ft [v] = Inl e"
    by (simp add: field_try_from_def field_single_def)
  from field_new_Inl [OF assms(1) this] One show ?thesis by (auto simp: arg_values_def)
next
  case (Values vs)
  with assms(2) have "field_new collect ft vs = Inl e" by (simp add: field_try_from_def)
  from field_new_Inl [OF assms(1) this] Values show ?thesis by (simp add: arg_values_def)
qed (use assms(2) in \<open>simp add: field_try_from_def\<close>)

subsection \<open>Rounding to the grid\<close>

lemma powi2_neg: "(2 :: rat) powi (- int n) = 1 / 2 ^ n"
  by (simp add: power_int_minus inverse_eq_divide)

lemma f64_fraction:
  assumes "is_f64 x" and "32 \<le> x" and "x \<le> 2 ^ 53"
  obtains m :: int and j :: nat where "x = of_int m / 2 ^ j" and "m \<le> 2 ^ 53" and "j \<le> 48"
proof -
  from assms(1) obtain n e where n: "\<bar>n\<bar> \<le> 2 ^ 53" and x: "x = of_int n * 2 powi e"
    by (auto simp: is_f64_def)
  show thesis
  proof (cases "0 \<le> e")
    case True
    then have "x = of_int (n * 2 ^ nat e) / 2 ^ 0" by (simp add: x power_int_def)
    moreover have "n * 2 ^ nat e \<le> 2 ^ 53"
      using assms(3) calculation by (simp del: of_int_mult of_int_power)
    ultimately show thesis using that [of "n * 2 ^ nat e" 0] by simp
  next
    case False
    define j where "j = nat (- e)"
    have xj: "x = of_int n / 2 ^ j" using False by (simp add: x j_def power_int_def field_simps)
    have "of_int n \<le> (2 ^ 53 :: rat)" using n by (metis abs_le_D1 of_int_le_iff of_int_numeral of_int_power)
    moreover have "32 * 2 ^ j \<le> (of_int n :: rat)" using assms(2) xj by (simp add: field_simps)
    ultimately have "2 ^ j \<le> (2 ^ 48 :: rat)" by simp
    then have "j \<le> 48" by (rule power_le_imp_le_exp [rotated]) simp
    with xj n show thesis using that [of n j] by simp
  qed
qed

text \<open>
  The quotient is correctly rounded, and between \<open>x / 5\<close> and the next integer \<open>k\<close> there is always
  an \<open>f64\<close> nearer to \<open>x / 5\<close> than \<open>k\<close> is, so that rounding never reaches \<open>k\<close>.
\<close>

lemma floor_fdiv_5:
  assumes "is_f64 x" and "32 \<le> x" and "x \<le> 2 ^ 53"
  shows "\<lfloor>fdiv x 5\<rfloor> = \<lfloor>x / 5\<rfloor>"
proof -
  obtain m j where x: "x = of_int m / 2 ^ j" and m: "m \<le> 2 ^ 53" and j: "j \<le> 48"
    using f64_fraction [OF assms] .
  define k where "k = \<lfloor>x / 5\<rfloor> + 1"
  have kx: "x / 5 < of_int k" "of_int k \<le> x / 5 + 1" unfolding k_def by linarith+
  have "(of_int m :: rat) < of_int (5 * k * 2 ^ j)"
    using kx(1) by (simp add: x field_simps)
  then have mk: "m + 1 \<le> 5 * k * 2 ^ j" by linarith
  define d :: rat where "d = of_int (k * 2 ^ (j + 2) - 1) / 2 ^ (j + 2)"
  have num: "k * 2 ^ (j + 2) - 1 \<le> 2 ^ 53"
  proof -
    have "(of_int k :: rat) * 2 ^ j \<le> of_int m / 5 + 2 ^ j"
      using kx(2) by (simp add: x field_simps)
    then have "(of_int (5 * (k * 2 ^ j)) :: rat) \<le> of_int (m + 5 * 2 ^ j)" by simp
    then have "5 * (k * 2 ^ j) \<le> m + 5 * 2 ^ j" by (simp only: of_int_le_iff)
    moreover have "(2 :: int) ^ j \<le> 2 ^ 48" using j by (rule power_increasing) simp
    ultimately show ?thesis using m by (simp add: power_add)
  qed
  have k1: "1 \<le> k" unfolding k_def using assms(2) by (simp add: le_floor_iff)
  have "(1 :: int) \<le> k * 2 ^ (j + 2)" using k1 by (metis one_le_power one_le_numeral mult_mono' mult_1 zero_le_one)
  then have "\<bar>k * 2 ^ (j + 2) - 1\<bar> \<le> 2 ^ 53" using num by simp
  moreover have "d = of_int (k * 2 ^ (j + 2) - 1) * 2 powi (- int (j + 2))"
    unfolding d_def powi2_neg by simp
  moreover have "-1074 \<le> - int (j + 2)" using j by simp
  ultimately have "is_f64 d" unfolding is_f64_def by blast
  have dk: "d = of_int k - 1 / 2 ^ (j + 2)" by (simp add: d_def field_simps)
  have gap: "1 / (5 * 2 ^ j) \<le> of_int k - x / 5"
  proof -
    have "(of_int (m + 1) :: rat) \<le> of_int (5 * k * 2 ^ j)" using mk by (simp only: of_int_le_iff)
    then show ?thesis by (simp add: x field_simps)
  qed
  have "\<bar>d - x / 5\<bar> < of_int k - x / 5"
  proof -
    have "1 / 2 ^ (j + 2) = (5 / 4) * (1 / (5 * 2 ^ j) :: rat)" by (simp add: power_add)
    moreover have "(0 :: rat) < 1 / (5 * 2 ^ j)" by simp
    ultimately show ?thesis using gap unfolding dk by linarith
  qed
  with fl_nearest [OF \<open>is_f64 d\<close>, of "x / 5"] have less: "fl (x / 5) < of_int k" by linarith
  have "\<bar>\<lfloor>x / 5\<rfloor>\<bar> \<le> 2 ^ 53"
  proof -
    have "(of_int \<lfloor>x / 5\<rfloor> :: rat) \<le> of_int (2 ^ 53)" using assms(3) kx(1) floor_rat_bounds(1) [of "x / 5"] assms(2) by simp
    then have "\<lfloor>x / 5\<rfloor> \<le> 2 ^ 53" by (simp only: of_int_le_iff)
    moreover have "0 \<le> \<lfloor>x / 5\<rfloor>" using assms(2) by simp
    ultimately show ?thesis by simp
  qed
  then have "of_int \<lfloor>x / 5\<rfloor> \<le> fl (x / 5)"
    using floor_rat_bounds(1) [of "x / 5"] by (intro fl_ge is_f64_of_int)
  with less show ?thesis by (simp add: fdiv_def floor_eq_iff k_def)
qed

definition grid :: "int \<Rightarrow> timestamp" where "grid k = of_int (5 * k)"

definition slot :: "timestamp \<Rightarrow> int" where "slot t = \<lfloor>t / 5\<rfloor>"

definition clock_ok :: "timestamp \<Rightarrow> bool" where
  "clock_ok t \<longleftrightarrow> is_f64 t \<and> 32 \<le> t \<and> t \<le> 2 ^ 50"

lemma grid_le [simp]: "grid j \<le> grid k \<longleftrightarrow> j \<le> k" and grid_less [simp]: "grid j < grid k \<longleftrightarrow> j < k"
  and grid_eq [simp]: "grid j = grid k \<longleftrightarrow> j = k"
  by (simp_all add: grid_def)

lemma slot_grid [simp]: "slot (grid k) = k"
  by (simp add: slot_def grid_def)

lemma slot_bounds: "clock_ok t \<Longrightarrow> 0 \<le> slot t \<and> slot t \<le> 2 ^ 50"
  unfolding clock_ok_def slot_def by (simp add: le_floor_iff floor_le_iff)

lemma grid_slot: "grid (slot t) \<le> t" "t < grid (slot t) + 5"
proof -
  have "(of_int \<lfloor>t / 5\<rfloor> :: rat) \<le> t / 5" "t / 5 < of_int \<lfloor>t / 5\<rfloor> + 1" by (rule floor_rat_bounds)+
  then show "grid (slot t) \<le> t" "t < grid (slot t) + 5" by (simp_all add: grid_def slot_def)
qed

lemma is_f64_grid: "\<bar>k\<bar> \<le> 2 ^ 50 \<Longrightarrow> is_f64 (grid k)"
  unfolding grid_def by (rule is_f64_of_int) simp

lemma round_ts_grid:
  assumes "clock_ok t"
  shows "round_ts t = grid (slot t)"
proof -
  have "\<lfloor>fdiv t 5\<rfloor> = slot t"
    unfolding slot_def using assms by (intro floor_fdiv_5) (simp_all add: clock_ok_def)
  moreover have "fl (grid (slot t)) = grid (slot t)"
    using slot_bounds [OF assms] by (intro fl_f64 is_f64_grid) simp
  ultimately show ?thesis
    by (simp add: round_ts_def SCHEDULE_POINT_INTERVAL_def ffloor_def fmul_def grid_def mult.commute)
qed

text \<open>Every point after the last run up to the present slot, each once and in order.\<close>

lemma list_schedule_points_None:
  "clock_ok now \<Longrightarrow> list_schedule_points None now = Some [grid (slot now)]"
  by (simp add: list_schedule_points_def round_ts_grid)

lemma upto_shift: "map (\<lambda>i. a + int i) [1..<n + 1] = [a + 1..a + int n]"
proof (induction n)
  case (Suc n)
  have "[a + 1..a + int (Suc n)] = [a + 1..a + int n] @ [a + int (Suc n)]"
    using upto_rec2 [of "a + 1" "a + int (Suc n)"] by simp
  with Suc show ?case by simp
qed simp

lemma list_schedule_points_Some:
  assumes "clock_ok now" and "last_run_at s = grid a" and "0 \<le> a" and "a \<le> 2 ^ 50"
  shows "list_schedule_points (Some s) now = Some (map grid [a + 1..slot now])"
proof (cases "slot now \<le> a")
  case True
  then show ?thesis by (simp add: list_schedule_points_def round_ts_grid assms)
next
  case False
  define n where "n = nat (slot now - a)"
  have n: "slot now = a + int n" "n \<le> 2 ^ 50"
    using False slot_bounds [OF assms(1)] assms(3) by (simp_all add: n_def)
  have diff: "grid (slot now) - grid a = of_nat (5 * n)" by (simp add: grid_def n)
  have "fsub (grid (slot now)) (grid a) = of_nat (5 * n)"
    unfolding fsub_def diff by (rule fl_of_nat) (use n in simp)
  moreover have "5 * n < 2 ^ 64" using n(2) by simp
  ultimately have el: "ts_diff (grid (slot now)) (grid a) = Some (duration_from_secs (5 * n))"
    unfolding ts_diff_def using duration_from_secs_f64_whole [of "5 * n"] by simp
  have "duration_as_secs_f64 (duration_from_secs (5 * n)) = of_nat (5 * n)"
    by (rule duration_as_secs_f64_whole) (use n in simp)
  then have "fdiv (duration_as_secs_f64 (duration_from_secs (5 * n))) 5 = of_nat n"
    using fl_of_nat [of n] n(2) by (simp add: fdiv_def)
  moreover have "as_usize (of_nat n) = n" using n(2) by (simp add: as_usize_def trunc_def)
  ultimately have pts: "as_usize (fdiv (duration_as_secs_f64 (duration_from_secs (5 * n))) 5) = n" by simp
  have point: "ts_add_secs (grid a) (fmul (fl (of_nat i)) 5) = grid (a + int i)" if "i \<le> n" for i
  proof -
    have "fl (of_nat i) = of_nat i" using that n(2) by (intro fl_of_nat) simp
    moreover have "fl (of_nat (i * 5)) = of_nat (i * 5)" using that n(2) by (intro fl_of_nat) simp
    moreover have "\<bar>a + int i\<bar> \<le> 2 ^ 50"
      using that n(1) slot_bounds [OF assms(1)] assms(3) by simp
    from fl_f64 [OF is_f64_grid [OF this]] have "fl (grid a + of_nat (i * 5)) = grid (a + int i)"
      by (simp add: grid_def mult.commute)
    ultimately show ?thesis by (simp add: ts_add_secs_def fadd_def fmul_def)
  qed
  have "list_schedule_points (Some s) now =
      Some (map (\<lambda>i. ts_add_secs (grid a) (fmul (fl (of_nat i)) 5)) [1..<n + 1])"
    using False by (simp add: list_schedule_points_def round_ts_grid [OF assms(1)] assms(2) el
        SCHEDULE_POINT_INTERVAL_def pts Let_def)
  also have "map (\<lambda>i. ts_add_secs (grid a) (fmul (fl (of_nat i)) 5)) [1..<n + 1]
      = map grid (map (\<lambda>i. a + int i) [1..<n + 1])"
    unfolding map_map comp_def by (intro map_cong refl point) auto
  also have "\<dots> = map grid [a + 1..slot now]" unfolding upto_shift n(1) ..
  finally show ?thesis .
qed

subsection \<open>A sequence of runs\<close>

text \<open>
  The points that successive runs at the given times list, each run starting from the state the
  previous one stored.
\<close>

fun listed_points :: "scheduler_state option \<Rightarrow> timestamp list \<Rightarrow> timestamp list list" where
  "listed_points state [] = []"
| "listed_points state (now # nows) =
     (case list_schedule_points state now of
        None \<Rightarrow> []
      | Some [] \<Rightarrow> [] # listed_points state nows
      | Some points \<Rightarrow>
          points # listed_points (Some \<lparr>last_run_at = last points, last_scheduled_at = Map.empty\<rparr>) nows)"

definition latest_slot :: "int \<Rightarrow> timestamp list \<Rightarrow> int" where
  "latest_slot a nows = fold max (map slot nows) a"

lemma latest_slot_simps [simp]:
  "latest_slot a [] = a" "latest_slot a (now # nows) = latest_slot (max a (slot now)) nows"
  by (simp_all add: latest_slot_def max.commute)

lemma latest_slot_ge: "a \<le> latest_slot a nows"
  by (induction nows arbitrary: a) (simp, metis latest_slot_simps(2) max.bounded_iff)

lemma listed_points_Some:
  assumes "\<forall>now\<in>set nows. clock_ok now" and "0 \<le> a" and "a \<le> 2 ^ 50" and "last_run_at s = grid a"
  shows "concat (listed_points (Some s) nows) = map grid [a + 1..latest_slot a nows] \<and>
    length (listed_points (Some s) nows) = length nows"
  using assms
proof (induction nows arbitrary: a s)
  case (Cons now nows)
  have ok: "clock_ok now" using Cons.prems(1) by simp
  have l: "list_schedule_points (Some s) now = Some (map grid [a + 1..slot now])"
    using list_schedule_points_Some [OF ok Cons.prems(4,2,3)] .
  show ?case
  proof (cases "slot now \<le> a")
    case True
    then have "[a + 1..slot now] = []" by simp
    with l Cons.IH [OF _ Cons.prems(2-4)] Cons.prems(1) True show ?thesis by (simp add: max_absorb1)
  next
    case False
    then have ne: "[a + 1..slot now] \<noteq> []" by simp
    then obtain p ps where ps: "map grid [a + 1..slot now] = p # ps"
      by (metis list.exhaust map_is_Nil_conv)
    have "last [a + 1..slot now] = slot now" using False upto_rec2 [of "a + 1" "slot now"] by simp
    then have la: "last (p # ps) = grid (slot now)" using ps ne by (metis last_map)
    let ?s = "\<lparr>last_run_at = last (p # ps), last_scheduled_at = Map.empty\<rparr>"
    have "concat (listed_points (Some ?s) nows) = map grid [slot now + 1..latest_slot (slot now) nows] \<and>
        length (listed_points (Some ?s) nows) = length nows"
      using Cons.prems(1) slot_bounds [OF ok] la by (intro Cons.IH) simp_all
    moreover have "listed_points (Some s) (now # nows) = (p # ps) # listed_points (Some ?s) nows"
      using l ps by simp
    moreover have "[a + 1..latest_slot (slot now) nows] = [a + 1..slot now] @ [slot now + 1..latest_slot (slot now) nows]"
      using False latest_slot_ge [of "slot now" nows] by (intro upto_split2) simp_all
    ultimately show ?thesis using False ps [symmetric] by (simp add: max_absorb2)
  qed
qed simp

subsection \<open>The loop over the entries\<close>

lemma schedule_points_spec:
  "schedule_points E n clock e sps (m, ts) =
     (fold (\<lambda>sp m. m(se_key e \<mapsto> from_datetime (env_chrono E) (with_utc (env_chrono E) sp))) sps m,
      ts @ map2 (\<lambda>i sp. point_task E n e (clock i) sp) [length ts..<length ts + length sps] sps)"
proof (induction sps arbitrary: m ts)
  case (Cons sp sps)
  have "[length ts..<length ts + length (sp # sps)]
      = length ts # [Suc (length ts)..<Suc (length ts) + length sps]"
    by (simp add: upt_rec)
  with Cons.IH show ?case by (simp add: schedule_points_def)
qed (simp add: schedule_points_def)

lemma fold_same_key:
  "fold (\<lambda>sp m. m(k \<mapsto> f sp)) sps m = (if sps = [] then m else m(k \<mapsto> f (last sps)))"
  by (induction sps arbitrary: m) auto

text \<open>The points chosen for every entry, in order; \<open>None\<close> if some date conversion panics.\<close>

definition last_of :: "scheduler_state option \<Rightarrow> schedule_entry_key \<Rightarrow> timestamp option" where
  "last_of state k = (case state of None \<Rightarrow> None | Some s \<Rightarrow> last_scheduled_at s k)"

fun chosen ::
  "('dt, 'tz) sched_env \<Rightarrow> ('dt, 'tz) scheduler \<Rightarrow> scheduler_state option \<Rightarrow> timestamp list
   \<Rightarrow> ('dt, 'tz) schedule_entry list \<Rightarrow> (('dt, 'tz) schedule_entry \<times> 'dt) list option" where
  "chosen E sc state points [] = Some []"
| "chosen E sc state points (e # es) =
     (case entry_points E sc points (last_of state (se_key e)) e of
        None \<Rightarrow> None
      | Some sps \<Rightarrow> map_option (append (map (Pair e) sps)) (chosen E sc state points es))"

definition tasks_at ::
  "('dt, 'tz) sched_env \<Rightarrow> scheduler_name \<Rightarrow> (nat \<Rightarrow> timestamp) \<Rightarrow> nat
   \<Rightarrow> (('dt, 'tz) schedule_entry \<times> 'dt) list \<Rightarrow> task_record list" where
  "tasks_at E n clock k cs = map2 (\<lambda>i (e, sp). point_task E n e (clock i) sp) [k..<k + length cs] cs"

lemma tasks_at_append:
  "tasks_at E n clock k (cs @ ds) = tasks_at E n clock k cs @ tasks_at E n clock (k + length cs) ds"
proof -
  have "[k..<k + length (cs @ ds)] = [k..<k + length cs] @ [k + length cs..<k + length cs + length ds]"
    using upt_add_eq_append [of k "k + length cs" "length ds"] by (simp add: add.assoc)
  then show ?thesis by (simp add: tasks_at_def)
qed

lemma tasks_at_entry:
  "tasks_at E n clock k (map (Pair e) sps) = map2 (\<lambda>i sp. point_task E n e (clock i) sp) [k..<k + length sps] sps"
  by (simp add: tasks_at_def zip_map2 comp_def case_prod_unfold)

lemma length_tasks_at [simp]: "length (tasks_at E n clock k cs) = length cs"
  by (simp add: tasks_at_def)

lemma schedule_all_tasks:
  "schedule_all E sc clock state points es (m, ts) = Some (m', ts') \<Longrightarrow>
   \<exists>cs. chosen E sc state points es = Some cs \<and> ts' = ts @ tasks_at E (sc_name sc) clock (length ts) cs"
proof (induction es arbitrary: m ts)
  case (Cons e es)
  let ?l = "last_of state (se_key e)"
  let ?m = "case ?l of Some t \<Rightarrow> m(se_key e \<mapsto> t) | None \<Rightarrow> m"
  from Cons.prems obtain sps where sps: "entry_points E sc points ?l e = Some sps"
    and rest: "schedule_all E sc clock state points es
      (schedule_points E (sc_name sc) clock e sps (?m, ts)) = Some (m', ts')"
    by (auto simp: last_of_def Let_def split: option.splits)
  from Cons.IH [OF rest [unfolded schedule_points_spec]] obtain cs
    where cs: "chosen E sc state points es = Some cs"
      and ts': "ts' = (ts @ tasks_at E (sc_name sc) clock (length ts) (map (Pair e) sps)) @
        tasks_at E (sc_name sc) clock (length ts + length sps) cs"
    unfolding tasks_at_entry [symmetric] by auto
  from cs sps ts' show ?case by (simp add: tasks_at_append)
qed (simp add: tasks_at_def)

text \<open>What a scheduled task's id is made of: not the clock.\<close>

definition point_id :: "('dt, 'tz) sched_env \<Rightarrow> scheduler_name \<Rightarrow> ('dt, 'tz) schedule_entry \<times> 'dt \<Rightarrow> task_id" where
  "point_id E n c = for_schedule_point (env_uuid5 E) n (se_key (fst c))
     (from_datetime (env_chrono E) (with_utc (env_chrono E) (snd c)))"

lemma tr_id_point_task: "tr_id (point_task E n e t sp) = point_id E n (e, sp)"
  by (simp add: point_task_def Let_def init_with_id_def point_id_def)

lemma tasks_at_ids: "map tr_id (tasks_at E n clock k cs) = map (point_id E n) cs"
  by (rule nth_equalityI) (auto simp: tasks_at_def tr_id_point_task case_prod_unfold)

lemma chosen_in:
  "chosen E sc state points es = Some cs \<Longrightarrow> (e, sp) \<in> set cs \<Longrightarrow>
   e \<in> set es \<and> (\<exists>sps. entry_points E sc points (last_of state (se_key e)) e = Some sps \<and> sp \<in> set sps)"
  by (induction es arbitrary: cs) (auto split: option.splits)

lemma chosen_length:
  assumes "chosen E sc state points es = Some cs"
    and "\<And>e sps. e \<in> set es \<Longrightarrow> entry_points E sc points (last_of state (se_key e)) e = Some sps \<Longrightarrow> length sps \<le> 1"
  shows "length cs \<le> length es"
  using assms
proof (induction es arbitrary: cs)
  case (Cons e es)
  from Cons.prems(1) obtain sps ds where "entry_points E sc points (last_of state (se_key e)) e = Some sps"
    and "chosen E sc state points es = Some ds" and "cs = map (Pair e) sps @ ds"
    by (auto split: option.splits)
  with Cons.IH [of ds] Cons.prems(2) [of e sps] Cons.prems(2) show ?case by fastforce
qed simp

subsection \<open>A run of the scheduler on a task store\<close>

context task_store begin

lemma get_state_law:
  assumes "inv s" and "get_state E B n s = Inr state"
  shows "state = Option.bind (sched s n) (env_from_slice E)"
proof -
  from assms(2) obtain d where d: "tb_get_scheduler_state B n s = Inr d"
    and st: "state = Option.bind d (env_from_slice E)"
    by (auto simp: get_state_def split: sum.splits option.splits)
  from sched_law [OF assms(1) d] st show ?thesis by simp
qed

lemma schedule_entries_law:
  assumes "inv s" and "schedule_entries E B sc clock now s = (res, s')"
  defines "state \<equiv> Option.bind (sched s (sc_name sc)) (env_from_slice E)"
  shows "inv s' \<and>
    (view s' = view s \<and> sched s' = sched s \<and>
       (res = Some (Inr ()) \<longrightarrow> list_schedule_points state now = Some []) \<or>
     (\<exists>points m cs. res = Some (Inr ()) \<and> list_schedule_points state now = Some points \<and> points \<noteq> [] \<and>
        chosen E sc state points (sc_entries sc) = Some cs \<and>
        schedule_all E sc clock state points (sc_entries sc) (Map.empty, []) =
          Some (m, tasks_at E (sc_name sc) clock 0 cs) \<and>
        view s' = spec_put_all (tasks_at E (sc_name sc) clock 0 cs) (view s) \<and>
        sched s' = (sched s)(sc_name sc \<mapsto>
          env_to_vec E \<lparr>last_run_at = last points, last_scheduled_at = m\<rparr>)))"
proof (cases "get_state E B (sc_name sc) s")
  case (Inl e)
  with assms(1,2) show ?thesis by (auto simp: schedule_entries_def)
next
  case (Inr st)
  then have st: "st = state" unfolding state_def by (rule get_state_law [OF assms(1)])
  show ?thesis
  proof (cases "list_schedule_points state now")
    case None
    with assms(1,2) Inr st show ?thesis by (auto simp: schedule_entries_def)
  next
    case points: (Some points)
    show ?thesis
    proof (cases points)
      case Nil
      with assms(1,2) Inr st points show ?thesis by (auto simp: schedule_entries_def)
    next
      case (Cons p ps)
      show ?thesis
      proof (cases "schedule_all E sc clock state points (sc_entries sc) (Map.empty, [])")
        case None
        with assms(1,2) Inr st points Cons show ?thesis by (auto simp: schedule_entries_def)
      next
        case (Some a)
        then obtain m ts where a: "schedule_all E sc clock state points (sc_entries sc) (Map.empty, []) = Some (m, ts)"
          by (cases a) simp
        from schedule_all_tasks [OF a] obtain cs
          where cs: "chosen E sc state points (sc_entries sc) = Some cs"
            and ts: "ts = tasks_at E (sc_name sc) clock 0 cs" by auto
        let ?new = "env_to_vec E \<lparr>last_run_at = last points, last_scheduled_at = m\<rparr>"
        obtain r where p: "tb_persist_scheduler_state_and_put_tasks B (sc_name sc) ?new ts s = (r, s')"
          and res: "res = Some r"
          using assms(2) Inr st points Cons a
          by (auto simp: schedule_entries_def Let_def split: prod.splits)
        show ?thesis
        proof (cases r)
          case (Inl e)
          with persist_law [OF assms(1) p] res show ?thesis by simp
        next
          case (Inr u)
          with persist_law [OF assms(1) p] res points Cons cs a ts show ?thesis
            by (intro conjI disjI2 exI [of _ points] exI [of _ m] exI [of _ cs]) simp_all
        qed
      qed
    qed
  qed
qed

text \<open>A run that could not read a state, repeated in the same slot, submits nothing new.\<close>

lemma schedule_entries_again:
  assumes "inv s" and "schedule_entries E B sc clock now s = (Some (Inr ()), s1)"
    and "Option.bind (sched s (sc_name sc)) (env_from_slice E) = None"
    and "inv s2" and "\<And>i. view s1 i \<noteq> None \<Longrightarrow> view s2 i \<noteq> None"
    and "Option.bind (sched s2 (sc_name sc)) (env_from_slice E) = None"
    and "clock_ok now" and "clock_ok now2" and "slot now2 = slot now"
    and "schedule_entries E B sc clock2 now2 s2 = (res, s3)"
  shows "view s3 = view s2"
proof -
  let ?pts = "[grid (slot now)]"
  have l: "list_schedule_points None now = Some ?pts" "list_schedule_points None now2 = Some ?pts"
    using list_schedule_points_None assms(7-9) by simp_all
  from schedule_entries_law [OF assms(1,2)] l(1) obtain cs
    where cs: "chosen E sc None ?pts (sc_entries sc) = Some cs"
      and v1: "view s1 = spec_put_all (tasks_at E (sc_name sc) clock 0 cs) (view s)"
    unfolding assms(3) by auto
  from schedule_entries_law [OF assms(4,10)] l(2) cs
  have "view s3 = view s2 \<or> view s3 = spec_put_all (tasks_at E (sc_name sc) clock2 0 cs) (view s2)"
    unfolding assms(6) by auto
  moreover have "spec_put_all (tasks_at E (sc_name sc) clock2 0 cs) (view s2) = view s2"
  proof (rule spec_put_all_noop)
    fix r assume "r \<in> set (tasks_at E (sc_name sc) clock2 0 cs)"
    then have "tr_id r \<in> set (map tr_id (tasks_at E (sc_name sc) clock2 0 cs))" by (metis image_eqI set_map)
    then have "tr_id r \<in> set (map tr_id (tasks_at E (sc_name sc) clock 0 cs))" by (simp only: tasks_at_ids)
    then obtain q where "q \<in> set (tasks_at E (sc_name sc) clock 0 cs)" "tr_id q = tr_id r"
      by (metis (no_types, lifting) imageE set_map)
    then have "view s1 (tr_id r) \<noteq> None" unfolding v1 by (metis spec_put_all_known)
    then show "view s2 (tr_id r) \<noteq> None" by (rule assms(5))
  qed
  ultimately show ?thesis by auto
qed

end

end
