(* ===== verification/Service.thy ===== *)
theory Service imports Backend_Api begin

section \<open>The helper services (src/src/service.rs)\<close>

text \<open>
  One call of each background job over any backend: worker heartbeats, removal of dead workers,
  restoring the tasks of dead workers and discarding expired results.  The two clock readings of
  a call are arguments; a call returns the interval to sleep beside the state.  The lemmas, in
  the locale of clusters, say which workers and tasks a call can touch.
\<close>

subsection \<open>Model\<close>

definition WORKER_TTL :: ttl where
  "WORKER_TTL = duration_from_secs 15"

text \<open>The ids of the runners that are alive, collected into a \<open>HashSet\<close>.\<close>

definition refresh_worker_lifetime ::
  "'s worker_tracker \<Rightarrow> (worker_id \<times> bool) list \<Rightarrow> timestamp \<Rightarrow> 's \<Rightarrow> duration \<times> 's" where
  "refresh_worker_lifetime W workers now s =
     (let alive_worker_ids = remdups (map fst (filter snd workers))
      in (ttl_as_duration WORKER_TTL div 3,
          snd (wt_set_worker_ttl W alive_worker_ids (ts_add_duration now (ttl_as_duration WORKER_TTL)) s)))"

definition purge_body :: "'s worker_tracker \<Rightarrow> timestamp \<Rightarrow> 's \<Rightarrow> 's" where
  "purge_body W now s =
     (case wt_get_workers W s of
        Inl e \<Rightarrow> s
      | Inr workers \<Rightarrow> snd (wt_purge_workers W (map fst (filter (\<lambda>(_, ttl). ttl < now) workers)) s))"

definition purge_dead_workers ::
  "'s worker_tracker \<Rightarrow> ('s, 'l) lock_provider \<Rightarrow> timestamp \<Rightarrow> 's \<Rightarrow> duration \<times> 's" where
  "purge_dead_workers W L now s =
     (ttl_as_duration WORKER_TTL,
      case lp_get_lock L ''purge_workers'' s of
        Inl e \<Rightarrow> s
      | Inr l \<Rightarrow>
          (case lp_acquire L l s of
             (False, l, s) \<Rightarrow> lp_drop L l s
           | (True, l, s) \<Rightarrow> (case lp_release L l (purge_body W now s) of (l, s) \<Rightarrow> lp_drop L l s)))"

definition restore_body ::
  "'s task_backend \<Rightarrow> 's worker_tracker \<Rightarrow> timestamp \<Rightarrow> 's \<Rightarrow> 's" where
  "restore_body B W now s =
     (case tb_get_stage_info B 100 s of
        Inl e \<Rightarrow> s
      | Inr stage_info_list \<Rightarrow>
          (case wt_get_workers W s of
             Inl e \<Rightarrow> s
           | Inr workers \<Rightarrow>
               (let active_worker_ids = map fst (filter (\<lambda>(_, ttl). now \<le> ttl) workers)
                in fold (\<lambda>stage_info s.
                       if si_worker_id stage_info \<notin> set active_worker_ids
                       then snd (tb_restore B stage_info s) else s)
                     stage_info_list s)))"

definition restore_abandoned_tasks ::
  "'s task_backend \<Rightarrow> 's worker_tracker \<Rightarrow> ('s, 'l) lock_provider \<Rightarrow> timestamp \<Rightarrow> 's \<Rightarrow> duration \<times> 's" where
  "restore_abandoned_tasks B W L now s =
     (duration_from_secs 15,
      case lp_get_lock L ''restore_abandoned_tasks'' s of
        Inl e \<Rightarrow> s
      | Inr l \<Rightarrow>
          (case lp_acquire L l s of
             (False, l, s) \<Rightarrow> lp_drop L l s
           | (True, l, s) \<Rightarrow> (case lp_release L l (restore_body B W now s) of (l, s) \<Rightarrow> lp_drop L l s)))"

definition discard_disposable_tasks ::
  "'s task_backend \<Rightarrow> ('s, 'l) lock_provider \<Rightarrow> timestamp \<Rightarrow> 's \<Rightarrow> duration \<times> 's" where
  "discard_disposable_tasks B L now s =
     (case lp_get_lock L ''discard_disposable_tasks'' s of
        Inl e \<Rightarrow> (duration_from_secs 60, s)
      | Inr l \<Rightarrow>
          (case lp_acquire L l s of
             (False, l, s) \<Rightarrow> (duration_from_secs 60, lp_drop L l s)
           | (True, l, s) \<Rightarrow>
               (case tb_get_disposable_task_ids B now 100 s of
                  Inr task_ids \<Rightarrow>
                    (let count = length task_ids;
                         s = (if 0 < count then snd (tb_discard_tasks B task_ids s) else s)
                     in case lp_release L l s of
                          (l, s) \<Rightarrow> (if count = 100 then duration_from_secs 0 else duration_from_secs 60,
                                     lp_drop L l s))
                | Inl e \<Rightarrow> (case lp_release L l s of (l, s) \<Rightarrow> (duration_from_secs 60, lp_drop L l s)))))"

subsection \<open>What a call can touch\<close>

definition live_at :: "timestamp \<Rightarrow> timestamp option \<Rightarrow> bool" where
  "live_at now t \<longleftrightarrow> (\<exists>e. t = Some e \<and> now \<le> e)"

context cluster begin

text \<open>Taking and giving back a lock around a step changes only what the step changes.\<close>

lemma locked_step:
  assumes "inv s" and "lp_acquire L l s = (ok, l1, s1)"
  shows "inv s1 \<and> view s1 = view s \<and> sched s1 = sched s \<and> wview s1 = wview s \<and> expiry s1 = expiry s"
  using acquire_frame [OF assms] .

lemma unlocked_step:
  assumes "inv s" and "lp_release L l s = (l1, s1)" and "lp_drop L l1 s1 = s2"
  shows "inv s2 \<and> view s2 = view s \<and> sched s2 = sched s \<and> wview s2 = wview s \<and> expiry s2 = expiry s"
  using release_frame [OF assms(1,2)] drop_frame [OF _ assms(3)] by simp

text \<open>
  A body run under a lock: some state \<open>a\<close> equal to the one before as far as clients see, and the
  state after the body, equal to the final one.
\<close>

lemma locked_body:
  assumes "inv s"
    and keep: "\<And>a. inv a \<Longrightarrow> inv (f a)"
    and "s' = (case lp_get_lock L t s of
        Inl e \<Rightarrow> s
      | Inr l \<Rightarrow>
          (case lp_acquire L l s of
             (False, l, s) \<Rightarrow> lp_drop L l s
           | (True, l, s) \<Rightarrow> (case lp_release L l (f s) of (l, s) \<Rightarrow> lp_drop L l s)))"
  shows "inv s' \<and> (\<exists>a. inv a \<and> view a = view s \<and> sched a = sched s \<and> wview a = wview s \<and> expiry a = expiry s \<and>
    (view s' = view a \<and> sched s' = sched a \<and> wview s' = wview a \<and> expiry s' = expiry a \<or>
     view s' = view (f a) \<and> sched s' = sched (f a) \<and> wview s' = wview (f a) \<and> expiry s' = expiry (f a)))"
proof (cases "lp_get_lock L t s")
  case (Inl e)
  with assms(1,3) show ?thesis by auto
next
  case (Inr l)
  obtain ok l1 s1 where acq: "lp_acquire L l s = (ok, l1, s1)" by (metis prod_cases3)
  note s1 = acquire_frame [OF assms(1) acq]
  show ?thesis
  proof (cases ok)
    case False
    with assms(3) Inr acq have "s' = lp_drop L l1 s1" by simp
    with drop_frame [of s1 l1 s'] s1 show ?thesis by (auto intro!: exI [of _ s1])
  next
    case True
    obtain l2 s2 where rel: "lp_release L l1 (f s1) = (l2, s2)" by fastforce
    with assms(3) Inr acq True have "s' = lp_drop L l2 s2" by simp
    with unlocked_step [OF keep rel, of s'] s1 show ?thesis by (auto intro!: exI [of _ s1])
  qed
qed

lemma refresh_law:
  assumes "inv s" and "refresh_worker_lifetime W workers now s = (d, s')"
  shows "inv s' \<and> view s' = view s \<and> sched s' = sched s \<and>
    (wview s' = wview s \<or>
     wview s' = (\<lambda>w. if (w, True) \<in> set workers then Some (ts_add_duration now WORKER_TTL) else wview s w))"
proof -
  let ?ids = "remdups (map fst (filter snd workers))" and ?t = "ts_add_duration now WORKER_TTL"
  obtain res where r: "wt_set_worker_ttl W ?ids ?t s = (res, s')"
    using assms(2) by (cases "wt_set_worker_ttl W ?ids ?t s")
      (simp add: refresh_worker_lifetime_def Let_def ttl_as_duration_def)
  have "w \<in> set ?ids \<longleftrightarrow> (w, True) \<in> set workers" for w by force
  with set_ttl_law [OF assms(1) _ r] ttl_frame [OF assms(1) r] show ?thesis
    by (auto split: sum.splits)
qed

lemma purge_body_law:
  assumes "inv s"
  shows "inv (purge_body W now s) \<and> view (purge_body W now s) = view s \<and>
    sched (purge_body W now s) = sched s \<and>
    (wview (purge_body W now s) = wview s \<or>
     wview (purge_body W now s) = (\<lambda>w. if live_at now (wview s w) then wview s w else None))"
proof (cases "wt_get_workers W s")
  case (Inl e)
  with assms show ?thesis by (simp add: purge_body_def)
next
  case (Inr workers)
  let ?ws = "map fst (filter (\<lambda>(_, ttl). ttl < now) workers)"
  obtain res s' where p: "wt_purge_workers W ?ws s = (res, s')" by fastforce
  have s': "purge_body W now s = s'" using Inr p by (simp add: purge_body_def)
  have ws: "w \<in> set ?ws \<longleftrightarrow> (\<exists>t. wview s w = Some t \<and> t < now)" for w
    using get_workers_set [OF assms Inr, of w] by force
  have "wview s |` (- set ?ws) = (\<lambda>w. if live_at now (wview s w) then wview s w else None)"
    by (rule ext) (auto simp: restrict_map_def ws live_at_def not_less simp del: set_map)
  with purge_law [OF assms p] purge_frame [OF assms p] s' show ?thesis by (auto split: sum.splits)
qed

text \<open>The loop of \<open>RestoreAbandonedTasks\<close>, for the list of stage entries it iterates over.\<close>

definition restored :: "stage_info list \<Rightarrow> tview \<Rightarrow> tview \<Rightarrow> bool" where
  "restored sis v v' \<longleftrightarrow> (\<forall>i. v' i = v i \<or>
     (\<exists>si\<in>set sis. si_task_id si = i \<and> v' i = spec_restore i v i))"

lemma restored_Cons:
  assumes v1: "v1 = v \<or> v1 = spec_restore (si_task_id si) v" and v2: "restored sis v1 v2"
  shows "restored (si # sis) v v2"
  unfolding restored_def
proof
  fix i
  have one: "v1 i = v i \<or> i = si_task_id si \<and> v1 i = spec_restore i v i"
    using v1 spec_restore_at [of "si_task_id si" v i] by (cases "i = si_task_id si") auto
  have idem: "spec_restore i v1 i = spec_restore i v i"
    using one spec_restore_cong [of v1 i v] spec_restore_idem [of i v]
      spec_restore_cong [of v1 i "spec_restore i v"] by auto
  from v2 have "v2 i = v1 i \<or> (\<exists>sj\<in>set sis. si_task_id sj = i \<and> v2 i = spec_restore i v1 i)"
    unfolding restored_def by (rule spec)
  then show "v2 i = v i \<or> (\<exists>sj\<in>set (si # sis). si_task_id sj = i \<and> v2 i = spec_restore i v i)"
  proof
    assume eq: "v2 i = v1 i"
    from one show ?thesis
    proof
      assume "i = si_task_id si \<and> v1 i = spec_restore i v i"
      with eq show ?thesis by (metis list.set_intros(1))
    qed (simp add: eq)
  next
    assume "\<exists>sj\<in>set sis. si_task_id sj = i \<and> v2 i = spec_restore i v1 i"
    then show ?thesis unfolding idem by (meson list.set_intros(2))
  qed
qed

lemma restore_fold:
  assumes "inv s"
  shows "inv (fold (\<lambda>si s. if P si then snd (tb_restore B si s) else s) sis s) \<and>
    sched (fold (\<lambda>si s. if P si then snd (tb_restore B si s) else s) sis s) = sched s \<and>
    wview (fold (\<lambda>si s. if P si then snd (tb_restore B si s) else s) sis s) = wview s \<and>
    restored (filter P sis) (view s) (view (fold (\<lambda>si s. if P si then snd (tb_restore B si s) else s) sis s))"
  using assms
proof (induction sis arbitrary: s)
  case Nil
  then show ?case by (simp add: restored_def)
next
  case (Cons si sis)
  show ?case
  proof (cases "P si")
    case False
    with Cons show ?thesis by (auto simp: restored_def)
  next
    case True
    obtain res s1 where r: "tb_restore B si s = (res, s1)" by fastforce
    from restore_law [OF Cons.prems r] restore_frame [OF Cons.prems r]
    have s1: "inv s1" "sched s1 = sched s" "wview s1 = wview s"
      and v1: "view s1 = view s \<or> view s1 = spec_restore (si_task_id si) (view s)"
      by (auto split: sum.splits)
    let ?s2 = "fold (\<lambda>si s. if P si then snd (tb_restore B si s) else s) sis s1"
    from Cons.IH [OF s1(1)] have s2: "inv ?s2" "sched ?s2 = sched s1" "wview ?s2 = wview s1"
      and v2: "restored (filter P sis) (view s1) (view ?s2)" by auto
    have "restored (filter P (si # sis)) (view s) (view ?s2)"
      using restored_Cons [OF v1 v2] True by simp
    with s1 s2 True r show ?thesis by simp
  qed
qed

lemma restore_body_law:
  assumes "inv s"
  shows "inv (restore_body B W now s) \<and> sched (restore_body B W now s) = sched s \<and>
    wview (restore_body B W now s) = wview s \<and>
    (\<forall>i. view (restore_body B W now s) i = view s i \<or>
       (\<exists>r w t. view s i = Some (r, Staged w t) \<and> \<not> live_at now (wview s w) \<and>
          view (restore_body B W now s) i = Some (r, Queued)))"
proof (cases "tb_get_stage_info B 100 s")
  case (Inl e)
  with assms show ?thesis by (simp add: restore_body_def)
next
  case stage: (Inr sis)
  show ?thesis
  proof (cases "wt_get_workers W s")
    case (Inl e)
    with assms stage show ?thesis by (simp add: restore_body_def)
  next
    case (Inr workers)
    let ?P = "\<lambda>si. si_worker_id si \<notin> set (map fst (filter (\<lambda>(_, ttl). now \<le> ttl) workers))"
    let ?s' = "fold (\<lambda>si s. if ?P si then snd (tb_restore B si s) else s) sis s"
    have s': "restore_body B W now s = ?s'" using stage Inr by (simp add: restore_body_def Let_def)
    have P: "?P si \<longleftrightarrow> \<not> live_at now (wview s (si_worker_id si))" for si
      using get_workers_set [OF assms Inr, of "si_worker_id si"] by (force simp: live_at_def)
    note f = restore_fold [OF assms, of ?P sis]
    have "view ?s' i = view s i \<or> (\<exists>r w t. view s i = Some (r, Staged w t) \<and>
        \<not> live_at now (wview s w) \<and> view ?s' i = Some (r, Queued))" for i
    proof (cases "view ?s' i = view s i")
      case False
      with f obtain si where si: "si \<in> set sis" "?P si" "si_task_id si = i"
        and v: "view ?s' i = spec_restore i (view s) i" unfolding restored_def by auto
      from stage_law [OF assms stage] si(1) obtain r where
        r: "view s i = Some (r, Staged (si_worker_id si) (si_assigned_at si))" unfolding si(3) [symmetric] by blast
      with v si(2) show ?thesis unfolding P by (simp add: spec_restore_def)
    qed simp
    with f show ?thesis unfolding s' by blast
  qed
qed

text \<open>If the backend restores whatever it is asked to, every listed task is restored.\<close>

lemma restore_fold_complete:
  assumes "inv s" and "\<And>si a. fst (tb_restore B si a) = Inr ()"
    and "si \<in> set sis" and "P si" and "si_task_id si = i"
  shows "view (fold (\<lambda>si s. if P si then snd (tb_restore B si s) else s) sis s) i = spec_restore i (view s) i"
  using assms(1,3)
proof (induction sis arbitrary: s)
  case (Cons sj sis)
  let ?f = "fold (\<lambda>si s. if P si then snd (tb_restore B si s) else s) sis"
  show ?case
  proof (cases "P sj")
    case False
    with Cons assms(4) show ?thesis by auto
  next
    case True
    obtain s1 where r: "tb_restore B sj s = (Inr (), s1)" using assms(2) [of sj s] by (metis prod.collapse)
    from restore_law [OF Cons.prems(1) r] have s1: "inv s1"
      and v1: "view s1 = spec_restore (si_task_id sj) (view s)" by auto
    have same: "spec_restore i (view s1) i = spec_restore i (view s) i"
      using spec_restore_at [of "si_task_id sj" "view s" i] spec_restore_idem [of i "view s"]
        spec_restore_cong [of "view s1" i "view s"] unfolding v1 by (cases "i = si_task_id sj") simp_all
    have "view (?f s1) i = spec_restore i (view s) i"
    proof (cases "si \<in> set sis")
      case True
      from Cons.IH [OF s1 this] show ?thesis by (simp add: same)
    next
      case False
      with Cons.prems(2) assms(5) have i: "i = si_task_id sj" by auto
      then have "view s1 i = spec_restore i (view s) i" unfolding v1 by simp
      moreover have "restored (filter P sis) (view s1) (view (?f s1))"
        using restore_fold [OF s1, of P sis] by simp
      from this [unfolded restored_def, rule_format, of i] calculation same show ?thesis by auto
    qed
    with True r show ?thesis by simp
  qed
qed simp

lemma restore_body_complete:
  assumes "inv s" and "\<And>si a. fst (tb_restore B si a) = Inr ()"
    and "tb_get_stage_info B 100 s = Inr sis" and "length sis < 100" and "wt_get_workers W s = Inr ws"
    and "view s i = Some (r, Staged w t)" and "\<not> live_at now (wview s w)"
  shows "view (restore_body B W now s) i = Some (r, Queued)"
proof -
  let ?P = "\<lambda>si. si_worker_id si \<notin> set (map fst (filter (\<lambda>(_, ttl). now \<le> ttl) ws))"
  note st = stage_law [OF assms(1,3)]
  from st assms(4,6) obtain si where si: "si \<in> set sis" "si_task_id si = i" by blast
  with st assms(6) have "si_worker_id si = w" by fastforce
  with assms(7) get_workers_set [OF assms(1,5), of w] have P: "?P si" by (force simp: live_at_def)
  have "view (fold (\<lambda>si s. if ?P si then snd (tb_restore B si s) else s) sis s) i = spec_restore i (view s) i"
    by (rule restore_fold_complete [where si = si and P = ?P]) (rule assms(1) assms(2) si P)+
  with assms(3,5,6) show ?thesis by (simp add: restore_body_def Let_def spec_restore_def)
qed

definition discard_body :: "timestamp \<Rightarrow> 's \<Rightarrow> 's" where
  "discard_body now s =
     (case tb_get_disposable_task_ids B now 100 s of
        Inr ids \<Rightarrow> (if 0 < length ids then snd (tb_discard_tasks B ids s) else s)
      | Inl e \<Rightarrow> s)"

lemma discard_body_law:
  assumes "inv s"
  shows "inv (discard_body now s) \<and> sched (discard_body now s) = sched s \<and>
    wview (discard_body now s) = wview s \<and>
    (\<forall>i. view (discard_body now s) i = view s i \<or>
       (view (discard_body now s) i = None \<and> (\<exists>t. expiry s i = Some t \<and> t < now)))"
proof (cases "tb_get_disposable_task_ids B now 100 s")
  case (Inl e)
  with assms show ?thesis by (simp add: discard_body_def)
next
  case (Inr ids)
  obtain res s' where d: "tb_discard_tasks B ids s = (res, s')" by fastforce
  from discard_law [OF assms d] discard_frame [OF assms d] disposable_law [OF assms Inr] d Inr assms
  show ?thesis
    by (auto simp: discard_body_def spec_discard_def restrict_map_def split: sum.splits)
qed

lemma discard_call_locked:
  "snd (discard_disposable_tasks B L now s) = (case lp_get_lock L ''discard_disposable_tasks'' s of
        Inl e \<Rightarrow> s
      | Inr l \<Rightarrow>
          (case lp_acquire L l s of
             (False, l, s) \<Rightarrow> lp_drop L l s
           | (True, l, s) \<Rightarrow> (case lp_release L l (discard_body now s) of (l, s) \<Rightarrow> lp_drop L l s)))"
  by (simp add: discard_disposable_tasks_def discard_body_def Let_def split: sum.splits prod.splits bool.splits)

lemma purge_call:
  assumes "inv s" and "purge_dead_workers W L now s = (d, s')"
  shows "inv s' \<and> view s' = view s \<and> sched s' = sched s \<and>
    (\<forall>w. wview s' w = wview s w \<or> (wview s' w = None \<and> \<not> live_at now (wview s w)))"
proof -
  from assms(2) have "s' = (case lp_get_lock L ''purge_workers'' s of
        Inl e \<Rightarrow> s
      | Inr l \<Rightarrow>
          (case lp_acquire L l s of
             (False, l, s) \<Rightarrow> lp_drop L l s
           | (True, l, s) \<Rightarrow> (case lp_release L l (purge_body W now s) of (l, s) \<Rightarrow> lp_drop L l s)))"
    by (simp add: purge_dead_workers_def)
  from locked_body [OF assms(1) _ this] purge_body_law obtain a where
    a: "inv s'" "inv a" "view a = view s" "sched a = sched s" "wview a = wview s"
    and s': "view s' = view a \<and> sched s' = sched a \<and> wview s' = wview a \<or>
      view s' = view (purge_body W now a) \<and> sched s' = sched (purge_body W now a) \<and>
      wview s' = wview (purge_body W now a)" by blast
  from s' purge_body_law [OF a(2), of now] a show ?thesis by auto
qed

lemma restore_call:
  assumes "inv s" and "restore_abandoned_tasks B W L now s = (d, s')"
  shows "inv s' \<and> sched s' = sched s \<and> wview s' = wview s \<and>
    (\<forall>i. view s' i = view s i \<or> (\<exists>r w t. view s i = Some (r, Staged w t) \<and>
       \<not> live_at now (wview s w) \<and> view s' i = Some (r, Queued)))"
proof -
  from assms(2) have "s' = (case lp_get_lock L ''restore_abandoned_tasks'' s of
        Inl e \<Rightarrow> s
      | Inr l \<Rightarrow>
          (case lp_acquire L l s of
             (False, l, s) \<Rightarrow> lp_drop L l s
           | (True, l, s) \<Rightarrow> (case lp_release L l (restore_body B W now s) of (l, s) \<Rightarrow> lp_drop L l s)))"
    by (simp add: restore_abandoned_tasks_def)
  from locked_body [OF assms(1) _ this] restore_body_law obtain a where
    a: "inv s'" "inv a" "view a = view s" "sched a = sched s" "wview a = wview s"
    and s': "view s' = view a \<and> sched s' = sched a \<and> wview s' = wview a \<or>
      view s' = view (restore_body B W now a) \<and> sched s' = sched (restore_body B W now a) \<and>
      wview s' = wview (restore_body B W now a)" by blast
  from s' restore_body_law [OF a(2), of now] a show ?thesis by auto
qed

lemma discard_call:
  assumes "inv s" and "discard_disposable_tasks B L now s = (d, s')"
  shows "inv s' \<and> sched s' = sched s \<and> wview s' = wview s \<and>
    (\<forall>i. view s' i = view s i \<or>
       (view s' i = None \<and> (\<exists>t. expiry s i = Some t \<and> t < now)))"
proof -
  from discard_call_locked [of now s] assms(2) have "s' = (case lp_get_lock L ''discard_disposable_tasks'' s of
        Inl e \<Rightarrow> s
      | Inr l \<Rightarrow>
          (case lp_acquire L l s of
             (False, l, s) \<Rightarrow> lp_drop L l s
           | (True, l, s) \<Rightarrow> (case lp_release L l (discard_body now s) of (l, s) \<Rightarrow> lp_drop L l s)))"
    by simp
  from locked_body [OF assms(1) _ this] discard_body_law obtain a where
    a: "inv s'" "inv a" "view a = view s" "sched a = sched s" "wview a = wview s" "expiry a = expiry s"
    and s': "view s' = view a \<and> sched s' = sched a \<and> wview s' = wview a \<or>
      view s' = view (discard_body now a) \<and> sched s' = sched (discard_body now a) \<and>
      wview s' = wview (discard_body now a)" by blast
  from s' discard_body_law [OF a(2), of now] a show ?thesis by auto
qed

end

subsection \<open>Interleaved calls\<close>

text \<open>One call of a service, so that an interleaving of the services of many processes is a list.\<close>

datatype service_step =
    StepRefresh "(worker_id \<times> bool) list" timestamp
  | StepPurge timestamp
  | StepRestore timestamp
  | StepDiscard timestamp

fun service_exec ::
  "'s task_backend \<Rightarrow> 's worker_tracker \<Rightarrow> ('s, 'l) lock_provider \<Rightarrow> service_step \<Rightarrow> 's \<Rightarrow> 's" where
  "service_exec B W L (StepRefresh workers now) s = snd (refresh_worker_lifetime W workers now s)"
| "service_exec B W L (StepPurge now) s = snd (purge_dead_workers W L now s)"
| "service_exec B W L (StepRestore now) s = snd (restore_abandoned_tasks B W L now s)"
| "service_exec B W L (StepDiscard now) s = snd (discard_disposable_tasks B L now s)"

fun before_expiry :: "timestamp \<Rightarrow> service_step \<Rightarrow> bool" where
  "before_expiry e (StepRefresh workers now) \<longleftrightarrow> e \<le> ts_add_duration now WORKER_TTL"
| "before_expiry e (StepPurge now) \<longleftrightarrow> now \<le> e"
| "before_expiry e (StepRestore now) \<longleftrightarrow> now \<le> e"
| "before_expiry e (StepDiscard now) \<longleftrightarrow> True"

context cluster begin

lemma service_step_keeps:
  assumes "inv s" and "view s i = Some (r, Staged w t)" and "live_at e (wview s w)" and "before_expiry e step"
  shows "inv (service_exec B W L step s) \<and> view (service_exec B W L step s) i = Some (r, Staged w t) \<and>
    live_at e (wview (service_exec B W L step s) w)"
proof (cases step)
  case (StepRefresh workers now)
  from refresh_law [OF assms(1) prod.collapse [symmetric], of workers now] assms StepRefresh show ?thesis
    by (auto simp: live_at_def)
next
  case (StepPurge now)
  with assms(3,4) have "live_at now (wview s w)" by (auto simp: live_at_def)
  with purge_call [OF assms(1) prod.collapse [symmetric], of now]
  have "wview (snd (purge_dead_workers W L now s)) w = wview s w" by blast
  with purge_call [OF assms(1) prod.collapse [symmetric], of now] assms StepPurge show ?thesis by simp
next
  case (StepRestore now)
  with assms(3,4) have "live_at now (wview s w)" by (auto simp: live_at_def)
  with restore_call [OF assms(1) prod.collapse [symmetric], of now] assms(2)
  have "view (snd (restore_abandoned_tasks B W L now s)) i = view s i" by fastforce
  with restore_call [OF assms(1) prod.collapse [symmetric], of now] assms StepRestore show ?thesis by simp
next
  case (StepDiscard now)
  have "expiry s i = None" using expiry_finished [OF assms(1)] assms(2) by (cases "expiry s i") fastforce+
  with discard_call [OF assms(1) prod.collapse [symmetric], of now] assms(2)
  have "view (snd (discard_disposable_tasks B L now s)) i = view s i" by fastforce
  with discard_call [OF assms(1) prod.collapse [symmetric], of now] assms StepDiscard show ?thesis by simp
qed

lemma service_steps_keep:
  assumes "inv s" and "view s i = Some (r, Staged w t)" and "live_at e (wview s w)"
    and "\<forall>step\<in>set steps. before_expiry e step"
  shows "view (fold (service_exec B W L) steps s) i = Some (r, Staged w t) \<and>
    live_at e (wview (fold (service_exec B W L) steps s) w)"
  using assms
proof (induction steps arbitrary: s)
  case (Cons step steps)
  from service_step_keeps [OF Cons.prems(1-3), of step] Cons.prems(4) Cons.IH [of "service_exec B W L step s"]
  show ?case by simp
qed simp

end

end
