(* ===== verification/Worker.thy ===== *)
theory Worker imports Backend_Api begin

section \<open>Workers (src/src/worker.rs)\<close>

text \<open>
  A worker claims tasks of its group and runs each to an end: \<open>handle_task\<close> with every branch of
  its \<open>match\<close>.  The worker's \<open>let _ =\<close> on backend results is the projection to the state; its one
  clock reading (in \<open>clone_for_retry\<close> or in the backend) is \<open>now\<close>.  The lemmas in the locale of full
  backends say where a task is after it was handled.
\<close>

subsection \<open>Model\<close>

definition REASON_TO_PREVENT_WAIT_RESULT :: string where
  "REASON_TO_PREVENT_WAIT_RESULT =
     ''Waiting for another task's result from inside a task handler can deadlock. If the wait is known to be safe, pass avoid_assertion = true to TaskResult::get.''"

text \<open>
  \<open>tokio::task_local!\<close> of result.rs: the value in scope, if any, is an argument of the code that
  reads it.
\<close>

type_synonym prevent_scope = "(bool \<times> string) option"

definition prevent_to_wait_result :: "string \<Rightarrow> (prevent_scope \<Rightarrow> 'a) \<Rightarrow> 'a" where
  "prevent_to_wait_result reason f = f (Some (True, reason))"

definition is_prevented :: "prevent_scope \<Rightarrow> string option" where
  "is_prevented sc =
     (case sc of None \<Rightarrow> None | Some (prevented, reason) \<Rightarrow> (if prevented then Some reason else None))"

definition describe_panic :: "panic \<Rightarrow> string" where
  "describe_panic p = ''task handler panicked: '' @
     (case p of PanicStr s \<Rightarrow> s | PanicString s \<Rightarrow> s | PanicOther \<Rightarrow> ''unknown panic'')"

record worker =
  w_id :: worker_id
  w_group :: task_group

definition worker_new :: "string \<Rightarrow> task_group \<Rightarrow> worker" where
  "worker_new uuid_simple grp = \<lparr>w_id = ''wk_'' @ grp @ ''_'' @ uuid_simple, w_group = grp\<rparr>"

definition worker_discard_task :: "'s task_backend \<Rightarrow> task_info \<Rightarrow> 's \<Rightarrow> 's" where
  "worker_discard_task B info s = snd (tb_discard_tasks B [ti_id info] s)"

definition worker_retry :: "'s task_backend \<Rightarrow> timestamp \<Rightarrow> task_info \<Rightarrow> bytes \<Rightarrow> duration \<Rightarrow> 's \<Rightarrow> 's" where
  "worker_retry B now info data interval s =
     snd (tb_retry_task B (new_record (clone_for_retry now info interval) data) s)"

text \<open>The result of running the executor, a panic turned into a fatal error.\<close>

definition run_executor :: "executor \<Rightarrow> task_info \<Rightarrow> bytes \<Rightarrow> task_error + bytes" where
  "run_executor ex info data =
     (case prevent_to_wait_result REASON_TO_PREVENT_WAIT_RESULT (\<lambda>_. ex info data) of
        Returned r \<Rightarrow> r
      | Panicked p \<Rightarrow> Inl (fatal_reason (describe_panic p)))"

definition handle_task ::
  "'s task_backend \<Rightarrow> task_registry \<Rightarrow> timestamp \<Rightarrow> task_record \<Rightarrow> 's \<Rightarrow> 's" where
  "handle_task B reg now r s =
     (let info = tr_info r; data = tr_data r
      in case registry_get reg (ti_group info) (ti_name info) of
           None \<Rightarrow>
             (let message = ''No executor found for task type: '' @ ti_group info @ ''/'' @ ti_name info
              in snd (tb_fail B now (new_record info data) message s))
         | Some executor \<Rightarrow>
             (case run_executor executor info data of
                Inr output_bytes \<Rightarrow> snd (tb_succeed B now (new_record info data) output_bytes s)
              | Inl (Discard reason) \<Rightarrow> worker_discard_task B info s
              | Inl (Retry reason retry_after) \<Rightarrow> worker_retry B now info data retry_after s
              | Inl (Fatal reason) \<Rightarrow>
                  snd (tb_fail B now (new_record info data)
                         (case reason of Some m \<Rightarrow> m | None \<Rightarrow> ''Fatal error'') s)))"

definition worker_assign ::
  "'s task_backend \<Rightarrow> worker \<Rightarrow> timestamp \<Rightarrow> nat \<Rightarrow> 's \<Rightarrow> task_record list \<times> 's" where
  "worker_assign B w now limit s =
     (case tb_assign_tasks B now (w_group w) (w_id w) limit s of
        (Inr records, s') \<Rightarrow> (records, s')
      | (Inl e, s') \<Rightarrow> ([], s'))"

subsection \<open>Where a handled task goes\<close>

text \<open>What the executor, or its absence, decides about a task, and the store after that.\<close>

datatype verdict = Finish status | Drop | Again duration

definition verdict_of :: "task_registry \<Rightarrow> task_record \<Rightarrow> verdict" where
  "verdict_of reg r =
     (case registry_get reg (ti_group (tr_info r)) (ti_name (tr_info r)) of
        None \<Rightarrow> Finish (Failed (from_utf8_lossy (''No executor found for task type: '' @
                  ti_group (tr_info r) @ ''/'' @ ti_name (tr_info r))))
      | Some ex \<Rightarrow>
          (case ex (tr_info r) (tr_data r) of
             Returned (Inr out) \<Rightarrow> Finish (Succeeded out)
           | Returned (Inl (Discard m)) \<Rightarrow> Drop
           | Returned (Inl (Retry m d)) \<Rightarrow> Again d
           | Returned (Inl (Fatal m)) \<Rightarrow>
               Finish (Failed (from_utf8_lossy (case m of Some s \<Rightarrow> s | None \<Rightarrow> ''Fatal error'')))
           | Panicked p \<Rightarrow> Finish (Failed (from_utf8_lossy (describe_panic p)))))"

definition spec_handle :: "task_registry \<Rightarrow> timestamp \<Rightarrow> task_record \<Rightarrow> tview \<Rightarrow> tview" where
  "spec_handle reg now r v =
     (case verdict_of reg r of
        Finish st \<Rightarrow> spec_finish r st v
      | Drop \<Rightarrow> spec_discard [tr_id r] v
      | Again d \<Rightarrow> spec_retry (new_record (clone_for_retry now (tr_info r) d) (tr_data r)) v)"

lemma new_record_collapse [simp]: "new_record (tr_info r) (tr_data r) = r"
  by (simp add: new_record_def)

lemma spec_handle_other: "i \<noteq> tr_id r \<Longrightarrow> spec_handle reg now r v i = v i"
  by (auto simp: spec_handle_def spec_finish_def spec_discard_def spec_retry_def split: verdict.splits)

context full_backend begin

text \<open>Either the backend failed and the store is as it was, or the verdict took effect.\<close>

lemma handle_task_law:
  assumes "inv s"
  shows "inv (handle_task B reg now r s) \<and> sched (handle_task B reg now r s) = sched s \<and>
    (view (handle_task B reg now r s) = view s \<or>
     view (handle_task B reg now r s) = spec_handle reg now r (view s))"
proof -
  have fin: "inv (snd (tb_fail B now r m s)) \<and> sched (snd (tb_fail B now r m s)) = sched s \<and>
      (view (snd (tb_fail B now r m s)) = view s \<or>
       view (snd (tb_fail B now r m s)) = spec_finish r (Failed (from_utf8_lossy m)) (view s))" for m
    using fail_law [OF assms prod.collapse [symmetric], of now r m] by (auto split: sum.splits)
  have suc: "inv (snd (tb_succeed B now r m s)) \<and> sched (snd (tb_succeed B now r m s)) = sched s \<and>
      (view (snd (tb_succeed B now r m s)) = view s \<or>
       view (snd (tb_succeed B now r m s)) = spec_finish r (Succeeded m) (view s))" for m
    using succeed_law [OF assms prod.collapse [symmetric], of now r m] by (auto split: sum.splits)
  have ret: "inv (snd (tb_retry_task B q s)) \<and> sched (snd (tb_retry_task B q s)) = sched s \<and>
      (view (snd (tb_retry_task B q s)) = view s \<or> view (snd (tb_retry_task B q s)) = spec_retry q (view s))" for q
    using retry_law [OF assms prod.collapse [symmetric], of q] by (auto split: sum.splits)
  have dis: "inv (snd (tb_discard_tasks B ids s)) \<and> sched (snd (tb_discard_tasks B ids s)) = sched s \<and>
      (view (snd (tb_discard_tasks B ids s)) = view s \<or>
       view (snd (tb_discard_tasks B ids s)) = spec_discard ids (view s))" for ids
    using discard_law [OF assms prod.collapse [symmetric], of ids] by (auto split: sum.splits)
  show ?thesis
  proof (cases "registry_get reg (ti_group (tr_info r)) (ti_name (tr_info r))")
    case None
    with fin show ?thesis
      by (simp add: handle_task_def spec_handle_def verdict_of_def Let_def del: from_utf8_lossy.simps)
  next
    case (Some ex)
    note defs = handle_task_def spec_handle_def verdict_of_def Let_def run_executor_def
      prevent_to_wait_result_def fatal_reason_def
    show ?thesis
    proof (cases "ex (tr_info r) (tr_data r)")
      case (Panicked p)
      with Some fin show ?thesis by (simp add: defs)
    next
      case (Returned res)
      show ?thesis
      proof (cases res)
        case (Inr out)
        with Some Returned suc show ?thesis by (simp add: defs)
      next
        case (Inl e)
        with Some Returned fin ret dis show ?thesis
          by (cases e) (simp_all add: defs worker_discard_task_def worker_retry_def)
      qed
    qed
  qed
qed

lemma worker_assign_law:
  assumes "inv s" and "worker_assign B w now limit s = (rs, s')" and "rs \<noteq> []"
  shows "inv s' \<and> good_batch now (w_group w) limit (view s) rs \<and>
    view s' = spec_assign now (w_id w) rs (view s)"
  using assign_law [OF assms(1)] assms(2,3)
  by (auto simp: worker_assign_def split: prod.splits sum.splits)

end

text \<open>
  A backend none of whose task operations fails: what an in-process store gives.  On it the verdict
  always takes effect, and an empty batch really means that nothing is claimable.
\<close>

locale reliable_backend = full_backend B inv view sched
  for B :: "'s task_backend" and inv view sched +
  assumes assign_ok: "inv s \<Longrightarrow> \<exists>rs. fst (tb_assign_tasks B now g w n s) = Inr rs"
    and succeed_ok: "inv s \<Longrightarrow> fst (tb_succeed B now r b s) = Inr ()"
    and fail_ok: "inv s \<Longrightarrow> fst (tb_fail B now r b s) = Inr ()"
    and retry_ok: "inv s \<Longrightarrow> fst (tb_retry_task B r s) = Inr ()"
    and discard_ok: "inv s \<Longrightarrow> fst (tb_discard_tasks B ids s) = Inr ()"
begin

lemma handle_task_exact:
  assumes "inv s"
  shows "view (handle_task B reg now r s) = spec_handle reg now r (view s)"
proof -
  have fin: "view (snd (tb_fail B now r m s)) = spec_finish r (Failed (from_utf8_lossy m)) (view s)" for m
    using fail_law [OF assms prod.collapse [symmetric], of now r m] fail_ok [OF assms, of now r m] by simp
  have suc: "view (snd (tb_succeed B now r m s)) = spec_finish r (Succeeded m) (view s)" for m
    using succeed_law [OF assms prod.collapse [symmetric], of now r m] succeed_ok [OF assms, of now r m] by simp
  have ret: "view (snd (tb_retry_task B q s)) = spec_retry q (view s)" for q
    using retry_law [OF assms prod.collapse [symmetric], of q] retry_ok [OF assms, of q] by simp
  have dis: "view (snd (tb_discard_tasks B ids s)) = spec_discard ids (view s)" for ids
    using discard_law [OF assms prod.collapse [symmetric], of ids] discard_ok [OF assms, of ids] by simp
  show ?thesis
  proof (cases "registry_get reg (ti_group (tr_info r)) (ti_name (tr_info r))")
    case None
    with fin show ?thesis
      by (simp add: handle_task_def spec_handle_def verdict_of_def Let_def del: from_utf8_lossy.simps)
  next
    case (Some ex)
    note defs = handle_task_def spec_handle_def verdict_of_def Let_def run_executor_def
      prevent_to_wait_result_def fatal_reason_def
    show ?thesis
    proof (cases "ex (tr_info r) (tr_data r)")
      case (Panicked p)
      with Some fin show ?thesis by (simp add: defs)
    next
      case (Returned res)
      show ?thesis
      proof (cases res)
        case (Inr out)
        with Some Returned suc show ?thesis by (simp add: defs)
      next
        case (Inl e)
        with Some Returned fin ret dis show ?thesis
          by (cases e) (simp_all add: defs worker_discard_task_def worker_retry_def)
      qed
    qed
  qed
qed

lemma worker_assign_exact:
  assumes "inv s" and "worker_assign B w now limit s = (rs, s')"
  shows "inv s' \<and> good_batch now (w_group w) limit (view s) rs \<and>
    view s' = spec_assign now (w_id w) rs (view s)"
proof -
  obtain rs' where "tb_assign_tasks B now (w_group w) (w_id w) limit s = (Inr rs', s')"
    using assms(2) assign_ok [OF assms(1), of now "w_group w" "w_id w" limit]
    by (auto simp: worker_assign_def split: prod.splits sum.splits)
  with assms(2) assign_law [OF assms(1) this] show ?thesis by (simp add: worker_assign_def)
qed

end

end
