(* ===== verification/Runner.thy ===== *)
theory Runner imports Worker begin

section \<open>Runners (src/src/runner.rs)\<close>

text \<open>
  The loops that drive services and workers.  Time is tokio's clock in nanoseconds; a stop flag
  is the function that reads it at a time; sleeping \<open>d\<close> from \<open>t\<close> ends at \<open>t + d + delay t\<close>, where
  \<open>delay\<close> is whatever the runtime adds.  The loop of a group is a step relation, because the tasks it
  spawned, the control flags and the rest of the system move between its own steps.
\<close>

subsection \<open>Waiting\<close>

abbreviation nanos_per_milli :: nat where "nanos_per_milli \<equiv> 1000000"

function wait_loop ::
  "(nat \<Rightarrow> bool) \<Rightarrow> (nat \<Rightarrow> nat) \<Rightarrow> duration \<Rightarrow> nat \<Rightarrow> nat \<Rightarrow> bool \<times> nat" where
  "wait_loop should_stop delay duration start now =
     (if now - start < duration
      then if should_stop now then (False, now)
           else wait_loop should_stop delay duration start
                  (now + min (100 * nanos_per_milli) duration + delay now)
      else (\<not> should_stop now, now))"
  by pat_completeness auto
termination
  by (relation "measure (\<lambda>(_, _, d, start, now). start + d - now)") (auto simp: min_def)

declare wait_loop.simps [simp del]

text \<open>\<open>yields\<close> is how long the initial \<open>yield_now\<close> takes.  The result carries the time it is returned.\<close>

definition wait_or_stop ::
  "(nat \<Rightarrow> bool) \<Rightarrow> (nat \<Rightarrow> nat) \<Rightarrow> nat \<Rightarrow> duration \<Rightarrow> nat \<Rightarrow> bool \<times> nat" where
  "wait_or_stop should_stop delay yields duration now =
     (let start = now + yields in wait_loop should_stop delay duration start start)"

lemma wait_loop_time: "now \<le> snd (wait_loop ss delay d start now)"
proof (induction ss delay d start now rule: wait_loop.induct)
  case (1 ss delay d start now)
  then show ?case by (subst wait_loop.simps) auto
qed

lemma wait_loop_result: "fst (wait_loop ss delay d start now) \<longleftrightarrow> \<not> ss (snd (wait_loop ss delay d start now))"
proof (induction ss delay d start now rule: wait_loop.induct)
  case (1 ss delay d start now)
  then show ?case by (subst (1 2) wait_loop.simps) auto
qed

lemma wait_loop_full:
  "start \<le> now \<Longrightarrow> fst (wait_loop ss delay d start now) \<Longrightarrow> start + d \<le> snd (wait_loop ss delay d start now)"
proof (induction ss delay d start now rule: wait_loop.induct)
  case (1 ss delay d start now)
  show ?case
  proof (cases "now - start < d \<and> \<not> ss now")
    case True
    with 1 show ?thesis by (simp add: wait_loop.simps [of ss delay d start now])
  next
    case False
    with "1.prems" show ?thesis
      by (simp add: wait_loop.simps [of ss delay d start now] split: if_splits)
  qed
qed

text \<open>A stop requested at \<open>t\<close> ends the wait after at most one nap.\<close>

lemma wait_loop_stops:
  assumes "\<And>u. t \<le> u \<Longrightarrow> ss u" and "\<And>u. delay u \<le> D"
  shows "snd (wait_loop ss delay d start now) \<le> max now (t + 100 * nanos_per_milli + D)"
  using assms
proof (induction ss delay d start now rule: wait_loop.induct)
  case (1 ss delay d start now)
  show ?case
  proof (cases "now - start < d \<and> \<not> ss now")
    case True
    then have "now < t" using "1.prems"(1) by (meson not_le)
    then have "now + min (100 * nanos_per_milli) d + delay now \<le> t + 100 * nanos_per_milli + D"
      using "1.prems"(2) [of now] by simp
    moreover have "snd (wait_loop ss delay d start (now + min (100 * nanos_per_milli) d + delay now))
        \<le> max (now + min (100 * nanos_per_milli) d + delay now) (t + 100 * nanos_per_milli + D)"
      using True "1.IH" "1.prems" by blast
    ultimately show ?thesis using True by (simp add: wait_loop.simps [of ss delay d start now])
  next
    case False
    then show ?thesis by (auto simp add: wait_loop.simps [of ss delay d start now])
  qed
qed

subsection \<open>Service runners\<close>

text \<open>
  The spawned loop: \<open>service_call\<close> at a time and in a state returns the duration to wait (\<^const>\<open>None\<close> if
  it panicked), the new state and the time it returned.  \<open>fuel\<close> bounds the iterations; \<^const>\<open>None\<close> means
  that the loop is still running then.
\<close>

fun service_loop ::
  "(nat \<Rightarrow> bool) \<Rightarrow> (nat \<Rightarrow> nat) \<Rightarrow> nat \<Rightarrow> (nat \<Rightarrow> 's \<Rightarrow> duration option \<times> 's \<times> nat)
   \<Rightarrow> nat \<Rightarrow> nat \<Rightarrow> 's \<Rightarrow> ('s \<times> nat) option" where
  "service_loop should_stop delay yields service_call 0 now s = None"
| "service_loop should_stop delay yields service_call (Suc fuel) now s =
     (if should_stop now then Some (s, now)
      else case service_call now s of
             (d, s', t) \<Rightarrow>
               (let wait_duration = (case d of Some x \<Rightarrow> x | None \<Rightarrow> duration_from_secs 1)
                in case wait_or_stop should_stop delay yields wait_duration t of
                     (True, u) \<Rightarrow> service_loop should_stop delay yields service_call fuel u s'
                   | (False, u) \<Rightarrow> Some (s', u)))"

text \<open>
  If calls take time but at most \<open>C\<close>, a stop requested at \<open>t\<close> ends the loop, whatever the service
  returned or however often it panicked, by \<open>C\<close>, one nap and the runtime's delays after \<open>t\<close>.
\<close>

lemma service_loop_stops:
  assumes stop: "\<And>u. t \<le> u \<Longrightarrow> ss u" and delay: "\<And>u. delay u \<le> D"
    and call: "\<And>u a. u < snd (snd (f u a)) \<and> snd (snd (f u a)) \<le> u + C"
  shows "t - now < fuel \<Longrightarrow> \<exists>s' u. service_loop ss delay yields f fuel now s = Some (s', u) \<and>
    u \<le> max now t + C + yields + 100 * nanos_per_milli + D"
proof (induction fuel arbitrary: now s)
  case (Suc fuel)
  show ?case
  proof (cases "ss now")
    case False
    then have nt: "now < t" using stop by (meson not_le)
    obtain d s1 t1 where c: "f now s = (d, s1, t1)" by (metis prod_cases3)
    with call [of now s] have t1: "now < t1" "t1 \<le> now + C" by auto
    let ?w = "case d of Some x \<Rightarrow> x | None \<Rightarrow> duration_from_secs 1"
    obtain ok u where w: "wait_or_stop ss delay yields ?w t1 = (ok, u)" by fastforce
    then have u: "t1 \<le> u" "u \<le> max (t1 + yields) (t + 100 * nanos_per_milli + D)" "ok \<longleftrightarrow> \<not> ss u"
      using wait_loop_time [of "t1 + yields" ss delay ?w "t1 + yields"]
        wait_loop_stops [where ss = ss and delay = delay and d = ?w and start = "t1 + yields" and now = "t1 + yields",
          OF stop delay]
        wait_loop_result [of ss delay ?w "t1 + yields" "t1 + yields"]
      by (simp_all add: wait_or_stop_def Let_def)
    show ?thesis
    proof (cases ok)
      case True
      with u(3) stop have "u < t" by (meson not_le)
      with Suc.IH [of u s1] Suc.prems t1 u(1) nt False c w True show ?thesis
        by (auto simp: max_def)
    next
      case False
      with c w \<open>\<not> ss now\<close> u(2) t1 nt show ?thesis by (auto simp: max_def split: if_splits)
    qed
  qed (simp add: max_def)
qed simp

text \<open>A loop that is never asked to stop never ends, panics of the service included.\<close>

lemma wait_loop_unstopped: "\<forall>u. \<not> ss u \<Longrightarrow> fst (wait_loop ss delay d start now)"
  by (simp add: wait_loop_result)

lemma service_loop_runs_on: "\<forall>u. \<not> ss u \<Longrightarrow> service_loop ss delay yields f fuel now s = None"
proof (induction fuel arbitrary: now s)
  case (Suc fuel)
  then show ?case
    using wait_loop_unstopped [OF Suc.prems]
    by (auto simp: wait_or_stop_def Let_def split: prod.splits bool.splits)
      (metis fst_conv)
qed simp

text \<open>
  The handle on a spawned service: the flag it shares with the loop, and whether the loop has ended
  and dropped the service.  \<open>join\<close> waits for that; as the loop ends when the flag is set
  (\<open>service_loop_stops\<close>) and only then (\<open>service_loop_runs_on\<close>), \<^const>\<open>None\<close> is a \<open>join\<close> that never
  returns.
\<close>

record service_runner =
  sr_stop :: bool
  sr_ended :: bool

definition service_spawn :: service_runner where
  "service_spawn = \<lparr>sr_stop = False, sr_ended = False\<rparr>"

definition service_stop :: "service_runner \<Rightarrow> service_runner" where
  "service_stop h = h\<lparr>sr_stop := True\<rparr>"

definition service_join :: "service_runner \<Rightarrow> service_runner option" where
  "service_join h = (if sr_stop h then Some (h\<lparr>sr_ended := True\<rparr>) else None)"

subsection \<open>Group runners\<close>

text \<open>
  The state of one group: the store, the free permits of the semaphore, the spawned executions
  that still run, the two flags, and where the fetch loop is.  At \<open>Top\<close> the loop reads the flags; in
  \<open>Spawning\<close> it goes through the batch it was given, one permit for each task; \<open>Draining\<close> is the
  \<open>acquire_many\<close> after the loop, \<open>Joined\<close> its end.
\<close>

datatype group_pc = Top | Spawning "task_record list" | Draining | Joined

record 's group_state =
  gs_store :: 's
  gs_free :: nat
  gs_running :: "task_record list"
  gs_stop :: bool
  gs_paused :: bool
  gs_pc :: group_pc

definition group_spawn :: "nat \<Rightarrow> 's \<Rightarrow> 's group_state" where
  "group_spawn concurrency s =
     \<lparr>gs_store = s, gs_free = concurrency, gs_running = [], gs_stop = False, gs_paused = False, gs_pc = Top\<rparr>"

text \<open>
  The steps.  A wait of the loop (paused, saturated, or backing off after a short batch) leads back
  to \<open>Top\<close>, which checks the flag again, so \<open>break\<close> and \<open>continue\<close> after it are the same.  \<open>finish\<close>
  is the end of a spawned execution: the task is handled and its permit dropped.  \<open>other\<close> is any
  step of the rest of the system, restricted to what \<open>env\<close> allows, and \<open>fetch_panicked\<close> a backend that
  panics in \<open>assign\<close>, having done no more than that: the loop goes on with an empty batch.
\<close>

inductive group_step ::
  "'s task_backend \<Rightarrow> task_registry \<Rightarrow> worker \<Rightarrow> nat \<Rightarrow> ('s \<Rightarrow> 's \<Rightarrow> bool)
   \<Rightarrow> 's group_state \<Rightarrow> 's group_state \<Rightarrow> bool"
  for B reg w concurrency env where
  leave: "gs_pc g = Top \<Longrightarrow> gs_stop g \<Longrightarrow> group_step B reg w concurrency env g (g\<lparr>gs_pc := Draining\<rparr>)"
| idle: "gs_pc g = Top \<Longrightarrow> \<not> gs_stop g \<Longrightarrow> gs_paused g \<or> gs_free g = 0 \<Longrightarrow>
    group_step B reg w concurrency env g g"
| fetch: "gs_pc g = Top \<Longrightarrow> \<not> gs_stop g \<Longrightarrow> \<not> gs_paused g \<Longrightarrow> 0 < gs_free g \<Longrightarrow>
    worker_assign B w now (gs_free g) (gs_store g) = (assigned, s') \<Longrightarrow>
    group_step B reg w concurrency env g (g\<lparr>gs_store := s', gs_pc := Spawning assigned\<rparr>)"
| fetch_panicked: "gs_pc g = Top \<Longrightarrow> \<not> gs_stop g \<Longrightarrow> \<not> gs_paused g \<Longrightarrow> 0 < gs_free g \<Longrightarrow>
    env (gs_store g) s' \<Longrightarrow>
    group_step B reg w concurrency env g (g\<lparr>gs_store := s', gs_pc := Spawning []\<rparr>)"
| spawn: "gs_pc g = Spawning (r # rs) \<Longrightarrow> 0 < gs_free g \<Longrightarrow>
    group_step B reg w concurrency env g
      (g\<lparr>gs_free := gs_free g - 1, gs_running := r # gs_running g, gs_pc := Spawning rs\<rparr>)"
| batch_done: "gs_pc g = Spawning [] \<Longrightarrow> group_step B reg w concurrency env g (g\<lparr>gs_pc := Top\<rparr>)"
| finish: "r \<in> set (gs_running g) \<Longrightarrow>
    group_step B reg w concurrency env g
      (g\<lparr>gs_store := handle_task B reg now r (gs_store g), gs_free := gs_free g + 1,
         gs_running := remove1 r (gs_running g)\<rparr>)"
| joined: "gs_pc g = Draining \<Longrightarrow> concurrency \<le> gs_free g \<Longrightarrow>
    group_step B reg w concurrency env g (g\<lparr>gs_pc := Joined\<rparr>)"
| stop: "group_step B reg w concurrency env g (g\<lparr>gs_stop := True\<rparr>)"
| pause: "group_step B reg w concurrency env g (g\<lparr>gs_paused := True\<rparr>)"
| resume: "group_step B reg w concurrency env g (g\<lparr>gs_paused := False\<rparr>)"
| other: "env (gs_store g) s' \<Longrightarrow> group_step B reg w concurrency env g (g\<lparr>gs_store := s'\<rparr>)"

inductive group_run ::
  "'s task_backend \<Rightarrow> task_registry \<Rightarrow> worker \<Rightarrow> nat \<Rightarrow> ('s \<Rightarrow> 's \<Rightarrow> bool) \<Rightarrow> 's
   \<Rightarrow> 's group_state \<Rightarrow> bool"
  for B reg w concurrency env s0 where
  spawned: "group_run B reg w concurrency env s0 (group_spawn concurrency s0)"
| stepped: "group_run B reg w concurrency env s0 g \<Longrightarrow> group_step B reg w concurrency env g g' \<Longrightarrow>
    group_run B reg w concurrency env s0 g'"

inductive_cases group_stepE: "group_step B reg w n env g g'"

definition is_alive :: "'s group_state \<Rightarrow> bool" where
  "is_alive g \<longleftrightarrow> \<not> gs_stop g"

fun pending :: "group_pc \<Rightarrow> task_record list" where
  "pending (Spawning rs) = rs"
| "pending _ = []"

text \<open>The tasks this runner has claimed and not finished.\<close>

definition claimed :: "'s group_state \<Rightarrow> task_record list" where
  "claimed g = gs_running g @ pending (gs_pc g)"

lemma permits_balance:
  "group_run B reg w n env s0 g \<Longrightarrow> gs_free g + length (gs_running g) = n \<and> (gs_pc g = Joined \<longrightarrow> gs_running g = [])"
proof (induction rule: group_run.induct)
  case spawned
  then show ?case by (simp add: group_spawn_def)
next
  case (stepped g g')
  from stepped.hyps(2) stepped.IH show ?case
  proof (cases rule: group_step.cases)
    case (finish r now)
    then have "0 < length (gs_running g)" by (cases "gs_running g") auto
    with finish stepped.IH show ?thesis by (auto simp: length_remove1)
  qed auto
qed

text \<open>The loop is left only when the group was asked to stop; then it can always come to its end.\<close>

lemma reaches_step: "P x y \<Longrightarrow> \<exists>z. P\<^sup>*\<^sup>* y z \<and> Q z \<Longrightarrow> \<exists>z. P\<^sup>*\<^sup>* x z \<and> Q z"
  by (meson converse_rtranclp_into_rtranclp)

lemma left_when_stopped:
  "group_run B reg w n env s0 g \<Longrightarrow> gs_pc g = Draining \<or> gs_pc g = Joined \<Longrightarrow> gs_stop g"
proof (induction rule: group_run.induct)
  case (stepped g g')
  from stepped.hyps(2) stepped.IH stepped.prems show ?case by (cases rule: group_step.cases) auto
qed (simp add: group_spawn_def)

lemma draining_joins:
  assumes "gs_pc g = Draining" and "gs_free g + length (gs_running g) = n"
  shows "\<exists>g'. (group_step B reg w n env)\<^sup>*\<^sup>* g g' \<and> gs_pc g' = Joined"
  using assms
proof (induction "gs_running g" arbitrary: g)
  case Nil
  then have "group_step B reg w n env g (g\<lparr>gs_pc := Joined\<rparr>)" by (intro group_step.joined) auto
  then show ?case by (intro exI [of _ "g\<lparr>gs_pc := Joined\<rparr>"]) auto
next
  case (Cons r rs)
  let ?g = "g\<lparr>gs_store := handle_task B reg undefined r (gs_store g), gs_free := gs_free g + 1,
    gs_running := remove1 r (gs_running g)\<rparr>"
  have "r \<in> set (gs_running g)" using Cons.hyps(2) [symmetric] by simp
  then have "group_step B reg w n env g ?g" by (rule group_step.finish)
  moreover have "\<exists>g'. (group_step B reg w n env)\<^sup>*\<^sup>* ?g g' \<and> gs_pc g' = Joined"
    by (rule Cons.hyps(1)) (use Cons.hyps(2) [symmetric] Cons.prems in simp_all)
  ultimately show ?case by (rule reaches_step)
qed

lemma spawning_finishes:
  assumes "gs_pc g = Spawning rs" and "gs_free g + length (gs_running g) = n" and "0 < n" and "gs_stop g"
  shows "\<exists>g'. (group_step B reg w n env)\<^sup>*\<^sup>* g g' \<and> gs_pc g' = Top \<and>
    gs_free g' + length (gs_running g') = n \<and> gs_stop g'"
  using assms
proof (induction "2 * length rs + length (gs_running g)" arbitrary: g rs rule: less_induct)
  case less
  show ?case
  proof (cases rs)
    case Nil
    with less.prems have "group_step B reg w n env g (g\<lparr>gs_pc := Top\<rparr>)" by (intro group_step.batch_done) simp
    with less.prems show ?thesis by (intro exI [of _ "g\<lparr>gs_pc := Top\<rparr>"]) auto
  next
    case (Cons r rest)
    show ?thesis
    proof (cases "gs_free g")
      case 0
      with less.prems obtain q where q: "q \<in> set (gs_running g)" by (cases "gs_running g") auto
      let ?g = "g\<lparr>gs_store := handle_task B reg undefined q (gs_store g), gs_free := gs_free g + 1,
        gs_running := remove1 q (gs_running g)\<rparr>"
      have l: "length (remove1 q (gs_running g)) = length (gs_running g) - 1" "0 < length (gs_running g)"
        using q by (auto simp: length_remove1)
      have "group_step B reg w n env g ?g" using q by (rule group_step.finish)
      moreover have "\<exists>g'. (group_step B reg w n env)\<^sup>*\<^sup>* ?g g' \<and> gs_pc g' = Top \<and>
          gs_free g' + length (gs_running g') = n \<and> gs_stop g'"
        by (rule less.hyps [where rs = rs]) (use less.prems l 0 in simp_all)
      ultimately show ?thesis by (rule reaches_step)
    next
      case (Suc m)
      let ?g = "g\<lparr>gs_free := gs_free g - 1, gs_running := r # gs_running g, gs_pc := Spawning rest\<rparr>"
      have "group_step B reg w n env g ?g" using less.prems Cons Suc by (intro group_step.spawn) auto
      moreover have "\<exists>g'. (group_step B reg w n env)\<^sup>*\<^sup>* ?g g' \<and> gs_pc g' = Top \<and>
          gs_free g' + length (gs_running g') = n \<and> gs_stop g'"
        by (rule less.hyps [where rs = rest]) (use less.prems Cons Suc in simp_all)
      ultimately show ?thesis by (rule reaches_step)
    qed
  qed
qed

lemma top_joins:
  assumes "gs_pc g = Top" and "gs_stop g" and "gs_free g + length (gs_running g) = n"
  shows "\<exists>g'. (group_step B reg w n env)\<^sup>*\<^sup>* g g' \<and> gs_pc g' = Joined"
proof -
  have "group_step B reg w n env g (g\<lparr>gs_pc := Draining\<rparr>)" using assms(1,2) by (rule group_step.leave)
  moreover have "\<exists>g'. (group_step B reg w n env)\<^sup>*\<^sup>* (g\<lparr>gs_pc := Draining\<rparr>) g' \<and> gs_pc g' = Joined"
    using draining_joins [of "g\<lparr>gs_pc := Draining\<rparr>"] assms(3) by simp
  ultimately show ?thesis by (rule reaches_step)
qed

lemma stopped_group_joins:
  assumes "group_run B reg w n env s0 g" and "gs_stop g" and "0 < n"
  shows "\<exists>g'. (group_step B reg w n env)\<^sup>*\<^sup>* g g' \<and> gs_pc g' = Joined"
proof (cases "gs_pc g")
  case Top
  with top_joins assms(2) permits_balance [OF assms(1)] show ?thesis by blast
next
  case (Spawning rs)
  from spawning_finishes [OF this conjunct1 [OF permits_balance [OF assms(1)]] assms(3,2), of B reg w env]
  obtain g' where g': "(group_step B reg w n env)\<^sup>*\<^sup>* g g'" "gs_pc g' = Top"
    "gs_free g' + length (gs_running g') = n" "gs_stop g'" by blast
  from top_joins [OF g'(2,4,3), of B reg w env] obtain h
    where "(group_step B reg w n env)\<^sup>*\<^sup>* g' h" "gs_pc h = Joined" by blast
  with g'(1) show ?thesis by (meson rtranclp_trans)
next
  case Draining
  with draining_joins permits_balance [OF assms(1)] show ?thesis by blast
qed auto

text \<open>
  On a backend that keeps the contract, the other processes never finding tasks claimed by this
  worker: what is staged under its id is exactly what it runs or is about to spawn.
\<close>

definition staged_by :: "tview \<Rightarrow> worker_id \<Rightarrow> task_id set" where
  "staged_by v wid = {i. \<exists>r t. v i = Some (r, Staged wid t)}"

definition quiet :: "('s \<Rightarrow> bool) \<Rightarrow> ('s \<Rightarrow> tview) \<Rightarrow> worker \<Rightarrow> 's \<Rightarrow> 's \<Rightarrow> bool" where
  "quiet P v w s s' \<longleftrightarrow> P s' \<and> staged_by (v s') (w_id w) = staged_by (v s) (w_id w) \<and>
     (\<forall>i\<in>staged_by (v s) (w_id w). v s' i = v s i)"

lemma spec_handle_unstaged:
  "spec_handle reg now r v (tr_id r) \<noteq> Some (q, Staged wid t)"
  by (auto simp: spec_handle_def spec_finish_def spec_discard_def spec_retry_def verdict_of_def
      split: verdict.splits option.splits outcome.splits sum.splits task_error.splits)

context reliable_backend begin

definition group_ok :: "worker \<Rightarrow> 's group_state \<Rightarrow> bool" where
  "group_ok w g \<longleftrightarrow> inv (gs_store g) \<and> distinct (map tr_id (claimed g)) \<and>
     (\<forall>r\<in>set (claimed g). \<exists>t. view (gs_store g) (tr_id r) = Some (r, Staged (w_id w) t)) \<and>
     staged_by (view (gs_store g)) (w_id w) \<subseteq> tr_id ` set (claimed g) \<and>
     length (pending (gs_pc g)) \<le> gs_free g"

lemma group_ok_quiet:
  assumes "group_ok w g" and "quiet inv view w (gs_store g) s'"
  shows "group_ok w (g\<lparr>gs_store := s'\<rparr>)"
proof -
  have "view s' (tr_id r) = view (gs_store g) (tr_id r)" if "r \<in> set (claimed g)" for r
  proof -
    from assms(1) that obtain t where "view (gs_store g) (tr_id r) = Some (r, Staged (w_id w) t)"
      unfolding group_ok_def by blast
    then have "tr_id r \<in> staged_by (view (gs_store g)) (w_id w)" by (auto simp: staged_by_def)
    with assms(2) show ?thesis by (simp add: quiet_def)
  qed
  with assms show ?thesis by (simp add: group_ok_def quiet_def claimed_def)
qed

lemma group_ok_fetch:
  assumes "group_ok w g" and "gs_pc g = Top"
    and "worker_assign B w now (gs_free g) (gs_store g) = (rs, s')"
  shows "group_ok w (g\<lparr>gs_store := s', gs_pc := Spawning rs\<rparr>)"
proof -
  from assms(1) have i: "inv (gs_store g)" by (simp add: group_ok_def)
  from worker_assign_exact [OF i assms(3)] have s': "inv s'"
    and b: "good_batch now (w_group w) (gs_free g) (view (gs_store g)) rs"
    and v: "view s' = spec_assign now (w_id w) rs (view (gs_store g))" by auto
  from b have d: "distinct (map tr_id rs)" and l: "length rs \<le> gs_free g" by (simp_all add: good_batch_def)
  have c: "claimed g = gs_running g" by (simp add: claimed_def assms(2))
  have held: "\<exists>t. view (gs_store g) (tr_id r) = Some (r, Staged (w_id w) t)" if "r \<in> set (gs_running g)" for r
    using assms(1) that c by (simp add: group_ok_def)
  have queued: "view (gs_store g) (tr_id q) = Some (q, Queued)" if "q \<in> set rs" for q
    using b that by (simp add: good_batch_def claimable_def)
  have apart: "tr_id r \<noteq> tr_id q" if "r \<in> set (gs_running g)" and "q \<in> set rs" for r q
    using held [OF that(1)] queued [OF that(2)] by auto
  then have old: "tr_id r \<notin> tr_id ` set rs" if "r \<in> set (gs_running g)" for r
    using that by (simp add: image_iff)
  have dist: "distinct (map tr_id (gs_running g @ rs))"
  proof -
    have "distinct (map tr_id (gs_running g))" using assms(1) c by (simp add: group_ok_def)
    moreover have "set (map tr_id (gs_running g)) \<inter> set (map tr_id rs) = {}"
      using old by (auto simp del: image_iff)
    ultimately show ?thesis using d by simp
  qed
  have st: "\<exists>t. view s' (tr_id r) = Some (r, Staged (w_id w) t)" if "r \<in> set (gs_running g @ rs)" for r
  proof (cases "r \<in> set rs")
    case True
    with spec_assign_in [OF d] show ?thesis unfolding v by blast
  next
    case False
    with that have r: "r \<in> set (gs_running g)" by simp
    have "view s' (tr_id r) = view (gs_store g) (tr_id r)"
      unfolding v by (rule spec_assign_other) (rule old [OF r])
    with held [OF r] show ?thesis by simp
  qed
  have "staged_by (view s') (w_id w) \<subseteq> tr_id ` set (gs_running g @ rs)"
  proof
    fix i assume i: "i \<in> staged_by (view s') (w_id w)"
    show "i \<in> tr_id ` set (gs_running g @ rs)"
    proof (cases "i \<in> tr_id ` set rs")
      case False
      then have "view s' i = view (gs_store g) i" unfolding v by (rule spec_assign_other)
      with i have "i \<in> staged_by (view (gs_store g)) (w_id w)" by (simp add: staged_by_def)
      with assms(1) c show ?thesis by (auto simp: group_ok_def)
    qed auto
  qed
  with dist st s' l show ?thesis by (simp add: group_ok_def claimed_def)
qed

lemma group_ok_finish:
  assumes "group_ok w g" and "r \<in> set (gs_running g)"
  shows "group_ok w (g\<lparr>gs_store := handle_task B reg now r (gs_store g), gs_free := gs_free g + 1,
         gs_running := remove1 r (gs_running g)\<rparr>)"
proof -
  let ?s' = "handle_task B reg now r (gs_store g)"
  let ?rest = "remove1 r (gs_running g) @ pending (gs_pc g)"
  from assms(1) have i: "inv (gs_store g)" and d: "distinct (map tr_id (claimed g))"
    and st: "\<forall>q\<in>set (claimed g). \<exists>t. view (gs_store g) (tr_id q) = Some (q, Staged (w_id w) t)"
    and all: "staged_by (view (gs_store g)) (w_id w) \<subseteq> tr_id ` set (claimed g)"
    by (simp_all add: group_ok_def)
  have v: "view ?s' = spec_handle reg now r (view (gs_store g))" by (rule handle_task_exact [OF i])
  have rest: "?rest = remove1 r (claimed g)" using assms(2) by (simp add: claimed_def remove1_append)
  have dc: "distinct (claimed g)" using d by (simp add: distinct_map)
  have other: "tr_id q \<noteq> tr_id r" if "q \<in> set (claimed g)" "q \<noteq> r" for q
  proof
    assume "tr_id q = tr_id r"
    moreover have "r \<in> set (claimed g)" using assms(2) by (simp add: claimed_def)
    ultimately show False using d that unfolding distinct_map inj_on_def by blast
  qed
  have dr: "distinct (map tr_id ?rest)"
    unfolding rest distinct_map
  proof
    show "distinct (remove1 r (claimed g))" using dc by simp
    show "inj_on tr_id (set (remove1 r (claimed g)))"
      using d unfolding distinct_map by (rule inj_on_subset [OF conjunct2]) (rule set_remove1_subset)
  qed
  have "\<exists>t. view ?s' (tr_id q) = Some (q, Staged (w_id w) t)" if "q \<in> set ?rest" for q
  proof -
    from that dc have q: "q \<in> set (claimed g)" "q \<noteq> r" unfolding rest by simp_all
    then have "view ?s' (tr_id q) = view (gs_store g) (tr_id q)"
      unfolding v by (intro spec_handle_other other)
    with st q(1) show ?thesis by simp
  qed
  moreover have "staged_by (view ?s') (w_id w) \<subseteq> tr_id ` set ?rest"
  proof
    fix k assume k: "k \<in> staged_by (view ?s') (w_id w)"
    then have kr: "k \<noteq> tr_id r" using spec_handle_unstaged by (auto simp: staged_by_def v)
    then have "view ?s' k = view (gs_store g) k" unfolding v by (rule spec_handle_other)
    with k have "k \<in> staged_by (view (gs_store g)) (w_id w)" by (simp add: staged_by_def)
    with all obtain q where q: "q \<in> set (claimed g)" "k = tr_id q" by blast
    with kr have "q \<noteq> r" by blast
    with q(1) dc have "q \<in> set ?rest" unfolding rest by simp
    with q(2) show "k \<in> tr_id ` set ?rest" by blast
  qed
  moreover have "inv ?s'" using handle_task_law [OF i] by blast
  ultimately show ?thesis using dr assms(1) by (simp add: group_ok_def claimed_def)
qed

lemma group_run_ok:
  assumes "group_run B reg w n (quiet inv view w) s0 g" and "inv s0" and "staged_by (view s0) (w_id w) = {}"
  shows "group_ok w g"
  using assms(1)
proof (induction rule: group_run.induct)
  case spawned
  show ?case by (simp add: group_ok_def group_spawn_def claimed_def assms(2,3))
next
  case (stepped g g')
  from stepped.hyps(2) show ?case
  proof (cases rule: group_step.cases)
    case (fetch now assigned s')
    with group_ok_fetch [OF stepped.IH] show ?thesis by simp
  next
    case (spawn r rs)
    with stepped.IH show ?thesis by (auto simp: group_ok_def claimed_def)
  next
    case (finish r now)
    with group_ok_finish [OF stepped.IH] show ?thesis by simp
  next
    case (fetch_panicked s')
    with group_ok_quiet [OF stepped.IH, of s'] show ?thesis by (simp add: group_ok_def claimed_def)
  next
    case (other s')
    with group_ok_quiet [OF stepped.IH] show ?thesis by simp
  qed (use stepped.IH in \<open>simp_all add: group_ok_def claimed_def\<close>)
qed

end

end
