(* ===== verification/Runtime.thy ===== *)
theory Runtime imports Scheduler Service Runner begin

section \<open>The runtime (src/src/runtime.rs)\<close>

text \<open>
  What a process starts (one runner per group, a heartbeat, schedulers and helper services), how
  control events steer it, and how it shuts down.  A \<open>HashMap\<close> that is iterated over is the list of
  its entries, with distinct keys, in iteration order.
\<close>

subsection \<open>Configuration\<close>

definition DEFAULT_POLLING_INTERVAL :: duration where
  "DEFAULT_POLLING_INTERVAL = duration_from_secs 1"

datatype polling_interval = Auto | Fixed duration | PerGroup "task_group \<Rightarrow> duration option"

record ('dt, 'tz) runtime =
  rt_concurrency :: "(task_group \<times> nat) list"
  rt_schedule_entries :: "(scheduler_name \<times> ('dt, 'tz) schedule_entry list) list"
  rt_tzinfo :: "'tz option"
  rt_polling_interval :: "task_group \<Rightarrow> duration option"
  rt_helper_services :: bool

definition runtime_new ::
  "(task_group \<times> nat) list \<Rightarrow> (scheduler_name \<times> ('dt, 'tz) schedule_entry list) list \<Rightarrow> 'tz option
   \<Rightarrow> polling_interval \<Rightarrow> bool \<Rightarrow> ('dt, 'tz) runtime option" where
  "runtime_new concurrency_per_group schedules tzinfo polling helper_services =
     (if list_all (\<lambda>(_, n). 0 < n) concurrency_per_group
      then Some
        \<lparr>rt_concurrency = concurrency_per_group, rt_schedule_entries = schedules, rt_tzinfo = tzinfo,
         rt_polling_interval =
           (case polling of
              Auto \<Rightarrow> map_of (map (\<lambda>(g, _). (g, DEFAULT_POLLING_INTERVAL)) concurrency_per_group)
            | Fixed d \<Rightarrow> map_of (map (\<lambda>(g, _). (g, d)) concurrency_per_group)
            | PerGroup m \<Rightarrow> m),
         rt_helper_services = helper_services\<rparr>
      else None)"

text \<open>The group runners that \<open>run\<close> spawns: group, concurrency and polling interval.\<close>

definition worker_runners :: "('dt, 'tz) runtime \<Rightarrow> (task_group \<times> nat \<times> duration) list" where
  "worker_runners rt =
     map (\<lambda>(g, n). (g, n, case rt_polling_interval rt g of Some d \<Rightarrow> d | None \<Rightarrow> DEFAULT_POLLING_INTERVAL))
       (rt_concurrency rt)"

text \<open>The services that \<open>run\<close> spawns beside the heartbeat; \<^const>\<open>None\<close> is the panic of \<open>Scheduler::new\<close>.\<close>

datatype ('dt, 'tz) service_kind =
    SchedulerService "('dt, 'tz) scheduler" | RestoreAbandonedTasks | PurgeDeadWorkers | DiscardDisposableTasks

fun scheduler_services ::
  "'tz option \<Rightarrow> (scheduler_name \<times> ('dt, 'tz) schedule_entry list) list \<Rightarrow> ('dt, 'tz) service_kind list option" where
  "scheduler_services tz [] = Some []"
| "scheduler_services tz ((name, entries) # rest) =
     (if entries = [] then scheduler_services tz rest
      else case scheduler_new name entries tz of
             None \<Rightarrow> None
           | Some sc \<Rightarrow> map_option (\<lambda>ss. SchedulerService sc # ss) (scheduler_services tz rest))"

definition runtime_services :: "('dt, 'tz) runtime \<Rightarrow> ('dt, 'tz) service_kind list option" where
  "runtime_services rt =
     map_option (\<lambda>ss. ss @ (if rt_helper_services rt
                            then [RestoreAbandonedTasks, PurgeDeadWorkers, DiscardDisposableTasks] else []))
       (scheduler_services (rt_tzinfo rt) (rt_schedule_entries rt))"

subsection \<open>Control events\<close>

text \<open>
  What the process holds of a group runner: its flags, the number of references to it (an \<open>Arc\<close>
  shared with the heartbeat), whether it has been joined.  Then the groups not yet shut down.
\<close>

record runner_handle =
  rf_group :: task_group
  rf_stop :: bool
  rf_paused :: bool
  rf_refs :: nat
  rf_joined :: bool

record control =
  ct_runners :: "runner_handle list"
  ct_alive :: "task_group set"

definition control_init :: "('dt, 'tz) runtime \<Rightarrow> control" where
  "control_init rt =
     \<lparr>ct_runners = map (\<lambda>(g, _). \<lparr>rf_group = g, rf_stop = False, rf_paused = False, rf_refs = 2, rf_joined = False\<rparr>)
        (worker_runners rt),
      ct_alive = set (map fst (rt_concurrency rt))\<rparr>"

definition target_groups :: "control \<Rightarrow> control_event \<Rightarrow> task_group set" where
  "target_groups c ev = (case event_groups ev of None \<Rightarrow> ct_alive c | Some groups \<Rightarrow> set groups)"

definition on_targets :: "(runner_handle \<Rightarrow> runner_handle) \<Rightarrow> task_group set \<Rightarrow> runner_handle list \<Rightarrow> runner_handle list" where
  "on_targets f targets rs = map (\<lambda>r. if rf_group r \<in> targets then f r else r) rs"

text \<open>One event; the second component is \<open>break\<close>.\<close>

fun handle_event :: "control_event \<Rightarrow> control \<Rightarrow> control \<times> bool" where
  "handle_event (Shutdown gs) c =
     (let targets = target_groups c (Shutdown gs);
          c' = c\<lparr>ct_runners := on_targets (\<lambda>r. r\<lparr>rf_stop := True\<rparr>) targets (ct_runners c),
                 ct_alive := ct_alive c - targets\<rparr>
      in (c', ct_alive c' = {}))"
| "handle_event (Pause gs) c =
     (c\<lparr>ct_runners := on_targets (\<lambda>r. r\<lparr>rf_paused := True\<rparr>) (target_groups c (Pause gs)) (ct_runners c)\<rparr>, False)"
| "handle_event (Resume gs) c =
     (c\<lparr>ct_runners := on_targets (\<lambda>r. r\<lparr>rf_paused := False\<rparr>) (target_groups c (Resume gs)) (ct_runners c)\<rparr>, False)"

text \<open>
  The event loop on what successive calls of \<open>next\<close> of the event stream return.  \<^const>\<open>None\<close>, the end of
  the stream, is ignored and \<open>next\<close> is called again.  The second component tells whether the loop ended.
\<close>

fun control_loop :: "control_event option list \<Rightarrow> control \<Rightarrow> control \<times> bool" where
  "control_loop [] c = (c, False)"
| "control_loop (None # evs) c = control_loop evs c"
| "control_loop (Some ev # evs) c =
     (let (c', brk) = handle_event ev c in if brk then (c', True) else control_loop evs c')"

subsection \<open>Running and shutting down\<close>

record ('dt, 'tz) process =
  pr_runners :: "runner_handle list"
  pr_refresh :: service_runner
  pr_services :: "(('dt, 'tz) service_kind \<times> service_runner) list"

definition process_start :: "('dt, 'tz) runtime \<Rightarrow> ('dt, 'tz) process option" where
  "process_start rt =
     map_option (\<lambda>ss. \<lparr>pr_runners = ct_runners (control_init rt), pr_refresh = service_spawn,
                       pr_services = map (\<lambda>k. (k, service_spawn)) ss\<rparr>)
       (runtime_services rt)"

text \<open>Joining one after the other; \<^const>\<open>None\<close> if one of them never ends.\<close>

fun join_services :: "('k \<times> service_runner) list \<Rightarrow> ('k \<times> service_runner) list option" where
  "join_services [] = Some []"
| "join_services ((k, h) # hs) =
     (case service_join h of
        None \<Rightarrow> None
      | Some h' \<Rightarrow> map_option (\<lambda>hs'. (k, h') # hs') (join_services hs))"

text \<open>
  A runner is joined only when \<open>Arc::try_unwrap\<close> succeeds, for the sole reference; otherwise there is
  a warning and its tasks are not waited for.  Its loop ends when it was asked to stop, and only then
  (\<open>stopped_group_joins\<close>, \<open>left_when_stopped\<close>).
\<close>

definition group_join :: "runner_handle \<Rightarrow> runner_handle option" where
  "group_join r = (if rf_stop r then Some (r\<lparr>rf_joined := True\<rparr>) else None)"

fun join_runners :: "runner_handle list \<Rightarrow> runner_handle list option" where
  "join_runners [] = Some []"
| "join_runners (r # rs) =
     (if rf_refs r = 1
      then case group_join r of
             None \<Rightarrow> None
           | Some r' \<Rightarrow> map_option (\<lambda>rs'. r' # rs') (join_runners rs)
      else map_option (\<lambda>rs'. r # rs') (join_runners rs))"

text \<open>The end of the heartbeat's task drops the service, and with it a reference to every runner.\<close>

definition drop_refresh :: "runner_handle list \<Rightarrow> runner_handle list" where
  "drop_refresh rs = map (\<lambda>r. r\<lparr>rf_refs := rf_refs r - 1\<rparr>) rs"

definition shut_down_process :: "('dt, 'tz) process \<Rightarrow> ('dt, 'tz) process option" where
  "shut_down_process p =
     (let runners = map (\<lambda>r. r\<lparr>rf_stop := True\<rparr>) (pr_runners p);
          services = map (\<lambda>(k, h). (k, service_stop h)) (pr_services p)
      in case join_services services of
           None \<Rightarrow> None
         | Some services \<Rightarrow>
             (case service_join (service_stop (pr_refresh p)) of
                None \<Rightarrow> None
              | Some refresh_ttl \<Rightarrow>
                  (case join_runners (drop_refresh runners) of
                     None \<Rightarrow> None
                   | Some runners \<Rightarrow>
                       Some \<lparr>pr_runners = runners, pr_refresh = refresh_ttl, pr_services = services\<rparr>)))"

text \<open>
  \<open>run\<close>: the panic of \<open>Scheduler::new\<close>, a process that is still running, or the result with what is
  left behind.  \<open>receiver\<close> is what \<open>receive_events\<close> returns; when it fails, \<open>?\<close> returns at once and
  what was spawned goes on, for dropping a handle does not end its task.  Otherwise the event loop
  runs until it breaks or Ctrl-C wins the \<open>select!\<close>.
\<close>

datatype ('dt, 'tz) run_state =
    RunPanicked
  | StillRunning "('dt, 'tz) process"
  | RunReturned "receive_events_error + unit" "('dt, 'tz) process"

definition runtime_run ::
  "('dt, 'tz) runtime \<Rightarrow> receive_events_error + unit \<Rightarrow> control_event option list \<Rightarrow> bool
   \<Rightarrow> ('dt, 'tz) run_state" where
  "runtime_run rt receiver evs ctrl_c =
     (case process_start rt of
        None \<Rightarrow> RunPanicked
      | Some p \<Rightarrow>
          (case receiver of
             Inl e \<Rightarrow> RunReturned (Inl e) p
           | Inr u \<Rightarrow>
               (case control_loop evs (control_init rt) of
                  (c, fin) \<Rightarrow>
                    (let p = p\<lparr>pr_runners := ct_runners c\<rparr>
                     in if fin \<or> ctrl_c
                        then case shut_down_process p of
                               None \<Rightarrow> StillRunning p
                             | Some p \<Rightarrow> RunReturned (Inr ()) p
                        else StillRunning p))))"

subsection \<open>Facts\<close>

definition control_ok :: "task_group list \<Rightarrow> control \<Rightarrow> bool" where
  "control_ok groups c \<longleftrightarrow> map rf_group (ct_runners c) = groups \<and> ct_alive c \<subseteq> set groups \<and>
     (\<forall>r\<in>set (ct_runners c). rf_stop r \<longleftrightarrow> rf_group r \<notin> ct_alive c)"

lemma control_ok_init: "control_ok (map fst (rt_concurrency rt)) (control_init rt)"
  by (auto simp: control_ok_def control_init_def worker_runners_def case_prod_unfold)

lemma on_targets_groups [simp]:
  "(\<And>r. rf_group (f r) = rf_group r) \<Longrightarrow> map rf_group (on_targets f ts rs) = map rf_group rs"
  by (simp add: on_targets_def)

lemma on_targets_set: "set (on_targets f ts rs) = (\<lambda>r. if rf_group r \<in> ts then f r else r) ` set rs"
  by (simp add: on_targets_def)

lemma control_ok_event:
  assumes "control_ok groups c" shows "control_ok groups (fst (handle_event ev c))"
proof (cases ev)
  case (Shutdown gs)
  with assms show ?thesis by (auto simp: control_ok_def Let_def on_targets_set)
next
  case (Pause gs)
  with assms show ?thesis by (auto simp: control_ok_def on_targets_set)
next
  case (Resume gs)
  with assms show ?thesis by (auto simp: control_ok_def on_targets_set)
qed

lemma control_loop_Some:
  "control_loop (Some ev # evs) c =
     (if snd (handle_event ev c) then (fst (handle_event ev c), True)
      else control_loop evs (fst (handle_event ev c)))"
  by (simp split: prod.split)

declare control_loop.simps(3) [simp del]
declare control_loop_Some [simp]

lemma alive_event: "ct_alive (fst (handle_event ev c)) =
    (case ev of Shutdown gs \<Rightarrow> ct_alive c - target_groups c ev | _ \<Rightarrow> ct_alive c)"
  and break_event: "snd (handle_event ev c) =
    (case ev of Shutdown gs \<Rightarrow> ct_alive c - target_groups c ev = {} | _ \<Rightarrow> False)"
  by (cases ev; simp add: Let_def)+

lemma runner_event:
  assumes "r \<in> set (ct_runners (fst (handle_event ev c)))"
  shows "\<exists>q\<in>set (ct_runners c). rf_group q = rf_group r \<and>
    rf_paused r = (case ev of
        Shutdown gs \<Rightarrow> rf_paused q
      | Pause gs \<Rightarrow> rf_group r \<in> target_groups c ev \<or> rf_paused q
      | Resume gs \<Rightarrow> rf_group r \<notin> target_groups c ev \<and> rf_paused q)"
  using assms by (cases ev) (auto simp: Let_def on_targets_def split: if_splits)

lemma control_ok_loop: "control_ok groups c \<Longrightarrow> control_ok groups (fst (control_loop evs c))"
proof (induction evs arbitrary: c)
  case (Cons e evs)
  then show ?case by (cases e) (simp_all add: control_ok_event)
qed simp

text \<open>The groups still alive after the events, and when the loop ends.\<close>

fun shut_down :: "task_group set \<Rightarrow> control_event option list \<Rightarrow> task_group set" where
  "shut_down alive [] = alive"
| "shut_down alive (Some (Shutdown gs) # evs) =
     (let left = alive - (case gs of None \<Rightarrow> alive | Some l \<Rightarrow> set l)
      in if left = {} then {} else shut_down left evs)"
| "shut_down alive (_ # evs) = shut_down alive evs"

lemma control_loop_alive: "ct_alive (fst (control_loop evs c)) = shut_down (ct_alive c) evs"
proof (induction evs arbitrary: c)
  case (Cons e evs)
  show ?case
  proof (cases e)
    case (Some ev)
    have "ct_alive c - target_groups c (Shutdown gs) =
        ct_alive c - (case gs of None \<Rightarrow> ct_alive c | Some l \<Rightarrow> set l)" for gs
      by (simp add: target_groups_def)
    with Some show ?thesis
      by (cases ev) (simp_all add: Cons.IH alive_event break_event Let_def del: handle_event.simps)
  qed (simp add: Cons.IH)
qed simp

lemma control_loop_fin: "snd (control_loop evs c) \<Longrightarrow> ct_alive (fst (control_loop evs c)) = {}"
proof (induction evs arbitrary: c)
  case (Cons e evs)
  show ?case
  proof (cases e)
    case (Some ev)
    with Cons show ?thesis
      by (cases ev) (auto simp: alive_event break_event simp del: handle_event.simps split: if_splits)
  qed (use Cons in simp)
qed simp

lemma control_loop_empty:
  "ct_alive c \<noteq> {} \<Longrightarrow> ct_alive (fst (control_loop evs c)) = {} \<Longrightarrow> snd (control_loop evs c)"
proof (induction evs arbitrary: c)
  case (Cons e evs)
  show ?case
  proof (cases e)
    case (Some ev)
    show ?thesis
    proof (cases "snd (handle_event ev c)")
      case False
      then have "ct_alive (fst (handle_event ev c)) \<noteq> {}"
        using Cons.prems(1) unfolding alive_event break_event by (cases ev) simp_all
      with Cons.IH [of "fst (handle_event ev c)"] Cons.prems(2) Some False show ?thesis by simp
    qed (simp add: Some)
  qed (use Cons in simp)
qed simp

lemma alive_mono: "ct_alive (fst (control_loop evs c)) \<subseteq> ct_alive c"
proof (induction evs arbitrary: c)
  case (Cons e evs)
  show ?case
  proof (cases e)
    case (Some ev)
    have "ct_alive (fst (handle_event ev c)) \<subseteq> ct_alive c" unfolding alive_event by (cases ev) auto
    with Some Cons.IH [of "fst (handle_event ev c)"] show ?thesis by auto
  qed (simp add: Cons.IH)
qed simp

text \<open>The last pause or resume that targeted a group decides.\<close>

fun last_pause :: "task_group \<Rightarrow> control_event option list \<Rightarrow> bool \<Rightarrow> bool" where
  "last_pause g [] p = p"
| "last_pause g (Some (Pause gs) # evs) p =
     last_pause g evs (case gs of None \<Rightarrow> True | Some l \<Rightarrow> g \<in> set l \<or> p)"
| "last_pause g (Some (Resume gs) # evs) p =
     last_pause g evs (case gs of None \<Rightarrow> False | Some l \<Rightarrow> g \<notin> set l \<and> p)"
| "last_pause g (_ # evs) p = last_pause g evs p"

lemma control_loop_paused:
  assumes "r' \<in> set (ct_runners (fst (control_loop evs c)))"
    and "rf_group r' \<in> ct_alive (fst (control_loop evs c))"
  shows "\<exists>r\<in>set (ct_runners c). rf_group r = rf_group r' \<and> rf_paused r' = last_pause (rf_group r') evs (rf_paused r)"
  using assms
proof (induction evs arbitrary: c)
  case (Cons e evs)
  show ?case
  proof (cases e)
    case None
    with Cons show ?thesis by simp
  next
    case (Some ev)
    let ?c = "fst (handle_event ev c)"
    have go: "\<not> snd (handle_event ev c)"
    proof
      assume b: "snd (handle_event ev c)"
      then have "ct_alive ?c = {}" unfolding alive_event break_event by (cases ev) auto
      with Cons.prems(2) Some b show False by simp
    qed
    with Cons.prems Some have p: "r' \<in> set (ct_runners (fst (control_loop evs ?c)))"
      "rf_group r' \<in> ct_alive (fst (control_loop evs ?c))" by simp_all
    from Cons.IH [OF p] obtain r where r: "r \<in> set (ct_runners ?c)" "rf_group r = rf_group r'"
      "rf_paused r' = last_pause (rf_group r') evs (rf_paused r)" by blast
    have "ct_alive ?c \<subseteq> ct_alive c" unfolding alive_event by (cases ev) auto
    with p(2) alive_mono [of evs ?c] have al: "rf_group r' \<in> ct_alive c" by blast
    from runner_event [OF r(1)] obtain q where q: "q \<in> set (ct_runners c)" "rf_group q = rf_group r"
      "rf_paused r = (case ev of
        Shutdown gs \<Rightarrow> rf_paused q
      | Pause gs \<Rightarrow> rf_group r \<in> target_groups c ev \<or> rf_paused q
      | Resume gs \<Rightarrow> rf_group r \<notin> target_groups c ev \<and> rf_paused q)" by blast
    from q(3) r(2,3) al Some have "rf_paused r' = last_pause (rf_group r') (e # evs) (rf_paused q)"
      by (cases ev) (auto simp: target_groups_def split: option.splits)
    with q(1,2) r(2) show ?thesis by auto
  qed
qed auto

subsection \<open>Shutdown\<close>

lemma join_services_stopped:
  "join_services (map (\<lambda>(k, h). (k, service_stop h)) hs) =
     Some (map (\<lambda>(k, h). (k, h\<lparr>sr_stop := True, sr_ended := True\<rparr>)) hs)"
  by (induction hs) (auto simp: service_stop_def service_join_def)

lemma join_runners_stopped:
  "\<forall>r\<in>set rs. rf_stop r \<and> rf_refs r = 1 \<Longrightarrow> join_runners rs = Some (map (\<lambda>r. r\<lparr>rf_joined := True\<rparr>) rs)"
  by (induction rs) (auto simp: group_join_def)

text \<open>When every runner is held by the process and the heartbeat, nothing is left running.\<close>

lemma shut_down_process_eq:
  assumes "\<forall>r\<in>set (pr_runners p). rf_refs r = 2"
  shows "shut_down_process p =
    Some \<lparr>pr_runners = map (\<lambda>r. r\<lparr>rf_stop := True, rf_refs := 1, rf_joined := True\<rparr>) (pr_runners p),
          pr_refresh = (pr_refresh p)\<lparr>sr_stop := True, sr_ended := True\<rparr>,
          pr_services = map (\<lambda>(k, h). (k, h\<lparr>sr_stop := True, sr_ended := True\<rparr>)) (pr_services p)\<rparr>"
proof -
  let ?rs = "drop_refresh (map (\<lambda>r. r\<lparr>rf_stop := True\<rparr>) (pr_runners p))"
  have "\<forall>r\<in>set ?rs. rf_stop r \<and> rf_refs r = 1" using assms by (simp add: drop_refresh_def)
  from join_runners_stopped [OF this]
  have "join_runners ?rs = Some (map (\<lambda>r. r\<lparr>rf_stop := True, rf_refs := 1, rf_joined := True\<rparr>) (pr_runners p))"
    using assms by (simp add: drop_refresh_def)
  then show ?thesis
    unfolding shut_down_process_def Let_def join_services_stopped
    by (simp add: service_stop_def service_join_def)
qed

text \<open>Events change flags only.\<close>

lemma refs_event:
  "r \<in> set (ct_runners (fst (handle_event ev c))) \<Longrightarrow>
     \<exists>q\<in>set (ct_runners c). rf_refs r = rf_refs q \<and> rf_joined r = rf_joined q"
  by (cases ev) (auto simp: Let_def on_targets_def split: if_splits)

lemma refs_loop:
  assumes "\<forall>q\<in>set (ct_runners c). rf_refs q = k \<and> \<not> rf_joined q"
  shows "\<forall>r\<in>set (ct_runners (fst (control_loop evs c))). rf_refs r = k \<and> \<not> rf_joined r"
  using assms
proof (induction evs arbitrary: c)
  case (Cons e evs)
  show ?case
  proof (cases e)
    case (Some ev)
    have e: "\<forall>r\<in>set (ct_runners (fst (handle_event ev c))). rf_refs r = k \<and> \<not> rf_joined r"
      using Cons.prems refs_event [of _ ev c] by metis
    from Cons.IH [OF e] e Some show ?thesis by simp
  next
    case None
    with Cons.IH [OF Cons.prems] show ?thesis by (simp only: control_loop.simps)
  qed
qed simp

lemma refs_init: "\<forall>q\<in>set (ct_runners (control_init rt)). rf_refs q = 2 \<and> \<not> rf_joined q"
  by (auto simp: control_init_def)

text \<open>How a run ends once the process has started.\<close>

lemma runtime_run_eq:
  assumes "runtime_services rt = Some ss" and "control_loop evs (control_init rt) = (c, fin)"
  shows "runtime_run rt (Inr ()) evs ctrl_c =
    (if fin \<or> ctrl_c
     then RunReturned (Inr ())
       \<lparr>pr_runners = map (\<lambda>r. r\<lparr>rf_stop := True, rf_refs := 1, rf_joined := True\<rparr>) (ct_runners c),
        pr_refresh = \<lparr>sr_stop = True, sr_ended = True\<rparr>,
        pr_services = map (\<lambda>k. (k, \<lparr>sr_stop = True, sr_ended = True\<rparr>)) ss\<rparr>
     else StillRunning
       \<lparr>pr_runners = ct_runners c, pr_refresh = service_spawn,
        pr_services = map (\<lambda>k. (k, service_spawn)) ss\<rparr>)"
proof -
  have "\<forall>r\<in>set (ct_runners c). rf_refs r = 2"
    using refs_loop [OF refs_init [of rt], of evs] assms(2) by simp
  then show ?thesis
    by (simp add: runtime_run_def process_start_def assms shut_down_process_eq Let_def service_spawn_def comp_def)
qed

end
