(* ===== verification/Task_Result.thy ===== *)
theory Task_Result imports Worker begin

section \<open>Result handles (src/src/result.rs)\<close>

text \<open>
  \<open>TaskResult\<close>: one look at the backend with the cache it fills, and the polling loop of \<open>get\<close>.  The
  answers of the backend to successive looks and the readings of \<open>start.elapsed()\<close> are functions of
  the iteration; the loop may poll for ever, so it takes fuel and \<^const>\<open>None\<close> means that it has not
  returned yet.
\<close>

subsection \<open>Model\<close>

datatype result_get_error =
    TimedOut
  | Prevented string
  | InvalidData string
  | RG_NotFound
  | RG_Failed string
  | RG_Backend backend_error

text \<open>\<open>show_duration\<close> is the \<open>Debug\<close> output of a duration.\<close>

definition task_error_display :: "(duration \<Rightarrow> string) \<Rightarrow> task_error \<Rightarrow> string" where
  "task_error_display show_duration e =
     (case e of
        Discard reason \<Rightarrow> ''discard''
      | Retry reason retry_after \<Rightarrow> ''retry after '' @ show_duration retry_after
      | Fatal reason \<Rightarrow> ''fatal'')"

record task_result =
  th_task_id :: task_id
  th_cached_bytes :: "bytes option"

definition task_result_new :: "task_id \<Rightarrow> task_result" where
  "task_result_new i = \<lparr>th_task_id = i, th_cached_bytes = None\<rparr>"

definition task_result_new_with_bytes :: "task_id \<Rightarrow> bytes \<Rightarrow> task_result" where
  "task_result_new_with_bytes i b = \<lparr>th_task_id = i, th_cached_bytes = Some b\<rparr>"

definition task_result_clone :: "task_result \<Rightarrow> task_result" where
  "task_result_clone h = \<lparr>th_task_id = th_task_id h, th_cached_bytes = None\<rparr>"

definition decode_result ::
  "(duration \<Rightarrow> string) \<Rightarrow> (bytes \<Rightarrow> task_error + 'o) \<Rightarrow> bytes \<Rightarrow> result_get_error + 'o" where
  "decode_result show_duration decode b =
     (case decode b of Inl e \<Rightarrow> Inl (InvalidData (task_error_display show_duration e)) | Inr x \<Rightarrow> Inr x)"

text \<open>\<open>answer\<close> is what \<open>backend.get_result\<close> returned.\<close>

definition try_get_result ::
  "(duration \<Rightarrow> string) \<Rightarrow> (bytes \<Rightarrow> task_error + 'o) \<Rightarrow> get_result_error + (task_record \<times> bytes)
   \<Rightarrow> task_result \<Rightarrow> (result_get_error + 'o option) \<times> task_result" where
  "try_get_result show_duration decode answer h =
     (case answer of
        Inr (r, result_bytes) \<Rightarrow>
          (case decode_result show_duration decode result_bytes of
             Inl e \<Rightarrow> (Inl e, h)
           | Inr result \<Rightarrow> (Inr (Some result), h\<lparr>th_cached_bytes := Some result_bytes\<rparr>))
      | Inl (GR_NoResult r) \<Rightarrow> (Inr None, h)
      | Inl GR_NotFound \<Rightarrow> (Inl RG_NotFound, h)
      | Inl (GR_Failed r message) \<Rightarrow> (Inl (RG_Failed message), h)
      | Inl (GR_Backend e) \<Rightarrow> (Inl (RG_Backend e), h))"

text \<open>The nap before the \<open>i\<close>-th iteration's look, and the loop from iteration \<open>i\<close>.\<close>

definition nap :: "nat \<Rightarrow> duration" where
  "nap i = min (i * 100) 1000 * nanos_per_sec div 1000"

fun get_loop ::
  "(duration \<Rightarrow> string) \<Rightarrow> (bytes \<Rightarrow> task_error + 'o) \<Rightarrow> (nat \<Rightarrow> get_result_error + (task_record \<times> bytes))
   \<Rightarrow> (nat \<Rightarrow> duration) \<Rightarrow> duration option \<Rightarrow> nat \<Rightarrow> nat \<Rightarrow> task_result
   \<Rightarrow> ((result_get_error + 'o) \<times> task_result) option" where
  "get_loop sd decode answers elapsed timeout 0 i h = None"
| "get_loop sd decode answers elapsed timeout (Suc fuel) i h =
     (if (case timeout of Some t \<Rightarrow> t \<le> elapsed i | None \<Rightarrow> False) then Some (Inl TimedOut, h)
      else case try_get_result sd decode (answers i) h of
             (Inl e, h') \<Rightarrow> Some (Inl e, h')
           | (Inr (Some result), h') \<Rightarrow> Some (Inr result, h')
           | (Inr None, h') \<Rightarrow> get_loop sd decode answers elapsed timeout fuel (i + 1) h')"

text \<open>\<open>first\<close> is the answer to the look before the loop.\<close>

definition get ::
  "(duration \<Rightarrow> string) \<Rightarrow> (bytes \<Rightarrow> task_error + 'o) \<Rightarrow> prevent_scope \<Rightarrow> get_result_error + (task_record \<times> bytes)
   \<Rightarrow> (nat \<Rightarrow> get_result_error + (task_record \<times> bytes)) \<Rightarrow> (nat \<Rightarrow> duration) \<Rightarrow> nat
   \<Rightarrow> duration option \<Rightarrow> bool \<Rightarrow> task_result \<Rightarrow> ((result_get_error + 'o) \<times> task_result) option" where
  "get sd decode sc first answers elapsed fuel timeout avoid_assertion h =
     (case (if avoid_assertion then None else is_prevented sc) of
        Some reason \<Rightarrow> Some (Inl (Prevented reason), h)
      | None \<Rightarrow>
          (case th_cached_bytes h of
             Some bytes \<Rightarrow> Some (decode_result sd decode bytes, h)
           | None \<Rightarrow>
               (case try_get_result sd decode first h of
                  (Inl e, h') \<Rightarrow> Some (Inl e, h')
                | (Inr (Some result), h') \<Rightarrow> Some (Inr result, h')
                | (Inr None, h') \<Rightarrow> get_loop sd decode answers elapsed timeout fuel 0 h')))"

subsection \<open>Facts\<close>

definition no_result :: "get_result_error + (task_record \<times> bytes) \<Rightarrow> bool" where
  "no_result a \<longleftrightarrow> (\<exists>r. a = Inl (GR_NoResult r))"

text \<open>What a conclusive answer means to the caller, and the handle after it.\<close>

definition conclude ::
  "(duration \<Rightarrow> string) \<Rightarrow> (bytes \<Rightarrow> task_error + 'o) \<Rightarrow> get_result_error + (task_record \<times> bytes)
   \<Rightarrow> result_get_error + 'o" where
  "conclude sd decode a =
     (case a of
        Inr (r, b) \<Rightarrow> decode_result sd decode b
      | Inl GR_NotFound \<Rightarrow> Inl RG_NotFound
      | Inl (GR_NoResult r) \<Rightarrow> Inl TimedOut
      | Inl (GR_Failed r m) \<Rightarrow> Inl (RG_Failed m)
      | Inl (GR_Backend e) \<Rightarrow> Inl (RG_Backend e))"

lemma try_no_result: "no_result a \<Longrightarrow> try_get_result sd decode a h = (Inr None, h)"
  by (auto simp: no_result_def try_get_result_def)

lemma try_conclusive:
  assumes "\<not> no_result a"
  shows "(case try_get_result sd decode a h of
       (Inl e, h') \<Rightarrow> conclude sd decode a = Inl e \<and> h' = h
     | (Inr (Some x), h') \<Rightarrow> conclude sd decode a = Inr x \<and> (\<exists>r b. a = Inr (r, b) \<and> h' = h\<lparr>th_cached_bytes := Some b\<rparr>)
     | (Inr None, h') \<Rightarrow> False)"
  using assms
  by (auto simp: try_get_result_def conclude_def no_result_def split: sum.splits get_result_error.splits prod.splits)

definition expired :: "duration option \<Rightarrow> duration \<Rightarrow> bool" where
  "expired timeout e \<longleftrightarrow> (\<exists>t. timeout = Some t \<and> t \<le> e)"

text \<open>The loop returns the first conclusive answer that comes before the deadline.\<close>

lemma get_loop_answers:
  assumes "\<forall>j<k. no_result (answers (i + j))" and "\<not> no_result (answers (i + k))"
    and "\<forall>j\<le>k. \<not> expired timeout (elapsed (i + j))" and "k < fuel"
  shows "\<exists>h'. get_loop sd decode answers elapsed timeout fuel i h = Some (conclude sd decode (answers (i + k)), h')"
  using assms
proof (induction k arbitrary: i fuel)
  case 0
  then obtain f where f: "fuel = Suc f" by (cases fuel) auto
  from 0 have ne: "\<not> expired timeout (elapsed i)" and c: "\<not> no_result (answers i)" by auto
  from try_conclusive [OF c, of sd decode h] ne show ?case
    by (auto simp: f expired_def split: option.splits prod.splits sum.splits)
next
  case (Suc k)
  then obtain f where f: "fuel = Suc f" by (cases fuel) auto
  have ne: "\<not> expired timeout (elapsed i)" using Suc.prems(3) by (metis add_0_right le0)
  have n: "no_result (answers i)" using Suc.prems(1) by (metis add_0_right zero_less_Suc)
  have "\<exists>h'. get_loop sd decode answers elapsed timeout f (i + 1) h = Some (conclude sd decode (answers (i + 1 + k)), h')"
  proof (rule Suc.IH)
    show "\<forall>j<k. no_result (answers (i + 1 + j))"
      using Suc.prems(1) by (metis Suc_less_eq add.assoc plus_1_eq_Suc)
    show "\<not> no_result (answers (i + 1 + k))" using Suc.prems(2) by simp
    show "\<forall>j\<le>k. \<not> expired timeout (elapsed (i + 1 + j))"
      using Suc.prems(3) by (metis Suc_le_mono add.assoc plus_1_eq_Suc)
    show "k < f" using Suc.prems(4) f by simp
  qed
  with ne n show ?case by (simp add: f expired_def try_no_result split: option.splits)
qed

lemma get_loop_times_out:
  assumes "\<forall>j<k. no_result (answers (i + j))" and "\<forall>j<k. \<not> expired timeout (elapsed (i + j))"
    and "expired timeout (elapsed (i + k))" and "k < fuel"
  shows "get_loop sd decode answers elapsed timeout fuel i h = Some (Inl TimedOut, h)"
  using assms
proof (induction k arbitrary: i fuel)
  case 0
  then obtain f where f: "fuel = Suc f" by (cases fuel) auto
  with 0 show ?case by (auto simp: expired_def)
next
  case (Suc k)
  then obtain f where f: "fuel = Suc f" by (cases fuel) auto
  have ne: "\<not> expired timeout (elapsed i)" using Suc.prems(2) by (metis add_0_right zero_less_Suc)
  have n: "no_result (answers i)" using Suc.prems(1) by (metis add_0_right zero_less_Suc)
  have "get_loop sd decode answers elapsed timeout f (i + 1) h = Some (Inl TimedOut, h)"
  proof (rule Suc.IH)
    show "\<forall>j<k. no_result (answers (i + 1 + j))"
      using Suc.prems(1) by (metis Suc_less_eq add.assoc plus_1_eq_Suc)
    show "\<forall>j<k. \<not> expired timeout (elapsed (i + 1 + j))"
      using Suc.prems(2) by (metis Suc_less_eq add.assoc plus_1_eq_Suc)
    show "expired timeout (elapsed (i + 1 + k))" using Suc.prems(3) by simp
    show "k < f" using Suc.prems(4) f by simp
  qed
  with ne n show ?case by (simp add: f expired_def try_no_result split: option.splits)
qed

text \<open>The naps add up: ten of them are past the ramp, and each later one is a second.\<close>

lemma nap_ramp: "10 \<le> i \<Longrightarrow> nap i = nanos_per_sec"
  by (simp add: nap_def min_def)

lemma elapsed_grows:
  assumes "\<forall>i. elapsed i + nap i \<le> elapsed (Suc i)"
  shows "k * nanos_per_sec \<le> elapsed (10 + k)"
proof (induction k)
  case (Suc k)
  have "elapsed (10 + k) + nap (10 + k) \<le> elapsed (Suc (10 + k))" using assms by blast
  with Suc nap_ramp [of "10 + k"] show ?case by simp
qed simp

end
