(* ===== verification/Kit.thy ===== *)
theory Kit imports Runtime Task_Result begin

section \<open>The kit (src/src/kit.rs)\<close>

text \<open>
  The entry points of an application: starting a runtime, queueing tasks, result handles and control
  events.  \<open>fresh\<close> is the generated task id and \<open>now\<close> the clock reading of \<open>TaskInfo::init\<close>;
  \<open>send\<close> is the event bridge's \<open>send_event\<close>.
\<close>

datatype initiate_task_error = Encode | InitiateBackend backend_error

definition kit_start ::
  "(task_group \<times> nat) list \<Rightarrow> (scheduler_name \<times> ('dt, 'tz) schedule_entry list) list \<Rightarrow> 'tz option
   \<Rightarrow> polling_interval \<Rightarrow> bool \<Rightarrow> receive_events_error + unit \<Rightarrow> control_event option list \<Rightarrow> bool
   \<Rightarrow> ('dt, 'tz) run_state" where
  "kit_start concurrency schedules tzinfo polling helper_services receiver evs ctrl_c =
     (case runtime_new concurrency schedules tzinfo polling helper_services of
        None \<Rightarrow> RunPanicked
      | Some rt \<Rightarrow> runtime_run rt receiver evs ctrl_c)"

definition initiate_task ::
  "'s task_backend \<Rightarrow> ('i, 'o) task \<Rightarrow> timestamp \<Rightarrow> task_id \<Rightarrow> 'i \<Rightarrow> timestamp option \<Rightarrow> ttl option \<Rightarrow> 's
   \<Rightarrow> (initiate_task_error + task_result) \<times> 's" where
  "initiate_task B T now fresh input due ttl s =
     (case prepare T now fresh input due ttl of
        Inl e \<Rightarrow> (Inl Encode, s)
      | Inr r \<Rightarrow>
          (let i = tr_id r
           in case tb_put_tasks B [r] s of
                (Inl e, s') \<Rightarrow> (Inl (InitiateBackend e), s')
              | (Inr u, s') \<Rightarrow> (Inr (task_result_new i), s')))"

definition initiate_tasks :: "'s task_backend \<Rightarrow> task_record list \<Rightarrow> 's \<Rightarrow> (backend_error + unit) \<times> 's" where
  "initiate_tasks B tasks s = tb_put_tasks B tasks s"

definition kit_get_result :: "task_id \<Rightarrow> task_result" where
  "kit_get_result i = task_result_new i"

definition send_shutdown_event ::
  "(control_event \<Rightarrow> 's \<Rightarrow> (send_event_error + unit) \<times> 's) \<Rightarrow> task_group list option \<Rightarrow> 's
   \<Rightarrow> (send_event_error + unit) \<times> 's" where
  "send_shutdown_event send groups s = send (Shutdown groups) s"

definition send_pause_event ::
  "(control_event \<Rightarrow> 's \<Rightarrow> (send_event_error + unit) \<times> 's) \<Rightarrow> task_group list option \<Rightarrow> 's
   \<Rightarrow> (send_event_error + unit) \<times> 's" where
  "send_pause_event send groups s = send (Pause groups) s"

definition send_resume_event ::
  "(control_event \<Rightarrow> 's \<Rightarrow> (send_event_error + unit) \<times> 's) \<Rightarrow> task_group list option \<Rightarrow> 's
   \<Rightarrow> (send_event_error + unit) \<times> 's" where
  "send_resume_event send groups s = send (Resume groups) s"

context task_store begin

text \<open>A task is either queued as asked, with a handle on it, or nothing has changed.\<close>

lemma initiate_task_law:
  assumes "inv s" and "initiate_task B T now fresh input due ttl s = (res, s')"
  shows "inv s' \<and> sched s' = sched s \<and>
    (case res of
       Inl e \<Rightarrow> view s' = view s
     | Inr h \<Rightarrow> th_task_id h = fresh \<and> th_cached_bytes h = None \<and>
         (\<exists>d. encode_input T input = Inr d \<and>
            view s' = spec_put (new_record (init now fresh (t_group T) (t_name T) due None
              (case ttl of Some t \<Rightarrow> t | None \<Rightarrow> default_task_ttl)) d) (view s)))"
proof (cases "prepare T now fresh input due ttl")
  case (Inl e)
  with assms show ?thesis by (auto simp: initiate_task_def)
next
  case (Inr r)
  obtain u s1 where p: "tb_put_tasks B [r] s = (u, s1)" by fastforce
  from Inr have r: "\<exists>d. encode_input T input = Inr d \<and> r = new_record (init now fresh (t_group T) (t_name T) due None
      (case ttl of Some t \<Rightarrow> t | None \<Rightarrow> default_task_ttl)) d"
    by (auto simp: prepare_def Let_def split: sum.splits)
  with put_law [OF assms(1) p] Inr p assms(2) show ?thesis
    by (cases u) (auto simp: initiate_task_def Let_def spec_put_all_def task_result_new_def init_def init_with_id_def)
qed

end

end
