(* ===== verification/Memory_Contract.thy ===== *)
theory Memory_Contract imports Memory_Facts Scheduler_Facts Kit begin

section \<open>The in-process backend meets the contract\<close>

text \<open>
  The interpretation of the contract of \<open>Backend_Api\<close> on \<open>MemoryBackend\<close>, after the theories of the
  clients, so that everything they prove inside the locales holds of this backend as \<open>mem\<close>.
\<close>

lemma workers_discard: "st_workers (discard_tasks ids st) = st_workers st"
  unfolding discard_tasks_def by (induction ids arbitrary: st) simp_all

interpretation mem: cluster memory_tasks mb_inv mb_view mb_sched memory_workers mb_workers
  memory_locks mb_expiry
proof (unfold_locales, goal_cases)
  case (1 s rs res s')
  then show ?case by (auto simp: memory_tasks_def on_state_def view_put_tasks wf_mem_put_tasks)
next
  case (2 s r res s')
  then show ?case by (auto simp: memory_tasks_def on_state_def view_retry wf_mem_retry)
next
  case (3 s ids res s')
  then show ?case by (auto simp: memory_tasks_def on_state_def view_discard wf_mem_discard)
next
  case (4 s name data rs res s')
  then show ?case by (auto simp: memory_tasks_def on_state_def persist_spec)
next
  case (5 s name d)
  then show ?case by (simp add: memory_tasks_def get_scheduler_state_def)
next
  case (6 s ids os)
  then show ?case by (simp add: memory_tasks_def lookup_view)
next
  case (7 s now g w limit rs s')
  then show ?case using assign_law_memory [of s now g w limit rs s'] by (simp add: memory_tasks_def)
next
  case (8 s now r b res s')
  then show ?case by (auto simp: memory_tasks_def on_state_def view_succeed wf_mem_succeed)
next
  case (9 s now r b res s')
  then show ?case by (auto simp: memory_tasks_def on_state_def view_fail wf_mem_fail)
next
  case (10 s si res s')
  then show ?case by (auto simp: memory_tasks_def on_state_def view_restore wf_mem_restore)
next
  case (11 s i out)
  then show ?case by (simp add: memory_tasks_def get_result_view)
next
  case (12 s ws t res s')
  then show ?case using set_worker_ttl_spec [of "mb_state s" ws t]
    by (auto simp: memory_workers_def on_state_def)
next
  case (13 s l)
  then show ?case by (auto simp: memory_workers_def get_workers_def wf_mem_def)
next
  case (14 s ws res s')
  then show ?case using purge_workers_spec [of "mb_state s" ws]
    by (auto simp: memory_workers_def on_state_def)
next
  case (15 s n sis)
  then have sis: "sis = get_stage_info n (mb_state s)" and wf: "wf_mem (mb_state s)"
    by (auto simp: memory_tasks_def)
  show ?case using get_stage_info_spec [OF wf sis] by blast
next
  case (16 s now n ids)
  then have ids: "ids = get_disposable_task_ids now n (mb_state s)" and wf: "wf_mem (mb_state s)"
    by (auto simp: memory_tasks_def)
  show ?case using disposable_spec [OF wf ids] by blast
next
  case (17 s i t)
  then show ?case by (rule expiry_finished)
next
  case (18 s ids res s')
  then show ?case by (auto simp: memory_tasks_def on_state_def workers_discard)
next
  case (19 s si res s')
  then show ?case by (auto simp: memory_tasks_def on_state_def mem_restore_def split: option.splits)
next
  case (20 s ws t res s')
  then show ?case by (auto simp: memory_workers_def on_state_def set_worker_ttl_def mem_view_def
        split: prod.splits)
next
  case (21 s ws res s')
  then show ?case by (auto simp: memory_workers_def on_state_def purge_workers_def mem_view_def)
next
  case (22 s l ok l' s')
  then show ?case
    by (auto simp: memory_locks_def mem_acquire_def Let_def split: if_splits)
next
  case (23 s l l' s')
  then show ?case
    by (auto simp: memory_locks_def mem_release_def split: if_splits)
next
  case (24 s l s')
  then show ?case by (auto simp: memory_locks_def mem_drop_def)
qed

interpretation mem_rel: reliable_backend memory_tasks mb_inv mb_view mb_sched
proof (unfold_locales, goal_cases)
  case (1 s now g w n)
  then show ?case by (auto simp: memory_tasks_def memory_assign_tasks_def Let_def split: option.splits)
qed (simp_all add: memory_tasks_def on_state_def)

end
