(* ===== verification/Memory_Runs.thy ===== *)
theory Memory_Runs imports Memory_Facts begin

section \<open>Properties of the in-process backend\<close>

text \<open>
  Runs of operations against \<open>MemoryBackend\<close> and what holds of every one of them: refinement of
  the abstract store, exclusive claims, independence of hash map order, lock exclusion, and
  the life of a result.  The sample states at the end of a subsection serve the witnesses.
\<close>

subsection \<open>Runs of operations\<close>

text \<open>
  Every state-changing operation of the three traits as a value, so that a run of the backend
  is a list.  The set given to \<open>set_worker_ttl\<close> has no repetitions, as a \<open>HashSet\<close> has none.
\<close>

datatype mem_op =
    OpPut "task_record list"
  | OpAssign timestamp string worker_id nat
  | OpRetry task_record
  | OpDiscard "task_id list"
  | OpSucceed timestamp task_record bytes
  | OpFail timestamp task_record bytes
  | OpRestore stage_info
  | OpPersist scheduler_name bytes "task_record list"
  | OpSetTtl "worker_id list" timestamp
  | OpPurge "worker_id list"

fun mem_exec :: "mem_op \<Rightarrow> mem_state \<Rightarrow> mem_state" where
  "mem_exec (OpPut rs) st = put_tasks rs st"
| "mem_exec (OpAssign now g w n) st =
     (case assign_tasks now g w n st of None \<Rightarrow> st | Some (rs, st') \<Rightarrow> st')"
| "mem_exec (OpRetry r) st = retry_task r st"
| "mem_exec (OpDiscard ids) st = discard_tasks ids st"
| "mem_exec (OpSucceed now r b) st = mem_succeed now r b st"
| "mem_exec (OpFail now r b) st = mem_fail now r b st"
| "mem_exec (OpRestore si) st = mem_restore si st"
| "mem_exec (OpPersist n d rs) st = persist_scheduler_state_and_put_tasks n d rs st"
| "mem_exec (OpSetTtl ws t) st = set_worker_ttl (remdups ws) t st"
| "mem_exec (OpPurge ws) st = purge_workers ws st"

definition mem_run :: "mem_op list \<Rightarrow> mem_state \<Rightarrow> mem_state" where
  "mem_run ops st = fold mem_exec ops st"

lemma mem_run_simps [simp]: "mem_run [] st = st" "mem_run (op # ops) st = mem_run ops (mem_exec op st)"
  by (simp_all add: mem_run_def)

fun spec_op :: "mem_op \<Rightarrow> tview \<Rightarrow> tview \<Rightarrow> bool" where
  "spec_op (OpPut rs) v v' \<longleftrightarrow> v' = spec_put_all rs v"
| "spec_op (OpAssign now g w n) v v' \<longleftrightarrow>
     (\<exists>rs. good_batch now g n v rs \<and> v' = spec_assign now w rs v)"
| "spec_op (OpRetry r) v v' \<longleftrightarrow> v' = spec_retry r v"
| "spec_op (OpDiscard ids) v v' \<longleftrightarrow> v' = spec_discard ids v"
| "spec_op (OpSucceed now r b) v v' \<longleftrightarrow> v' = spec_finish r (Succeeded b) v"
| "spec_op (OpFail now r b) v v' \<longleftrightarrow> v' = spec_finish r (Failed (from_utf8_lossy b)) v"
| "spec_op (OpRestore si) v v' \<longleftrightarrow> v' = spec_restore (si_task_id si) v"
| "spec_op (OpPersist n d rs) v v' \<longleftrightarrow> v' = spec_put_all rs v"
| "spec_op (OpSetTtl ws t) v v' \<longleftrightarrow> v' = v"
| "spec_op (OpPurge ws) v v' \<longleftrightarrow> v' = v"

inductive spec_run :: "mem_op list \<Rightarrow> tview \<Rightarrow> tview \<Rightarrow> bool" where
  finished: "spec_run [] v v"
| step: "spec_op op v v1 \<Longrightarrow> spec_run ops v1 v2 \<Longrightarrow> spec_run (op # ops) v v2"

inductive_simps spec_run_simps: "spec_run [] v w" "spec_run (op # ops) v w"

lemma view_cong: "st_tasks st' = st_tasks st \<Longrightarrow> mem_view st' = mem_view st"
  by (simp add: mem_view_def fun_eq_iff)

lemma mem_exec_refines:
  assumes "wf_mem st"
  shows "wf_mem (mem_exec op st) \<and> spec_op op (mem_view st) (mem_view (mem_exec op st))"
proof (cases op)
  case (OpAssign now g w n)
  then show ?thesis using assign_tasks_spec [OF assms, of now g w n] by auto
next
  case (OpPersist n d rs)
  then show ?thesis using persist_spec [of st n d rs] assms by simp
next
  case (OpSetTtl ws t)
  then show ?thesis
    using set_worker_ttl_spec [OF assms, of "remdups ws" t]
      view_cong [of "set_worker_ttl (remdups ws) t st" st] by simp
next
  case (OpPurge ws)
  then show ?thesis
    using purge_workers_spec [of st ws] assms view_cong [of "purge_workers ws st" st] by simp
next
  case (OpRestore si)
  with assms show ?thesis by (simp add: wf_mem_restore view_restore)
qed (use assms in \<open>simp_all add: wf_mem_put_tasks view_put_tasks wf_mem_retry view_retry wf_mem_discard
      view_discard wf_mem_succeed view_succeed wf_mem_fail view_fail\<close>)

lemma mem_run_refines:
  "wf_mem st \<Longrightarrow> wf_mem (mem_run ops st) \<and> spec_run ops (mem_view st) (mem_view (mem_run ops st))"
proof (induction ops arbitrary: st)
  case (Cons op ops)
  from mem_exec_refines [OF Cons.prems, of op] Cons.IH [of "mem_exec op st"]
  show ?case unfolding spec_run_simps mem_run_simps by blast
qed (simp add: spec_run_simps)

lemma view_default [simp]: "mem_view state_default = Map.empty"
  by (simp add: mem_view_def state_default_def fun_eq_iff)

text \<open>
  C1: Whatever sequence of put, assign, retry, discard, succeed, fail, restore, persist and
  worker operations a new \<open>MemoryBackend\<close> serves, its state stays well formed (unique ids and
  sequence numbers, every entry exactly one of queued, assigned and finished) and the store its
  clients observe evolves exactly as the abstract contract prescribes, operation by operation (in
  particular every batch of \<open>assign_tasks\<close> is the one the trait documents); and \<open>assign_tasks\<close> never
  hits its \<open>expect\<close>.
\<close>

theorem memory_run_refines_contract:
  "wf_mem (mem_run ops state_default) \<and>
   spec_run ops Map.empty (mem_view (mem_run ops state_default)) \<and>
   assign_tasks now g w limit (mem_run ops state_default) \<noteq> None"
  using mem_run_refines [OF wf_mem_default, of ops]
    assign_tasks_spec [of "mem_run ops state_default" now g w limit] by auto

subsection \<open>Exclusive claims\<close>

text \<open>The operations that may make a claimed task claimable again.\<close>

fun frees :: "task_id \<Rightarrow> mem_op \<Rightarrow> bool" where
  "frees i (OpRetry r) \<longleftrightarrow> tr_id r = i"
| "frees i (OpDiscard ids) \<longleftrightarrow> i \<in> set ids"
| "frees i (OpRestore si) \<longleftrightarrow> si_task_id si = i"
| "frees i _ \<longleftrightarrow> False"

definition taken :: "task_id \<Rightarrow> tview \<Rightarrow> bool" where
  "taken i v \<longleftrightarrow> (\<exists>r s. v i = Some (r, s) \<and> s \<noteq> Queued)"

lemma taken_not_claimable: "taken i v \<Longrightarrow> claimable now g v r \<Longrightarrow> tr_id r \<noteq> i"
  by (auto simp: taken_def claimable_def)

lemma spec_op_taken:
  assumes "spec_op op v v'" and "taken i v" and "\<not> frees i op"
  shows "taken i v'"
proof (cases op)
  case (OpAssign now g w n)
  with assms(1) obtain rs where "good_batch now g n v rs" and v': "v' = spec_assign now w rs v" by auto
  then have "\<forall>r\<in>set rs. tr_id r \<noteq> i"
    using taken_not_claimable [OF assms(2)] by (auto simp: good_batch_def)
  then have "v' i = v i" unfolding v' by (intro spec_assign_other) auto
  with assms(2) show ?thesis by (simp add: taken_def)
qed (use assms in \<open>auto simp: taken_def spec_put_all_keeps spec_retry_def spec_discard_def
      spec_finish_def spec_restore_def split: option.splits status.splits\<close>)

lemma mem_run_taken:
  assumes "wf_mem st" and "taken i (mem_view st)" and "\<forall>op\<in>set ops. \<not> frees i op"
  shows "wf_mem (mem_run ops st) \<and> taken i (mem_view (mem_run ops st))"
  using assms
proof (induction ops arbitrary: st)
  case (Cons op ops)
  from mem_exec_refines [OF Cons.prems(1), of op] have "wf_mem (mem_exec op st)"
    and "taken i (mem_view (mem_exec op st))"
    using spec_op_taken Cons.prems(2,3) by auto
  with Cons show ?case by simp
qed simp

text \<open>
  C6: A task handed to a worker is not handed out again, to any worker, at any later time, by
  any sequence of operations, unless one of them retries, restores or discards that task.
\<close>

theorem memory_claims_exclusive:
  assumes "wf_mem st" and "assign_tasks t1 g1 w1 n1 st = Some (rs1, st1)" and "r \<in> set rs1"
    and "\<forall>op\<in>set ops. \<not> frees (tr_id r) op"
    and "assign_tasks t2 g2 w2 n2 (mem_run ops st1) = Some (rs2, st2)"
  shows "tr_id r \<notin> tr_id ` set rs2"
proof -
  from assign_tasks_spec [OF assms(1), of t1 g1 w1 n1] assms(2)
  have wf1: "wf_mem st1" and b: "good_batch t1 g1 n1 (mem_view st) rs1"
    and v: "mem_view st1 = spec_assign t1 w1 rs1 (mem_view st)" by auto
  have "mem_view st1 (tr_id r) = Some (r, Staged w1 t1)"
    unfolding v using b assms(3) by (intro spec_assign_in) (simp_all add: good_batch_def)
  then have "taken (tr_id r) (mem_view st1)" by (simp add: taken_def)
  from mem_run_taken [OF wf1 this assms(4)] have wf: "wf_mem (mem_run ops st1)"
    and t: "taken (tr_id r) (mem_view (mem_run ops st1))" by auto
  from assign_tasks_spec [OF wf, of t2 g2 w2 n2] assms(5)
  have "\<forall>q\<in>set rs2. claimable t2 g2 (mem_view (mem_run ops st1)) q" by (auto simp: good_batch_def)
  then have "\<forall>q\<in>set rs2. tr_id q \<noteq> tr_id r" using taken_not_claimable [OF t] by blast
  then show ?thesis by (metis (no_types, lifting) image_iff)
qed

definition sample_task :: "task_id \<Rightarrow> task_group \<Rightarrow> timestamp \<Rightarrow> task_record" where
  "sample_task i g due =
     \<lparr>tr_info = \<lparr>ti_id = i, ti_group = g, ti_name = ''n'', ti_due = due, ti_created = 0,
        ti_scheduled = None, ti_retry_count = 0, ti_ttl = 10 * nanos_per_sec\<rparr>, tr_data = ''d''\<rparr>"

lemmas mem_eval = put_tasks_def put_def next_seq_def state_default_def assign_tasks_def due_entries_def
  ordered_def sample_task_def entry_new_def is_queued_def due_key_def entry_record_def new_record_def
  Let_def mem_succeed_def mem_fail_def finish_def insort_key.simps

definition sample_state :: mem_state where
  "sample_state = put_tasks [sample_task ''b'' ''g'' 7, sample_task ''a'' ''g'' 5, sample_task ''c'' ''h'' 1] state_default"

lemma wf_sample_state: "wf_mem sample_state"
  by (simp add: sample_state_def wf_intros)

lemma sample_assign:
  "assign_tasks 6 ''g'' ''w'' 2 sample_state =
     Some ([sample_task ''a'' ''g'' 5],
       sample_state\<lparr>st_tasks := AList.update ''a''
         ((entry_new 2 (sample_task ''a'' ''g'' 5))\<lparr>e_began := Some 6, e_assignee := Some ''w''\<rparr>)
         (st_tasks sample_state)\<rparr>)"
  by (simp add: sample_state_def mem_eval)


theorem memory_claims_exclusive_witness:
  "''a'' \<notin> tr_id ` set [sample_task ''b'' ''g'' 7]"
proof -
  let ?st1 = "sample_state\<lparr>st_tasks := AList.update ''a''
      ((entry_new 2 (sample_task ''a'' ''g'' 5))\<lparr>e_began := Some 6, e_assignee := Some ''w''\<rparr>)
      (st_tasks sample_state)\<rparr>"
  have "\<exists>st2. assign_tasks 9 ''g'' ''v'' 5 (mem_run [OpPut [sample_task ''a'' ''g'' 5]] ?st1) =
      Some ([sample_task ''b'' ''g'' 7], st2)"
    by (simp add: sample_state_def mem_eval)
  then obtain st2 where "assign_tasks 9 ''g'' ''v'' 5 (mem_run [OpPut [sample_task ''a'' ''g'' 5]] ?st1) =
      Some ([sample_task ''b'' ''g'' 7], st2)" by blast
  from memory_claims_exclusive [OF wf_sample_state sample_assign _ _ this, of "sample_task ''a'' ''g'' 5"]
  show ?thesis by (simp add: sample_task_def)
qed

text \<open>
  \<open>assign_tasks\<close> never hits its \<open>expect\<close>, and the batch it returns is what the trait
  documents: at most \<open>limit\<close> tasks of the group, all due, in due order and before anything left
  behind, with a short batch meaning that no due task is left; exactly these tasks change, and
  become assigned to the worker since \<open>now\<close>.
\<close>

theorem memory_assign_contract:
  assumes "wf_mem st"
  shows "\<exists>rs st'. assign_tasks now g w limit st = Some (rs, st') \<and>
     good_batch now g limit (mem_view st) rs \<and> mem_view st' = spec_assign now w rs (mem_view st)"
  using assign_tasks_spec [OF assms, of now g w limit] by blast

theorem memory_assign_contract_witness:
  "good_batch 6 ''g'' 2 (mem_view sample_state) [sample_task ''a'' ''g'' 5]"
  using memory_assign_contract [OF wf_sample_state, of 6 "''g''" "''w''" 2] sample_assign by auto

subsection \<open>Hash map order\<close>

lemma same_tasks_map_of:
  assumes "wf_mem st" and "same_tasks st st'"
  shows "map_of (st_tasks st) = map_of (st_tasks st')"
proof (rule map_of_eqI)
  have "distinct (map fst (st_tasks st))" using assms(1) by (simp add: wf_mem_def)
  moreover have "mset (map fst (st_tasks st)) = mset (map fst (st_tasks st'))"
    using assms(2) by (simp add: same_tasks_def)
  ultimately have d': "distinct (map fst (st_tasks st'))" by (metis mset_eq_imp_distinct_iff)
  have s: "set (st_tasks st) = set (st_tasks st')"
    using assms(2) unfolding same_tasks_def by (rule mset_eq_setD)
  then show "set (map fst (st_tasks st)) = set (map fst (st_tasks st'))" by simp
  show "\<forall>k\<in>set (map fst (st_tasks st)). map_of (st_tasks st) k = map_of (st_tasks st') k"
    using \<open>distinct (map fst (st_tasks st))\<close> d' s
    by (metis map_of_eq_None_iff map_of_eq_Some_iff not_None_eq)
qed

text \<open>
  C14: The iteration order of the task \<open>HashMap\<close>, which Rust randomises per process, never shows:
  two states with the same entries in different orders give the same queue, the same stage
  report, the same finished and disposable ids, the same lookups and the same assigned batch,
  because ties in time are broken by the unique \<open>seq\<close>.
\<close>

theorem memory_queries_ignore_map_order:
  assumes "wf_mem st" and "wf_mem st'" and "same_tasks st st'"
  shows "get_queued_tasks g n st = get_queued_tasks g n st' \<and>
    get_stage_info n st = get_stage_info n st' \<and>
    get_done_task_ids now since til n st = get_done_task_ids now since til n st' \<and>
    get_disposable_task_ids now n st = get_disposable_task_ids now n st' \<and>
    lookup_tasks ids st = lookup_tasks ids st' \<and>
    map_option fst (assign_tasks now g w n st) = map_option fst (assign_tasks now g w n st')"
proof -
  note ord = ordered_same_tasks [OF assms(1,3)]
  have "due_entries now g n st = due_entries now g n st'" by (simp add: due_entries_def ord)
  then have "map_option fst (assign_tasks now g w n st) = map_option fst (assign_tasks now g w n st')"
    using assign_tasks_spec [OF assms(1), of now g w n] assign_tasks_spec [OF assms(2), of now g w n]
    by auto
  moreover have "lookup_tasks ids st = lookup_tasks ids st'"
    by (simp add: lookup_tasks_def same_tasks_map_of [OF assms(1,3)])
  ultimately show ?thesis
    by (simp add: get_queued_tasks_def get_stage_info_def get_done_task_ids_def
        get_disposable_task_ids_def ord sort_values_unique [OF assms(1,3)])
qed

theorem memory_queries_ignore_map_order_witness:
  "get_queued_tasks ''g'' 5 sample_state =
     get_queued_tasks ''g'' 5 (sample_state\<lparr>st_tasks := rev (st_tasks sample_state)\<rparr>) \<and>
   st_tasks sample_state \<noteq> rev (st_tasks sample_state)"
proof
  let ?st = "sample_state\<lparr>st_tasks := rev (st_tasks sample_state)\<rparr>"
  have same: "same_tasks sample_state ?st" by (simp add: same_tasks_def)
  have d: "distinct (map fst (st_tasks sample_state))" using wf_sample_state by (simp add: wf_mem_def)
  then have "map_of (st_tasks ?st) = map_of (st_tasks sample_state)"
    using same_tasks_map_of [OF wf_sample_state same] by simp
  with d have "wf_mem ?st" using wf_sample_state by (simp add: wf_mem_def rev_map [symmetric])
  from memory_queries_ignore_map_order [OF wf_sample_state this same]
  show "get_queued_tasks ''g'' 5 sample_state = get_queued_tasks ''g'' 5 ?st" by blast
  show "st_tasks sample_state \<noteq> rev (st_tasks sample_state)"
    by (simp add: sample_state_def mem_eval)
qed

subsection \<open>Lock exclusion\<close>

text \<open>
  C10: However lock handles are opened, acquired, released and dropped, no two live handles on
  the same target hold the lock at once, and a target is marked held in the backend exactly
  while some live handle holds it (so a dropped handle never leaves it locked).
\<close>

theorem memory_lock_exclusive:
  assumes "lock_run ls st"
  shows "(\<forall>m n. m < length ls \<longrightarrow> n < length ls \<longrightarrow> ml_held (ls ! m) \<longrightarrow> ml_held (ls ! n) \<longrightarrow>
       ml_target (ls ! m) = ml_target (ls ! n) \<longrightarrow> m = n) \<and>
     st_held_locks st = {ml_target l |l. l \<in> set ls \<and> ml_held l}"
proof -
  from lock_run_ok [OF assms] have d: "distinct (held_targets ls)"
    and s: "set (held_targets ls) = st_held_locks st" by (auto simp: locks_ok_def)
  have no: "\<not> (m < n \<and> n < length ls \<and> ml_held (ls ! m) \<and> ml_held (ls ! n) \<and>
      ml_target (ls ! m) = ml_target (ls ! n))" for m n
  proof
    assume a: "m < n \<and> n < length ls \<and> ml_held (ls ! m) \<and> ml_held (ls ! n) \<and>
      ml_target (ls ! m) = ml_target (ls ! n)"
    then have n: "ls ! n \<in> set (drop (Suc m) ls)"
      by (auto simp: in_set_conv_nth intro!: exI [of _ "n - Suc m"])
    have "held_targets ls = held_targets (take m ls @ ls ! m # drop (Suc m) ls)"
      using a split_at [of m ls] by simp
    with d have "distinct (held_targets (take m ls @ ls ! m # drop (Suc m) ls))" by metis
    with a have "ml_target (ls ! m) \<notin> set (held_targets (drop (Suc m) ls))" by simp
    moreover have "ml_target (ls ! n) \<in> set (held_targets (drop (Suc m) ls))"
      using n a by (auto simp: held_targets_def)
    ultimately show False using a by simp
  qed
  then have "\<forall>m n. m < length ls \<longrightarrow> n < length ls \<longrightarrow> ml_held (ls ! m) \<longrightarrow> ml_held (ls ! n) \<longrightarrow>
       ml_target (ls ! m) = ml_target (ls ! n) \<longrightarrow> m = n"
    by (metis linorder_neqE_nat)
  moreover have "st_held_locks st = {ml_target l |l. l \<in> set ls \<and> ml_held l}"
    unfolding s [symmetric] held_targets_def by auto
  ultimately show ?thesis by blast
qed

theorem memory_lock_exclusive_witness:
  "\<exists>ls st. lock_run ls st \<and> ls = [\<lparr>ml_target = ''t'', ml_held = True\<rparr>, \<lparr>ml_target = ''t'', ml_held = False\<rparr>] \<and>
     st_held_locks st = {''t''}"
proof -
  have a: "lock_run ([] @ [get_lock ''t'']) state_default" by (intro lock_run.open_lock lock_run.start)
  then have b: "lock_run ([\<lparr>ml_target = ''t'', ml_held = False\<rparr>] @ [get_lock ''t'']) state_default"
    by (intro lock_run.open_lock) (simp add: get_lock_def)
  have "lock_run (([\<lparr>ml_target = ''t'', ml_held = False\<rparr>] @ [get_lock ''t''])[0 := \<lparr>ml_target = ''t'', ml_held = True\<rparr>])
      (state_default\<lparr>st_held_locks := {''t''}\<rparr>)"
    by (rule lock_run.acquire [OF b, of 0 True])
      (simp_all add: mem_acquire_def state_default_def)
  from this memory_lock_exclusive [OF this] show ?thesis
    by (intro exI [of _ "[\<lparr>ml_target = ''t'', ml_held = True\<rparr>, \<lparr>ml_target = ''t'', ml_held = False\<rparr>]"]
        exI [of _ "state_default\<lparr>st_held_locks := {''t''}\<rparr>"]) (simp add: get_lock_def)
qed

subsection \<open>Results\<close>

text \<open>
  C12: \<open>get_result\<close> answers with the latest outcome: after \<open>succeed\<close> the result given to it, after
  \<open>fail\<close> the lossily decoded message, whatever the task's state was before, with the record
  the backend already had or, for an unknown task, the one it was given.
\<close>

theorem memory_result_latest:
  fixes r :: task_record
  assumes "wf_mem st"
  defines "kept \<equiv> (case map_of (st_tasks st) (tr_id r) of Some e \<Rightarrow> entry_record e | None \<Rightarrow> r)"
  shows "get_result (tr_id r) (mem_succeed now r b st) = Inr (kept, b) \<and>
    get_result (tr_id r) (mem_fail now r b st) = Inl (GR_Failed kept (from_utf8_lossy b))"
  using get_result_view [OF wf_mem_succeed [OF assms(1)], of "tr_id r" now r b]
    get_result_view [OF wf_mem_fail [OF assms(1)], of "tr_id r" now r b]
  by (simp add: view_succeed view_fail spec_result_def spec_finish_def mem_view_def kept_def
      split: option.splits)

theorem memory_result_latest_witness:
  "get_result ''a'' (mem_succeed 8 (sample_task ''a'' ''g'' 5) ''ok'' sample_state) =
     Inr (sample_task ''a'' ''g'' 5, ''ok'')"
proof -
  have "map_of (st_tasks sample_state) ''a'' = Some (entry_new 2 (sample_task ''a'' ''g'' 5))"
    by (simp add: sample_state_def mem_eval)
  with memory_result_latest [OF wf_sample_state, of "sample_task ''a'' ''g'' 5" 8 "''ok''"]
  show ?thesis by (simp add: sample_task_def)
qed

lemma finish_expiry:
  assumes "wf_mem st" and "map_of (st_tasks st) (tr_id r) = Some e"
  shows "mem_expiry (finish now r res err st) (tr_id r) =
    Some (ts_add_duration now (ttl_as_duration (ti_ttl (e_info e))))"
  using assms(2) by (simp add: finish_def Let_def put_cases mem_expiry_def update_conv')

text \<open>
  C13: A finished task is offered for disposal only once its time-to-live, counted from the
  moment it finished, has passed; and from then on every report that has room offers it.
\<close>

theorem memory_result_kept_for_ttl:
  fixes r :: task_record and now t :: timestamp and b :: bytes and n :: nat and e :: entry
  assumes "wf_mem st" and "map_of (st_tasks st) (tr_id r) = Some e"
  defines "st' \<equiv> mem_succeed now r b st" and "ids \<equiv> get_disposable_task_ids t n (mem_succeed now r b st)"
    and "deadline \<equiv> ts_add_duration now (ttl_as_duration (ti_ttl (e_info e)))"
  shows "(tr_id r \<in> set ids \<longrightarrow> deadline < t) \<and>
    (deadline < t \<longrightarrow> length ids < n \<longrightarrow> tr_id r \<in> set ids)"
proof -
  have wf: "wf_mem st'" unfolding st'_def using assms(1) by (rule wf_mem_succeed)
  have ex: "mem_expiry st' (tr_id r) = Some deadline"
    using finish_expiry [OF assms(1,2)] by (simp add: st'_def mem_succeed_def deadline_def)
  have ids: "ids = get_disposable_task_ids t n st'" by (simp add: ids_def st'_def)
  show ?thesis
  proof (intro conjI impI)
    assume "tr_id r \<in> set ids"
    from disposable_spec(3) [OF wf ids this] ex show "deadline < t" by auto
  next
    assume "deadline < t" and "length ids < n"
    then show "tr_id r \<in> set ids" using disposable_spec(4) [OF wf ids _ ex] by blast
  qed
qed

theorem memory_result_kept_for_ttl_witness:
  "''a'' \<notin> set (get_disposable_task_ids 18 9 (mem_succeed 8 (sample_task ''a'' ''g'' 5) ''ok'' sample_state))"
proof -
  have "map_of (st_tasks sample_state) (tr_id (sample_task ''a'' ''g'' 5)) =
      Some (entry_new 2 (sample_task ''a'' ''g'' 5))"
    by (simp add: sample_state_def mem_eval)
  moreover have "ts_add_duration 8 (10 * nanos_per_sec) = 18"
    using duration_as_secs_f64_whole [of 10]
    by (simp add: ts_add_duration_def duration_from_secs_def fadd_def)
  ultimately show ?thesis
    using memory_result_kept_for_ttl [OF wf_sample_state, where r = "sample_task ''a'' ''g'' 5"
        and e = "entry_new 2 (sample_task ''a'' ''g'' 5)" and now = 8 and b = "''ok''" and t = 18 and n = 9]
    by (auto simp: sample_task_def ttl_as_duration_def)
qed

end
