(* ===== verification/Worker_Runs.thy ===== *)
theory Worker_Runs imports Memory_Contract Memory_Runs begin

section \<open>Properties of the workers\<close>

text \<open>
  What becomes of a task a worker handles on the in-process backend, on every branch; a task from
  submission to its result; and the waiting time of a retried task.
\<close>

lemma memory_ops_succeed:
  "tb_fail memory_tasks now r m b = (Inr (), b\<lparr>mb_state := mem_fail now r m (mb_state b)\<rparr>)"
  "tb_succeed memory_tasks now r m b = (Inr (), b\<lparr>mb_state := mem_succeed now r m (mb_state b)\<rparr>)"
  "tb_retry_task memory_tasks r b = (Inr (), b\<lparr>mb_state := retry_task r (mb_state b)\<rparr>)"
  "tb_discard_tasks memory_tasks ids b = (Inr (), b\<lparr>mb_state := discard_tasks ids (mb_state b)\<rparr>)"
  "tb_put_tasks memory_tasks rs b = (Inr (), b\<lparr>mb_state := put_tasks rs (mb_state b)\<rparr>)"
  "tb_restore memory_tasks si b = (Inr (), b\<lparr>mb_state := mem_restore si (mb_state b)\<rparr>)"
  by (simp_all add: memory_tasks_def on_state_def)

lemma handle_task_memory:
  assumes "mb_inv b"
  shows "mb_view (handle_task memory_tasks reg now r b) = spec_handle reg now r (mb_view b)"
proof -
  note view = view_fail view_succeed view_retry view_discard
  note defs = handle_task_def spec_handle_def verdict_of_def Let_def memory_ops_succeed view
    run_executor_def prevent_to_wait_result_def fatal_reason_def
  show ?thesis
  proof (cases "registry_get reg (ti_group (tr_info r)) (ti_name (tr_info r))")
    case None
    then show ?thesis by (simp add: defs del: from_utf8_lossy.simps)
  next
    case (Some ex)
    show ?thesis
    proof (cases "ex (tr_info r) (tr_data r)")
      case (Panicked p)
      with Some show ?thesis by (simp add: defs)
    next
      case (Returned res)
      show ?thesis
      proof (cases res)
        case (Inr out)
        with Some Returned show ?thesis by (simp add: defs)
      next
        case (Inl e)
        with Some Returned show ?thesis
          by (cases e) (simp_all add: defs worker_discard_task_def worker_retry_def)
      qed
    qed
  qed
qed

lemma spec_handle_self:
  assumes "v (tr_id r) = Some (r, Staged w t)"
  defines "failed \<equiv> (\<lambda>m. Some (r, Failed (from_utf8_lossy m)))"
  shows "spec_handle reg now r v (tr_id r) =
      (case registry_get reg (ti_group (tr_info r)) (ti_name (tr_info r)) of
         None \<Rightarrow> failed (''No executor found for task type: '' @ ti_group (tr_info r) @ ''/'' @ ti_name (tr_info r))
       | Some ex \<Rightarrow>
           (case ex (tr_info r) (tr_data r) of
              Panicked p \<Rightarrow> failed (describe_panic p)
            | Returned (Inr out) \<Rightarrow> Some (r, Succeeded out)
            | Returned (Inl (Fatal m)) \<Rightarrow> failed (case m of Some s \<Rightarrow> s | None \<Rightarrow> ''Fatal error'')
            | Returned (Inl (Discard m)) \<Rightarrow> None
            | Returned (Inl (Retry m d)) \<Rightarrow>
                Some (\<lparr>tr_info = clone_for_retry now (tr_info r) d, tr_data = tr_data r\<rparr>, Queued)))"
proof -
  note defs = spec_handle_def verdict_of_def spec_finish_def spec_discard_def spec_retry_def assms(1)
    restrict_map_def new_record_def failed_def
  show ?thesis
  proof (cases "registry_get reg (ti_group (tr_info r)) (ti_name (tr_info r))")
    case None
    then show ?thesis by (simp add: defs del: from_utf8_lossy.simps)
  next
    case (Some ex)
    show ?thesis
    proof (cases "ex (tr_info r) (tr_data r)")
      case (Panicked p)
      with Some show ?thesis by (simp add: defs)
    next
      case (Returned res)
      show ?thesis
      proof (cases res)
        case (Inr out)
        with Some Returned show ?thesis by (simp add: defs)
      next
        case (Inl e)
        with Some Returned show ?thesis 
          by (cases e) (simp_all add: defs clone_for_retry_def)
      qed
    qed
  qed
qed

definition sample_staged :: memory_backend where
  "sample_staged = memory_new\<lparr>mb_state := sample_state\<lparr>st_tasks := AList.update ''a''
     ((entry_new 2 (sample_task ''a'' ''g'' 5))\<lparr>e_began := Some 6, e_assignee := Some ''w''\<rparr>)
     (st_tasks sample_state)\<rparr>\<rparr>"

lemma sample_staged: "mb_inv sample_staged \<and>
    mb_view sample_staged ''a'' = Some (sample_task ''a'' ''g'' 5, Staged ''w'' 6)"
proof -
  from assign_tasks_spec [OF wf_sample_state, of 6 "''g''" "''w''" 2] sample_assign
  have "mb_inv sample_staged"
    and v: "mb_view sample_staged = spec_assign 6 ''w'' [sample_task ''a'' ''g'' 5] (mem_view sample_state)"
    by (auto simp: sample_staged_def)
  moreover have "tr_id (sample_task ''a'' ''g'' 5) = ''a''" by (simp add: sample_task_def)
  ultimately show ?thesis by (simp add: spec_assign_def)
qed

text \<open>
  C18: A task that a worker handles never stays on the stage, whatever its handler does.  Output
  finishes it with that result; a fatal error, a panic or an unknown type finishes it as failed
  with its message; a discard removes it; a retry puts it back in the queue under the same id
  with the retry interval.  No other task is touched.
\<close>

theorem handled_task_settled:
  fixes reg :: task_registry and now :: timestamp
  assumes "mb_inv b" and "mb_view b (tr_id r) = Some (r, Staged w t)"
  defines "v \<equiv> mb_view (handle_task memory_tasks reg now r b)"
    and "failed \<equiv> (\<lambda>m. Some (r, Failed (from_utf8_lossy m)))"
  shows "(\<forall>i. i \<noteq> tr_id r \<longrightarrow> v i = mb_view b i) \<and>
    v (tr_id r) =
      (case registry_get reg (ti_group (tr_info r)) (ti_name (tr_info r)) of
         None \<Rightarrow> failed (''No executor found for task type: '' @ ti_group (tr_info r) @ ''/'' @ ti_name (tr_info r))
       | Some ex \<Rightarrow>
           (case ex (tr_info r) (tr_data r) of
              Panicked p \<Rightarrow> failed (describe_panic p)
            | Returned (Inr out) \<Rightarrow> Some (r, Succeeded out)
            | Returned (Inl (Fatal m)) \<Rightarrow> failed (case m of Some s \<Rightarrow> s | None \<Rightarrow> ''Fatal error'')
            | Returned (Inl (Discard m)) \<Rightarrow> None
            | Returned (Inl (Retry m d)) \<Rightarrow>
                Some (\<lparr>tr_info = clone_for_retry now (tr_info r) d, tr_data = tr_data r\<rparr>, Queued)))"
proof
  have v: "v = spec_handle reg now r (mb_view b)"
    unfolding v_def by (rule handle_task_memory [OF assms(1)])
  show "\<forall>i. i \<noteq> tr_id r \<longrightarrow> v i = mb_view b i" unfolding v by (simp add: spec_handle_other)
  show "v (tr_id r) = (case registry_get reg (ti_group (tr_info r)) (ti_name (tr_info r)) of
         None \<Rightarrow> failed (''No executor found for task type: '' @ ti_group (tr_info r) @ ''/'' @ ti_name (tr_info r))
       | Some ex \<Rightarrow>
           (case ex (tr_info r) (tr_data r) of
              Panicked p \<Rightarrow> failed (describe_panic p)
            | Returned (Inr out) \<Rightarrow> Some (r, Succeeded out)
            | Returned (Inl (Fatal m)) \<Rightarrow> failed (case m of Some s \<Rightarrow> s | None \<Rightarrow> ''Fatal error'')
            | Returned (Inl (Discard m)) \<Rightarrow> None
            | Returned (Inl (Retry m d)) \<Rightarrow>
                Some (\<lparr>tr_info = clone_for_retry now (tr_info r) d, tr_data = tr_data r\<rparr>, Queued)))"
    unfolding v failed_def by (rule spec_handle_self [where w = w and t = t]) (rule assms(2))
qed

theorem handled_task_settled_witness:
  "mb_view (handle_task memory_tasks new_registry 7 (sample_task ''a'' ''g'' 5) sample_staged) ''a'' =
     Some (sample_task ''a'' ''g'' 5, Failed (from_utf8_lossy ''No executor found for task type: g/n''))"
proof -
  have i: "tr_id (sample_task ''a'' ''g'' 5) = ''a''" by (simp add: sample_task_def)
  have "mb_view sample_staged (tr_id (sample_task ''a'' ''g'' 5)) = Some (sample_task ''a'' ''g'' 5, Staged ''w'' 6)"
    using sample_staged by (simp add: i)
  from handled_task_settled [OF conjunct1 [OF sample_staged] this, of new_registry 7] show ?thesis
    by (simp add: i del: from_utf8_lossy.simps) (simp add: sample_task_def del: from_utf8_lossy.simps)
qed

text \<open>
  C17: A task's journey.  If the codecs decode what they encode and the handler succeeds on the
  input, then a task prepared from that input, put, claimed by any worker of its group and
  handled by it has the handler's output as its result.
\<close>

theorem task_end_to_end:
  assumes "prepare T t0 fresh input due ttl = Inr r"
    and "\<forall>x d. encode_input T x = Inr d \<longrightarrow> decode_input T d = Inr x"
    and "\<forall>y d. encode_output T y = Inr d \<longrightarrow> decode_output T d = Inr y"
    and "t_handle T (tr_info r) input = Returned (Inr out)" and "encode_output T out = Inr ob"
    and "mb_inv b" and "mb_view b (tr_id r) = None"
    and "tb_put_tasks memory_tasks [r] b = (Inr (), b1)"
    and "worker_assign memory_tasks w t1 limit b1 = (rs, b2)" and "r \<in> set rs"
  shows "\<exists>d. tb_get_result memory_tasks (tr_id r) (handle_task memory_tasks (register T reg) t2 r b2) = Inr (r, d) \<and>
    decode_output T d = Inr out"
proof -
  from assms(1) have gn: "ti_group (tr_info r) = t_group T" "ti_name (tr_info r) = t_name T"
    by (auto simp: prepare_def Let_def init_def init_with_id_def split: sum.splits)
  from prepare_then_execute [OF assms(1)] assms(2,4,5)
  have "execute T (tr_info r) (tr_data r) = Returned (Inr ob)" by auto
  with gn have verdict: "verdict_of (register T reg) r = Finish (Succeeded ob)"
    by (simp add: verdict_of_def)
  from mem.put_law [OF assms(6,8)] have i1: "mb_inv b1" by simp
  from assms(10) have "rs \<noteq> []" by auto
  from mem.worker_assign_law [OF i1 assms(9) this] have i2: "mb_inv b2"
    and batch: "good_batch t1 (w_group w) limit (mb_view b1) rs"
    and v2: "mb_view b2 = spec_assign t1 (w_id w) rs (mb_view b1)" by auto
  have st: "mb_view b2 (tr_id r) = Some (r, Staged (w_id w) t1)"
    unfolding v2 using batch assms(10) by (intro spec_assign_in) (simp_all add: good_batch_def)
  let ?b3 = "handle_task memory_tasks (register T reg) t2 r b2"
  have "mb_view ?b3 = spec_finish r (Succeeded ob) (mb_view b2)"
    using handle_task_memory [OF i2] verdict by (simp add: spec_handle_def)
  then have "mb_view ?b3 (tr_id r) = Some (r, Succeeded ob)" by (simp add: spec_finish_def st)
  moreover have "mb_inv ?b3" using mem.handle_task_law [OF i2] by blast
  ultimately have "tb_get_result memory_tasks (tr_id r) ?b3 = Inr (r, ob)"
    using get_result_view [of "mb_state ?b3" "tr_id r"] by (simp add: memory_tasks_def spec_result_def)
  with assms(3,5) show ?thesis by blast
qed

definition sample_echo :: "(string, string) task" where
  "sample_echo = \<lparr>t_group = ''g'', t_name = ''n'', t_handle = (\<lambda>info x. Returned (Inr (x @ ''!''))),
     encode_input = Inr, decode_input = Inr, encode_output = Inr, decode_output = Inr\<rparr>"

theorem task_end_to_end_witness:
  "\<exists>r b. tb_get_result memory_tasks ''i'' b = Inr (r, ''hello!'') \<and> tr_data r = ''hello''"
proof -
  let ?r = "new_record (init 5 ''i'' ''g'' ''n'' None None default_task_ttl) ''hello''"
  let ?b1 = "memory_new\<lparr>mb_state := put_tasks [?r] (mb_state memory_new)\<rparr>"
  let ?w = "\<lparr>w_id = ''w'', w_group = ''g''\<rparr>"
  have p: "prepare sample_echo 5 ''i'' ''hello'' None None = Inr ?r"
    by (simp add: prepare_def sample_echo_def)
  have inv: "mb_inv memory_new" by (simp add: memory_new_def wf_mem_default)
  have "\<exists>b2. worker_assign memory_tasks ?w 6 3 ?b1 = ([?r], b2)"
    by (simp add: worker_assign_def memory_tasks_def memory_assign_tasks_def memory_new_def mem_eval init_def
        init_with_id_def)
  then obtain b2 where a: "worker_assign memory_tasks ?w 6 3 ?b1 = ([?r], b2)" by blast
  have n: "mb_view memory_new (tr_id ?r) = None" by (simp add: memory_new_def)
  have h: "t_handle sample_echo (tr_info ?r) ''hello'' = Returned (Inr ''hello!'')"
    by (simp add: sample_echo_def)
  have "\<exists>d. tb_get_result memory_tasks (tr_id ?r) (handle_task memory_tasks (register sample_echo new_registry) 7 ?r b2) = Inr (?r, d) \<and>
      decode_output sample_echo d = Inr ''hello!''"
    by (rule task_end_to_end [OF p _ _ h _ inv n memory_ops_succeed(5) a]) (simp_all add: sample_echo_def)
  then show ?thesis by (auto simp: sample_echo_def init_def init_with_id_def)
qed

text \<open>
  C24: A retried task waits.  After its handler asked for a retry after \<open>d\<close>, no worker is given the
  task before \<open>now + d\<close> (as \<open>f64\<close> addition); when it is handed out it is the same task with its
  retry count increased by one (modulo \<open>2 ^ 32\<close>) and its data unchanged.
\<close>

theorem retry_backoff_respected:
  assumes "mb_inv b" and "verdict_of reg r = Again d"
    and "handle_task memory_tasks reg now r b = b1"
    and "worker_assign memory_tasks w t limit b1 = (rs, b2)" and "q \<in> set rs" and "tr_id q = tr_id r"
  shows "ts_add_duration now d \<le> t \<and> tr_data q = tr_data r \<and>
    tr_info q = clone_for_retry now (tr_info r) d \<and>
    ti_retry_count (tr_info q) = ti_retry_count (tr_info r) + 1"
proof -
  have i1: "mb_inv b1" using mem.handle_task_law [OF assms(1)] assms(3) by blast
  have v1: "mb_view b1 = spec_retry (new_record (clone_for_retry now (tr_info r) d) (tr_data r)) (mb_view b)"
    using handle_task_memory [OF assms(1), of reg now r] assms(2,3) by (simp add: spec_handle_def)
  from assms(5) have "rs \<noteq> []" by auto
  from mem.worker_assign_law [OF i1 assms(4) this] assms(5)
  have "claimable t (w_group w) (mb_view b1) q" by (simp add: good_batch_def)
  then have q: "mb_view b1 (tr_id q) = Some (q, Queued)" "ti_due (tr_info q) \<le> t"
    by (simp_all add: claimable_def)
  from q(1) have "q = new_record (clone_for_retry now (tr_info r) d) (tr_data r)"
    by (simp add: v1 spec_retry_def assms(6))
  with q(2) show ?thesis by (simp add: clone_for_retry_def ts_add_duration_def)
qed

definition sample_retry :: "(string, string) task" where
  "sample_retry = sample_echo\<lparr>t_handle := (\<lambda>info x. Returned (Inl (Retry None (3 * nanos_per_sec))))\<rparr>"

theorem retry_backoff_respected_witness:
  "\<exists>q rs b2. worker_assign memory_tasks \<lparr>w_id = ''w'', w_group = ''g''\<rparr> 10 9
      (handle_task memory_tasks (register sample_retry new_registry) 7 (sample_task ''a'' ''g'' 5) sample_staged) = (rs, b2) \<and>
     q \<in> set rs \<and> tr_id q = ''a'' \<and> ti_retry_count (tr_info q) = 1"
proof -
  let ?r = "sample_task ''a'' ''g'' 5" and ?reg = "register sample_retry new_registry"
  let ?w = "\<lparr>w_id = ''w'', w_group = ''g''\<rparr>"
  let ?q = "new_record (clone_for_retry 7 (tr_info ?r) (3 * nanos_per_sec)) (tr_data ?r)"
  have v: "verdict_of ?reg ?r = Again (3 * nanos_per_sec)"
    by (simp add: verdict_of_def sample_task_def sample_retry_def sample_echo_def execute_def)
  have "duration_as_secs_f64 (3 * nanos_per_sec) = 3"
    using duration_as_secs_f64_whole [of 3] by (simp add: duration_from_secs_def)
  then have due: "clone_for_retry 7 (tr_info ?r) (3 * nanos_per_sec) = (tr_info ?r)\<lparr>ti_due := 10, ti_retry_count := 1\<rparr>"
    by (simp add: clone_for_retry_def fadd_def sample_task_def)
  have b1: "handle_task memory_tasks ?reg 7 ?r sample_staged =
      sample_staged\<lparr>mb_state := retry_task ?q (mb_state sample_staged)\<rparr>"
    by (simp add: handle_task_def Let_def run_executor_def prevent_to_wait_result_def sample_task_def
        sample_retry_def sample_echo_def execute_def worker_retry_def memory_ops_succeed)
  have "\<exists>b2. worker_assign memory_tasks ?w 10 9 (handle_task memory_tasks ?reg 7 ?r sample_staged) =
      ([sample_task ''b'' ''g'' 7, ?q], b2)"
    unfolding b1 due
    by (simp add: worker_assign_def memory_tasks_def memory_assign_tasks_def sample_staged_def retry_task_def
        sample_state_def memory_new_def mem_eval)
  then obtain b2 where a: "worker_assign memory_tasks ?w 10 9 (handle_task memory_tasks ?reg 7 ?r sample_staged) =
      ([sample_task ''b'' ''g'' 7, ?q], b2)" by blast
  have "tr_id ?q = tr_id ?r" by simp
  from retry_backoff_respected [OF conjunct1 [OF sample_staged] v refl a _ this]
  have "ti_retry_count (tr_info ?q) = 1" by (simp add: sample_task_def)
  with a show ?thesis by (intro exI [of _ ?q] exI) (auto simp: sample_task_def)
qed

end
