(* ===== verification/Scheduler_Runs.thy ===== *)
theory Scheduler_Runs imports Memory_Contract begin

section \<open>Properties of the scheduler\<close>

text \<open>
  Field validation, the exactness of the schedule grid over any sequence of runs, what a run
  submits, and the scheduler as a service of the in-process backend.  The facts of the locale of
  task stores are used through its interpretation \<open>mem\<close>.
\<close>

subsection \<open>Validation\<close>

lemma collect_ok_remdups: "collect_ok remdups"
  by (simp add: collect_ok_def)

text \<open>
  C16: A schedule field accepts exactly what it documents.  Converting \<open>All\<close>, a value or a
  collection of values succeeds only when every value is within the field's bounds and on its
  interval, and then the field contains exactly the values asked for; otherwise the error names
  the field and one of the offending values.
\<close>

theorem field_validation_exact:
  assumes "collect_ok collect" and "ft \<in> {Seconds, Minutes, Hours, Days, Weekdays, Months}"
  shows "case field_try_from collect ft arg of
      Inr f \<Rightarrow> set f = arg_values ft arg \<and>
        (\<forall>v\<in>set f. ft_min ft \<le> v \<and> v \<le> ft_max ft \<and> ft_interval ft dvd v - ft_min ft)
    | Inl e \<Rightarrow> sfe_value e \<in> arg_values ft arg \<and> sfe_field e = ft_name ft \<and>
        (sfe_value e < ft_min ft \<or> ft_max ft < sfe_value e \<or> \<not> ft_interval ft dvd sfe_value e - ft_min ft)"
proof (cases "field_try_from collect ft arg")
  case (Inl e)
  from field_try_from_Inl [OF assms(1) Inl] Inl show ?thesis
    by (auto simp: field_invalid_def dvd_eq_mod_eq_0)
next
  case (Inr f)
  from field_try_from_Inr [OF assms(1) field_types_ok [OF assms(2)] Inr] Inr show ?thesis
    by (auto simp: field_invalid_def dvd_eq_mod_eq_0)
qed

theorem field_validation_exact_witness:
  "\<exists>e. field_try_from remdups Seconds (Values [10, 12]) = Inl e \<and> sfe_value e \<in> {10, 12} \<and>
     sfe_field e = ''Seconds''"
proof -
  have "\<exists>e. field_try_from remdups Seconds (Values [10, 12]) = Inl e"
    by (simp add: field_try_from_def field_new_def field_invalid_def seconds_interval)
      (simp add: Seconds_def)
  then show ?thesis
    using field_validation_exact [OF collect_ok_remdups, of Seconds "Values [10, 12]"]
    by (auto simp: arg_values_def Seconds_def)
qed

lemma regular_new_Inr:
  assumes "regular_schedule_new collect se mi ho da wd mo tz policy = Inr S"
  shows "field_try_from collect Seconds se = Inr (rs_seconds S) \<and>
    field_try_from collect Minutes mi = Inr (rs_minutes S) \<and>
    field_try_from collect Hours ho = Inr (rs_hours S) \<and>
    field_try_from collect Days da = Inr (rs_days S) \<and>
    field_try_from collect Weekdays wd = Inr (rs_weekdays S) \<and>
    field_try_from collect Months mo = Inr (rs_months S) \<and>
    rs_tzinfo S = tz \<and> rs_policy S = policy"
  using assms by (auto simp: regular_schedule_new_def split: sum.splits)

text \<open>
  C15: A regular schedule that \<open>new\<close> accepted fires at a point exactly when every component of its
  wall clock is among the values given for that component (all valid ones for \<open>All\<close>), and the
  duplication policy sees exactly these points in their order.
\<close>

theorem regular_schedule_matches:
  assumes "collect_ok collect"
    and "regular_schedule_new collect se mi ho da wd mo tz policy = Inr S"
  shows "schedule_call (regular_as_schedule C S) points last_at =
    policy (filter (\<lambda>p. dt_second C p \<in> arg_values Seconds se \<and> dt_minute C p \<in> arg_values Minutes mi \<and>
        dt_hour C p \<in> arg_values Hours ho \<and> dt_day C p \<in> arg_values Days da \<and>
        dt_weekday_from_monday C p \<in> arg_values Weekdays wd \<and> dt_month C p \<in> arg_values Months mo) points) last_at"
proof -
  note new = regular_new_Inr [OF assms(2)]
  have f: "set g = arg_values ft a" if "field_try_from collect ft a = Inr g"
    and "ft \<in> {Seconds, Minutes, Hours, Days, Weekdays, Months}" for ft a g
    using field_try_from_Inr [OF assms(1) field_types_ok [OF that(2)] that(1)] by (rule conjunct1)
  have vals: "set (rs_seconds S) = arg_values Seconds se" "set (rs_minutes S) = arg_values Minutes mi"
    "set (rs_hours S) = arg_values Hours ho" "set (rs_days S) = arg_values Days da"
    "set (rs_weekdays S) = arg_values Weekdays wd" "set (rs_months S) = arg_values Months mo"
    by (rule f, use new in simp, simp)+
  have "regular_filter C S = (\<lambda>p. dt_second C p \<in> arg_values Seconds se \<and> dt_minute C p \<in> arg_values Minutes mi \<and>
        dt_hour C p \<in> arg_values Hours ho \<and> dt_day C p \<in> arg_values Days da \<and>
        dt_weekday_from_monday C p \<in> arg_values Weekdays wd \<and> dt_month C p \<in> arg_values Months mo)"
    by (simp add: fun_eq_iff regular_filter_def field_contains_def vals)
  with new show ?thesis by (simp add: regular_as_schedule_def regular_call_def)
qed

definition sample_chrono :: "(int, unit) chrono" where
  "sample_chrono =
     \<lparr>timestamp_opt = (\<lambda>_ s _. Some s), dt_timestamp = (\<lambda>d. d), with_utc = (\<lambda>d. d),
      dt_second = (\<lambda>d. nat (d mod 60)), dt_minute = (\<lambda>d. nat (d div 60 mod 60)),
      dt_hour = (\<lambda>d. nat (d div 3600 mod 24)), dt_day = (\<lambda>_. 1), dt_weekday_from_monday = (\<lambda>_. 0),
      dt_month = (\<lambda>_. 1)\<rparr>"

lemma sample_chrono_ok: "chrono_ok sample_chrono"
  by (simp add: chrono_ok_def sample_chrono_def)

definition sample_schedule :: "(int, unit) regular_schedule" where
  "sample_schedule =
     \<lparr>rs_seconds = [30], rs_minutes = field_all remdups Minutes, rs_hours = field_all remdups Hours,
      rs_days = field_all remdups Days, rs_weekdays = field_all remdups Weekdays,
      rs_months = field_all remdups Months, rs_tzinfo = None, rs_policy = OnlyLatest\<rparr>"

lemma sample_schedule_new:
  "regular_schedule_new remdups (One 30) All All All All All None OnlyLatest = Inr sample_schedule"
proof -
  have "field_try_from remdups Seconds (One 30) = Inr [30]"
    by (simp add: field_try_from_def field_single_def field_new_def field_invalid_def seconds_interval)
      (simp add: Seconds_def)
  then show ?thesis
    by (simp add: regular_schedule_new_def sample_schedule_def) (simp add: field_try_from_def)
qed

theorem regular_schedule_matches_witness:
  "schedule_call (regular_as_schedule sample_chrono sample_schedule) [25, 30, 35, 90, 95] None = [90]"
proof -
  have "1 \<in> arg_values Days All" "0 \<in> arg_values Weekdays All" "1 \<in> arg_values Months All"
    "0 \<in> arg_values Minutes All" "Suc 0 \<in> arg_values Minutes All" "0 \<in> arg_values Hours All"
    "30 \<in> arg_values Seconds (One 30)" "25 \<notin> arg_values Seconds (One 30)" "35 \<notin> arg_values Seconds (One 30)"
    by (simp_all add: arg_values_def field_invalid_def Days_def Weekdays_def Months_def Minutes_def Hours_def)
  then show ?thesis
    unfolding regular_schedule_matches [OF collect_ok_remdups sample_schedule_new]
    by (simp add: sample_chrono_def OnlyLatest_def)
qed

subsection \<open>The grid\<close>

text \<open>
  C3: In \<open>f64\<close> arithmetic, whatever the times at which a scheduler runs (clock going back
  included), the points its runs list are, in order, exactly the multiples of five seconds after
  the state it started from up to the latest slot reached: none is missed after a pause, none is
  listed twice, and listing never panics.
\<close>

theorem schedule_grid_exact:
  assumes "\<forall>now\<in>set nows. clock_ok now" and "0 \<le> a" and "a \<le> 2 ^ 50" and "last_run_at s = grid a"
  shows "concat (listed_points (Some s) nows) = map grid [a + 1..latest_slot a nows] \<and>
    length (listed_points (Some s) nows) = length nows"
  using assms by (rule listed_points_Some)

theorem schedule_grid_exact_witness:
  "concat (listed_points (Some \<lparr>last_run_at = 40, last_scheduled_at = Map.empty\<rparr>) [47, 42, 61]) = [45, 50, 55, 60]"
proof -
  have "is_f64 (47::rat)" "is_f64 (42::rat)" "is_f64 (61::rat)"
    using is_f64_of_int [of 47] is_f64_of_int [of 42] is_f64_of_int [of 61] by simp_all
  then have "\<forall>now\<in>set [47, 42, 61]. clock_ok now" by (simp add: clock_ok_def)
  moreover have "\<lfloor>(47 :: rat) / 5\<rfloor> = 9" "\<lfloor>(42 :: rat) / 5\<rfloor> = 8" "\<lfloor>(61 :: rat) / 5\<rfloor> = 12"
    by (simp_all add: floor_eq_iff)
  then have "latest_slot 8 [47, 42, 61] = 12" by (simp add: latest_slot_def slot_def)
  moreover have "[9..12] = [9, 10, 11, 12 :: int]" by (simp add: upto.simps)
  ultimately show ?thesis
    using schedule_grid_exact [of "[47, 42, 61]" 8 "\<lparr>last_run_at = 40, last_scheduled_at = Map.empty\<rparr>"]
    by (simp add: grid_def)
qed

subsection \<open>What a run submits\<close>


definition sample_env :: "(int, unit) sched_env" where
  "sample_env =
     \<lparr>env_chrono = sample_chrono, env_local_tz = (), env_uuid5 = (\<lambda>_ name. name),
      env_to_vec = (\<lambda>st. replicate (nat \<lfloor>last_run_at st\<rfloor>) (CHR ''x'')),
      env_from_slice = (\<lambda>b. Some \<lparr>last_run_at = of_nat (length b), last_scheduled_at = Map.empty\<rparr>)\<rparr>"

definition lossy_env :: "(int, unit) sched_env" where
  "lossy_env = sample_env\<lparr>env_from_slice := (\<lambda>_. None)\<rparr>"

definition sample_entry :: "(int, unit) schedule_entry" where
  "sample_entry =
     \<lparr>se_key = ''k'', se_schedule = regular_as_schedule sample_chrono sample_schedule, se_group = ''g'',
      se_name = ''n'', se_data = ''d'', se_result_ttl = None\<rparr>"

definition sample_scheduler :: "(int, unit) scheduler" where
  "sample_scheduler = \<lparr>sc_name = ''s'', sc_entries = [sample_entry], sc_tzinfo = None\<rparr>"

lemma clock_ok_92: "clock_ok 92" and clock_ok_94: "clock_ok 94" and slot_92: "slot 92 = 18"
  and slot_94: "slot 94 = 18"
  using is_f64_of_int [of 92] is_f64_of_int [of 94]
  by (simp_all add: clock_ok_def slot_def floor_eq_iff)

lemma sample_fires: "regular_call sample_chrono sample_schedule [90] None = [90]"
proof -
  have "set (rs_minutes sample_schedule) = arg_values Minutes All"
    "set (rs_hours sample_schedule) = arg_values Hours All"
    "set (rs_days sample_schedule) = arg_values Days All"
    "set (rs_weekdays sample_schedule) = arg_values Weekdays All"
    "set (rs_months sample_schedule) = arg_values Months All"
    using field_all_set [OF collect_ok_remdups] field_types_ok
    by (simp_all add: sample_schedule_def arg_values_def)
  then show ?thesis
    by (simp add: regular_call_def regular_filter_def field_contains_def arg_values_def field_invalid_def
        sample_chrono_def Minutes_def Hours_def Days_def Weekdays_def Months_def)
      (simp add: sample_schedule_def OnlyLatest_def)
qed

definition sample_like :: "(int, unit) sched_env \<Rightarrow> bool" where
  "sample_like E \<longleftrightarrow> env_chrono E = sample_chrono \<and> env_uuid5 E = (\<lambda>_ name. name)"

lemma sample_like [simp]: "sample_like sample_env" "sample_like lossy_env"
  by (simp_all add: sample_like_def sample_env_def lossy_env_def)

lemma sample_entry_points:
  assumes "sample_like E"
  shows "entry_points E sample_scheduler [90] None sample_entry = Some [90]"
proof -
  have "to_datetime sample_chrono 90 tz = Some 90" for tz
    by (simp add: to_datetime_def datetime_parts_def Let_def sample_chrono_def as_i64_def trunc_def)
  with assms sample_fires show ?thesis
    by (simp add: entry_points_def sample_like_def sample_entry_def sample_scheduler_def
        regular_as_schedule_def Let_def)
qed

definition sample_task_at :: "timestamp \<Rightarrow> task_record" where
  "sample_task_at created = point_task sample_env ''s'' sample_entry created 90"

definition sample_after :: "('dt, 'tz) sched_env \<Rightarrow> timestamp \<Rightarrow> memory_backend" where
  "sample_after E created = memory_new\<lparr>mb_state :=
     persist_scheduler_state_and_put_tasks ''s''
       (env_to_vec E \<lparr>last_run_at = 90, last_scheduled_at = [''k'' \<mapsto> 90]\<rparr>)
       [sample_task_at created] state_default\<rparr>"

lemma sample_run:
  assumes "sample_like E"
  shows "schedule_entries E memory_tasks sample_scheduler (\<lambda>_. created) 92 memory_new =
    (Some (Inr ()), sample_after E created)"
proof -
  have "get_state E memory_tasks ''s'' memory_new = Inr None"
    by (simp add: get_state_def memory_tasks_def memory_new_def get_scheduler_state_def state_default_def)
  moreover have "list_schedule_points None 92 = Some [90]"
    using list_schedule_points_None [OF clock_ok_92] by (simp add: slot_92 grid_def)
  moreover have "fl 90 = 90" by simp
  then have "schedule_all E sample_scheduler (\<lambda>_. created) None [90] [sample_entry] (Map.empty, []) =
      Some ([''k'' \<mapsto> 90], [sample_task_at created])"
    using sample_entry_points [OF assms] assms
    by (simp add: schedule_points_def sample_task_at_def point_task_def Let_def from_datetime_def sample_like_def)
      (simp add: sample_env_def sample_chrono_def sample_scheduler_def sample_entry_def)
  ultimately show ?thesis
    by (simp add: schedule_entries_def sample_scheduler_def memory_tasks_def on_state_def sample_after_def
        memory_new_def)
qed




lemma those_set: "those xs = Some ys \<Longrightarrow> y \<in> set ys \<Longrightarrow> Some y \<in> set xs"
  by (induction xs arbitrary: ys) (auto split: option.splits)

definition state_ok :: "scheduler_state option \<Rightarrow> bool" where
  "state_ok state \<longleftrightarrow> (\<forall>s. state = Some s \<longrightarrow> (\<exists>a. last_run_at s = grid a \<and> 0 \<le> a \<and> a \<le> 2 ^ 50))"

lemma points_on_grid:
  assumes "clock_ok now" and "state_ok state" and "list_schedule_points state now = Some points"
  shows "(\<forall>p\<in>set points. \<exists>k. p = grid k \<and> 0 \<le> k \<and> k \<le> slot now \<and>
      (\<forall>s. state = Some s \<longrightarrow> last_run_at s < p)) \<and>
    (points \<noteq> [] \<longrightarrow> last points = grid (slot now))"
proof (cases state)
  case None
  with assms show ?thesis using slot_bounds [OF assms(1)] by (auto simp: list_schedule_points_None)
next
  case (Some s)
  with assms(2) obtain a where a: "last_run_at s = grid a" "0 \<le> a" "a \<le> 2 ^ 50"
    by (auto simp: state_ok_def)
  then have p: "points = map grid [a + 1..slot now]"
    using list_schedule_points_Some [OF assms(1) a] assms(3) Some by simp
  have "last [a + 1..slot now] = slot now" if "a < slot now"
    using that upto_rec2 [of "a + 1" "slot now"] by simp
  with a Some show ?thesis by (auto simp: p last_map)
qed

text \<open>Where a task that a run adds comes from, and what the schedule point of an entry is.\<close>

lemma submitted_task:
  assumes "mb_inv b" and "schedule_entries E memory_tasks sc clock now b = (res, b')"
    and "get_state E memory_tasks (sc_name sc) b = Inr state" and "mb_view b i = None" and "mb_view b' i = Some (r, st)"
  obtains points e sps sp j where "st = Queued" "list_schedule_points state now = Some points" "e \<in> set (sc_entries sc)"
    "entry_points E sc points (last_of state (se_key e)) e = Some sps" "sp \<in> set sps"
    "r = point_task E (sc_name sc) e (clock j) sp"
proof -
  have state: "Option.bind (mb_sched b (sc_name sc)) (env_from_slice E) = state"
    using mem.get_state_law [OF assms(1,3)] ..
  from mem.schedule_entries_law [OF assms(1,2)] assms(4,5) obtain points cs
    where points: "list_schedule_points state now = Some points"
      and cs: "chosen E sc state points (sc_entries sc) = Some cs"
      and v: "mb_view b' = spec_put_all (tasks_at E (sc_name sc) clock 0 cs) (mb_view b)"
    unfolding state by auto
  from spec_put_all_new [OF assms(5) [unfolded v] assms(4)] have st: "st = Queued"
    and "r \<in> set (tasks_at E (sc_name sc) clock 0 cs)" by auto
  then obtain j where j: "j < length cs" "r = (case cs ! j of (e, sp) \<Rightarrow> point_task E (sc_name sc) e (clock j) sp)"
    by (auto simp: tasks_at_def in_set_conv_nth)
  obtain e sp where csj: "cs ! j = (e, sp)" by (cases "cs ! j")
  with j(1) have "(e, sp) \<in> set cs" by (metis nth_mem)
  from chosen_in [OF cs this] obtain sps where "e \<in> set (sc_entries sc)"
    "entry_points E sc points (last_of state (se_key e)) e = Some sps" "sp \<in> set sps" by auto
  with that [OF st points, of e sps sp j] j(2) csj show thesis by simp
qed

lemma entry_point_grid:
  assumes ch: "chrono_ok (env_chrono E)" and now: "clock_ok now" and state: "state_ok state"
    and points: "list_schedule_points state now = Some points"
    and S: "se_schedule e = regular_as_schedule (env_chrono E) S" "\<forall>ps l. set (rs_policy S ps l) \<subseteq> set ps"
    and sps: "entry_points E sc points latest e = Some sps" "sp \<in> set sps"
  obtains k where "k \<le> slot now" "\<forall>s. state = Some s \<longrightarrow> last_run_at s < grid k"
    "dt_timestamp (env_chrono E) sp = 5 * k" "regular_filter (env_chrono E) S sp"
    "from_datetime (env_chrono E) (with_utc (env_chrono E) sp) = grid k"
proof -
  from sps(1) obtain tz ps l where ps: "those (map (\<lambda>p. to_datetime (env_chrono E) p tz) points) = Some ps"
    and "sps = schedule_call (se_schedule e) ps l"
    by (auto simp: entry_points_def Let_def split: option.splits)
  then have "sps = rs_policy S (filter (regular_filter (env_chrono E) S) ps) l"
    by (simp add: S regular_as_schedule_def regular_call_def)
  then have sp: "sp \<in> set ps" "regular_filter (env_chrono E) S sp" using sps(2) S(2) by fastforce+
  from those_set [OF ps sp(1)] obtain p where p: "p \<in> set points" "to_datetime (env_chrono E) p tz = Some sp"
    by auto
  from bspec [OF conjunct1 [OF points_on_grid [OF now state points]] p(1)]
  obtain k where k: "p = grid k" "0 \<le> k" "k \<le> slot now"
    "\<forall>s. state = Some s \<longrightarrow> last_run_at s < grid k" by (elim exE conjE) simp
  have b50: "\<bar>5 * k\<bar> \<le> 2 ^ 53" using k(2,3) slot_bounds [OF now] by simp
  have ts: "dt_timestamp (env_chrono E) sp = 5 * k"
    using to_datetime_timestamp [OF ch p(2)] unfolding k(1) grid_def as_i64_of_int [OF b50] .
  then have "dt_timestamp (env_chrono E) (with_utc (env_chrono E) sp) = 5 * k"
    using ch by (simp add: chrono_ok_def)
  then have "from_datetime (env_chrono E) (with_utc (env_chrono E) sp) = grid k"
    unfolding from_datetime_def grid_def by (simp only: fl_of_int [OF b50])
  with that k(3,4) ts sp(2) show thesis by blast
qed

text \<open>
  C7: What a run adds to the store are the tasks the schedules ask for: each is queued, with the
  group, name, data and key-derived id of one entry; it is due and scheduled at a grid point
  after the previous run and not after now; and that entry's time fields match the point.
\<close>

theorem scheduled_tasks_correct:
  assumes "mb_inv b" and "schedule_entries E memory_tasks sc clock now b = (res, b')"
    and "chrono_ok (env_chrono E)" and "clock_ok now"
    and "get_state E memory_tasks (sc_name sc) b = Inr state" and "state_ok state"
    and "\<forall>e\<in>set (sc_entries sc). \<exists>S. se_schedule e = regular_as_schedule (env_chrono E) S \<and>
      (\<forall>ps l. set (rs_policy S ps l) \<subseteq> set ps)"
    and "mb_view b i = None" and "mb_view b' i = Some (r, st)"
  shows "st = Queued \<and> (\<exists>e\<in>set (sc_entries sc). \<exists>k S d.
    tr_id r = for_schedule_point (env_uuid5 E) (sc_name sc) (se_key e) (grid k) \<and>
    ti_group (tr_info r) = se_group e \<and> ti_name (tr_info r) = se_name e \<and>
    ti_due (tr_info r) = grid k \<and> ti_scheduled (tr_info r) = Some (grid k) \<and>
    ti_retry_count (tr_info r) = 0 \<and>
    ti_ttl (tr_info r) = (case se_result_ttl e of Some t \<Rightarrow> t | None \<Rightarrow> default_task_ttl) \<and>
    tr_data r = se_data e \<and> k \<le> slot now \<and> (\<forall>s. state = Some s \<longrightarrow> last_run_at s < grid k) \<and>
    se_schedule e = regular_as_schedule (env_chrono E) S \<and> dt_timestamp (env_chrono E) d = 5 * k \<and>
    regular_filter (env_chrono E) S d)"
proof -
  from submitted_task [OF assms(1,2,5,8,9)] obtain points e sps sp j where st: "st = Queued"
    and points: "list_schedule_points state now = Some points" and e: "e \<in> set (sc_entries sc)"
    and sps: "entry_points E sc points (last_of state (se_key e)) e = Some sps" "sp \<in> set sps"
    and r: "r = point_task E (sc_name sc) e (clock j) sp" by metis
  from assms(7) e obtain S where S: "se_schedule e = regular_as_schedule (env_chrono E) S"
    "\<forall>ps l. set (rs_policy S ps l) \<subseteq> set ps" by blast
  from entry_point_grid [OF assms(3,4,6) points S sps] obtain k where k: "k \<le> slot now"
    "\<forall>s. state = Some s \<longrightarrow> last_run_at s < grid k" "dt_timestamp (env_chrono E) sp = 5 * k"
    "regular_filter (env_chrono E) S sp" "from_datetime (env_chrono E) (with_utc (env_chrono E) sp) = grid k" by metis
  with st S(1) r show ?thesis
    by (intro conjI bexI [OF _ e] exI [of _ k] exI [of _ S] exI [of _ sp])
      (simp_all add: point_task_def Let_def init_with_id_def)
qed

theorem scheduled_tasks_correct_witness:
  "\<exists>k S d. ti_due (tr_info (sample_task_at 92)) = grid k \<and> k \<le> 18 \<and>
     se_schedule sample_entry = regular_as_schedule sample_chrono S \<and>
     dt_timestamp sample_chrono d = 5 * k \<and> regular_filter sample_chrono S d"
proof -
  have inv: "mb_inv memory_new" by (simp add: memory_new_def wf_mem_default)
  have g: "get_state sample_env memory_tasks (sc_name sample_scheduler) memory_new = Inr None"
    by (simp add: get_state_def memory_tasks_def memory_new_def get_scheduler_state_def state_default_def)
  have v: "mb_view (sample_after sample_env 92) (tr_id (sample_task_at 92)) = Some (sample_task_at 92, Queued)"
    by (simp add: sample_after_def persist_spec spec_put_all_def spec_put_def)
      (simp add: mem_view_def state_default_def)
  have n: "mb_view memory_new (tr_id (sample_task_at 92)) = None"
    by (simp add: memory_new_def mem_view_def state_default_def)
  have ch: "env_chrono sample_env = sample_chrono" by (simp add: sample_env_def)
  have en: "sc_entries sample_scheduler = [sample_entry]" by (simp add: sample_scheduler_def)
  have "\<forall>ps l. set (rs_policy sample_schedule ps l) \<subseteq> set ps"
  proof (intro allI)
    fix ps :: "int list" and l
    show "set (rs_policy sample_schedule ps l) \<subseteq> set ps"
      by (cases ps rule: rev_cases) (simp_all add: sample_schedule_def OnlyLatest_def)
  qed
  then have pol: "\<forall>e\<in>set (sc_entries sample_scheduler). \<exists>S. se_schedule e = regular_as_schedule (env_chrono sample_env) S \<and>
      (\<forall>ps l. set (rs_policy S ps l) \<subseteq> set ps)"
    unfolding en ch by (intro ballI exI [of _ sample_schedule]) (simp add: sample_entry_def)
  from scheduled_tasks_correct [OF inv sample_run [OF sample_like(1)] _ clock_ok_92 g _ pol n v]
  show ?thesis
    unfolding en ch by (simp add: sample_chrono_ok state_ok_def slot_92) blast
qed


text \<open>The remembered state of this sample codec is the last run, in whole seconds and a fraction.\<close>

definition exact_env :: "(int, unit) sched_env" where
  "exact_env = sample_env\<lparr>env_to_vec := (\<lambda>st. case quotient_of (last_run_at st) of (p, q) \<Rightarrow>
       (if p < 0 then [CHR ''-''] else []) @ replicate (nat \<bar>p\<bar>) (CHR ''x'') @ replicate (nat q) (CHR ''/'')),
     env_from_slice := (\<lambda>b.
       let p = int (length (filter (\<lambda>c. c = CHR ''x'') b)); q = int (length (filter (\<lambda>c. c = CHR ''/'') b))
       in Some \<lparr>last_run_at = of_int (if CHR ''-'' \<in> set b then - p else p) / of_int q,
            last_scheduled_at = Map.empty\<rparr>)\<rparr>"

lemma exact_env_state:
  "\<exists>st'. env_from_slice exact_env (env_to_vec exact_env st) = Some st' \<and> last_run_at st' = last_run_at st"
proof -
  obtain p q where pq: "quotient_of (last_run_at st) = (p, q)" by (cases "quotient_of (last_run_at st)")
  then have "0 < q" and "last_run_at st = of_int p / of_int q"
    by (auto dest: quotient_of_denom_pos quotient_of_div)
  with pq show ?thesis by (simp add: exact_env_def Let_def)
qed

lemma exact_like [simp]: "sample_like exact_env"
  by (simp add: sample_like_def exact_env_def sample_env_def)


subsection \<open>The scheduler as a service\<close>

lemma held_put_tasks: "st_held_locks (put_tasks rs st) = st_held_locks st"
  unfolding put_tasks_def
  by (induction rs arbitrary: st) (simp_all add: put_def next_seq_def Let_def)

lemma schedule_entries_held:
  "schedule_entries E memory_tasks sc clock now b = (res, b') \<Longrightarrow>
   st_held_locks (mb_state b') = st_held_locks (mb_state b)"
  by (auto simp: schedule_entries_def memory_tasks_def on_state_def Let_def held_put_tasks
      persist_scheduler_state_and_put_tasks_def split: sum.splits option.splits list.splits)

lemma sleep_interval:
  assumes "clock_ok t0" and "clock_ok t2" and "t0 \<le> t2"
  shows "\<exists>i. ts_diff (ts_max (ts_add_secs (round_ts t0) SCHEDULE_POINT_INTERVAL) t2) t2 = Some i \<and>
    i \<le> 5 * nanos_per_sec"
proof -
  let ?n = "grid (slot t0 + 1)"
  have "grid (slot t0) + 5 = ?n" by (simp add: grid_def)
  moreover have "fl ?n = ?n" using slot_bounds [OF assms(1)]
    unfolding grid_def by (intro fl_of_int) simp
  ultimately have nxt: "ts_add_secs (round_ts t0) SCHEDULE_POINT_INTERVAL = ?n"
    by (simp add: round_ts_grid [OF assms(1)] ts_add_secs_def fadd_def SCHEDULE_POINT_INTERVAL_def)
  have "0 \<le> ts_max ?n t2 - t2" by (simp add: ts_max_def)
  moreover have "ts_max ?n t2 - t2 \<le> 5"
    using grid_slot(1) [of t0] assms(3) by (simp add: ts_max_def grid_def)
  ultimately have x: "0 \<le> fsub (ts_max ?n t2) t2" "fsub (ts_max ?n t2) t2 \<le> 5"
    unfolding fsub_def using is_f64_of_int [of 5] by (auto intro: fl_nonneg fl_le)
  then have "fsub (ts_max ?n t2) t2 * of_nat nanos_per_sec \<le> of_int (5 * int nanos_per_sec)" by simp
  then have "rhe (fsub (ts_max ?n t2) t2 * of_nat nanos_per_sec) \<le> 5 * int nanos_per_sec" by (rule rhe_le)
  then have "nat (rhe (fsub (ts_max ?n t2) t2 * of_nat nanos_per_sec)) \<le> 5 * nanos_per_sec" by simp
  with x show ?thesis by (simp add: nxt ts_diff_def duration_from_secs_f64_def Let_def)
qed

lemma memory_lock_steps:
  "lp_get_lock memory_locks t b = Inr \<lparr>ml_target = t, ml_held = False\<rparr>"
  "lp_acquire memory_locks \<lparr>ml_target = t, ml_held = False\<rparr> b =
     (t \<notin> st_held_locks (mb_state b), \<lparr>ml_target = t, ml_held = t \<notin> st_held_locks (mb_state b)\<rparr>,
      b\<lparr>mb_state := (mb_state b)\<lparr>st_held_locks := insert t (st_held_locks (mb_state b))\<rparr>\<rparr>)"
  "lp_release memory_locks \<lparr>ml_target = t, ml_held = True\<rparr> b =
     (\<lparr>ml_target = t, ml_held = False\<rparr>,
      b\<lparr>mb_state := (mb_state b)\<lparr>st_held_locks := st_held_locks (mb_state b) - {t}\<rparr>\<rparr>)"
  "lp_drop memory_locks \<lparr>ml_target = t, ml_held = False\<rparr> b = b"
  "lp_drop memory_locks \<lparr>ml_target = t, ml_held = True\<rparr> b =
     b\<lparr>mb_state := (mb_state b)\<lparr>st_held_locks := st_held_locks (mb_state b) - {t}\<rparr>\<rparr>"
  by (simp_all add: memory_locks_def get_lock_def mem_acquire_def mem_release_def mem_drop_def Let_def)



end
