(* ===== verification/Service_Runs.thy ===== *)
theory Service_Runs imports Worker_Runs Scheduler_Runs begin

section \<open>Properties of the helper services\<close>

text \<open>
  Heartbeats protect the tasks of live workers through any interleaving of the services;
  abandoned tasks return to the queue; only expired results are discarded.
\<close>

text \<open>
  C19: As long as a worker's registration is good until \<open>e\<close>, no interleaving of heartbeats, purges,
  restores and discards that reads clocks up to \<open>e\<close> (by any number of processes, the lock
  acquired or not) takes a task from it: the task stays assigned to it, and the worker stays
  registered.
\<close>

theorem heartbeat_protects_tasks:
  assumes "mb_inv b" and "mb_view b i = Some (r, Staged w t)"
    and "\<exists>x. mb_workers b w = Some x \<and> e \<le> x"
    and "\<forall>step\<in>set steps. before_expiry e step"
  shows "mb_view (fold (service_exec memory_tasks memory_workers memory_locks) steps b) i = Some (r, Staged w t) \<and>
    (\<exists>x. mb_workers (fold (service_exec memory_tasks memory_workers memory_locks) steps b) w = Some x \<and> e \<le> x)"
  using mem.service_steps_keep [OF assms(1,2), of e steps] assms(3,4) by (simp add: live_at_def)

definition sample_alive :: memory_backend where
  "sample_alive = sample_staged\<lparr>mb_state := (mb_state sample_staged)\<lparr>st_workers := [(''w'', 20)]\<rparr>\<rparr>"

lemma sample_alive: "mb_inv sample_alive \<and>
    mb_view sample_alive ''a'' = Some (sample_task ''a'' ''g'' 5, Staged ''w'' 6) \<and>
    mb_workers sample_alive ''w'' = Some 20"
proof -
  have "wf_mem ((mb_state sample_staged)\<lparr>st_workers := [(''w'', 20)]\<rparr>)"
    using sample_staged by (simp add: wf_mem_def)
  moreover have "mem_view ((mb_state sample_staged)\<lparr>st_workers := [(''w'', 20)]\<rparr>) = mb_view sample_staged"
    by (rule view_cong) simp
  ultimately show ?thesis using sample_staged by (simp add: sample_alive_def)
qed

theorem heartbeat_protects_tasks_witness:
  "mb_view (fold (service_exec memory_tasks memory_workers memory_locks)
      [StepRestore 15, StepPurge 20, StepDiscard 99, StepRestore 18] sample_alive) ''a'' =
    Some (sample_task ''a'' ''g'' 5, Staged ''w'' 6)"
  using heartbeat_protects_tasks [of sample_alive "''a''" "sample_task ''a'' ''g'' 5" "''w''" 6 20
      "[StepRestore 15, StepPurge 20, StepDiscard 99, StepRestore 18]"] sample_alive
  by simp

lemma requeued_cases:
  assumes "y = x \<or> (\<exists>r w t. x = Some (r, Staged w t) \<and> \<not> live w \<and> y = Some (r, Queued))"
    and "\<And>r w t. x = Some (r, Staged w t) \<Longrightarrow> \<not> live w \<Longrightarrow> y = Some (r, Queued)"
  shows "y = (case x of
       Some (r, Staged w t) \<Rightarrow> if live w then Some (r, Staged w t) else Some (r, Queued)
     | x \<Rightarrow> x)"
proof (cases x)
  case (Some p)
  obtain r s where p: "p = (r, s)" by (cases p)
  with assms Some show ?thesis by (cases s) auto
qed (use assms in simp)

lemma restore_call_memory:
  assumes "mb_inv b" and "''restore_abandoned_tasks'' \<notin> st_held_locks (mb_state b)"
    and "length (get_stage_info 100 (mb_state b)) < 100"
  shows "mb_view (snd (restore_abandoned_tasks memory_tasks memory_workers memory_locks now b)) =
    (\<lambda>i. case mb_view b i of
       Some (r, Staged w t) \<Rightarrow>
         if \<exists>x. mb_workers b w = Some x \<and> now \<le> x then Some (r, Staged w t) else Some (r, Queued)
     | x \<Rightarrow> x)"
proof
  fix i
  let ?t = "''restore_abandoned_tasks''"
  let ?b1 = "b\<lparr>mb_state := (mb_state b)\<lparr>st_held_locks := insert ?t (st_held_locks (mb_state b))\<rparr>\<rparr>"
  let ?b2 = "restore_body memory_tasks memory_workers now ?b1"
  have i1: "mb_inv ?b1" using assms(1) by simp
  have v1: "mb_view ?b1 = mb_view b" and w1: "mb_workers ?b1 = mb_workers b" by simp_all
  have v: "mb_view (snd (restore_abandoned_tasks memory_tasks memory_workers memory_locks now b)) = mb_view ?b2"
    using assms(2) by (simp add: restore_abandoned_tasks_def memory_lock_steps)
  note law = mem.restore_body_law [OF i1, of now]
  have sis: "tb_get_stage_info memory_tasks 100 ?b1 = Inr (get_stage_info 100 (mb_state b))"
    by (simp add: memory_tasks_def get_stage_info_def ordered_def)
  have ws: "wt_get_workers memory_workers ?b1 = Inr (st_workers (mb_state b))"
    by (simp add: memory_workers_def get_workers_def)
  have restored: "mb_view ?b2 i = Some (r, Queued)"
    if "mb_view b i = Some (r, Staged w t)" and "\<not> (\<exists>x. mb_workers b w = Some x \<and> now \<le> x)" for r w t
    using mem.restore_body_complete [OF i1 _ sis assms(3) ws, of i r w t now] that
    by (simp add: memory_ops_succeed live_at_def v1 w1)
  have law': "mb_view ?b2 i = mb_view b i \<or> (\<exists>r w t. mb_view b i = Some (r, Staged w t) \<and>
      \<not> (\<exists>x. mb_workers b w = Some x \<and> now \<le> x) \<and> mb_view ?b2 i = Some (r, Queued))"
    using law unfolding v1 w1 live_at_def by blast
  show "mb_view (snd (restore_abandoned_tasks memory_tasks memory_workers memory_locks now b)) i =
    (case mb_view b i of
       Some (r, Staged w t) \<Rightarrow>
         if \<exists>x. mb_workers b w = Some x \<and> now \<le> x then Some (r, Staged w t) else Some (r, Queued)
     | x \<Rightarrow> x)"
    unfolding v by (rule requeued_cases [OF law' restored])
qed

text \<open>
  C21: One call of the restore service that gets its lock, with fewer than a hundred tasks on the
  stage, puts back into the queue exactly the tasks whose worker is not registered or has
  expired, with their records unchanged, and leaves every other task as it is.
\<close>

theorem abandoned_tasks_restored:
  assumes "mb_inv b" and "''restore_abandoned_tasks'' \<notin> st_held_locks (mb_state b)"
    and "length (get_stage_info 100 (mb_state b)) < 100"
  shows "mb_view (snd (restore_abandoned_tasks memory_tasks memory_workers memory_locks now b)) =
    (\<lambda>i. case mb_view b i of
       Some (r, Staged w t) \<Rightarrow>
         if \<exists>x. mb_workers b w = Some x \<and> now \<le> x then Some (r, Staged w t) else Some (r, Queued)
     | x \<Rightarrow> x)"
  by (rule restore_call_memory [OF assms])

theorem abandoned_tasks_restored_witness:
  "mb_view (snd (restore_abandoned_tasks memory_tasks memory_workers memory_locks 21 sample_alive)) ''a'' =
     Some (sample_task ''a'' ''g'' 5, Queued)"
proof -
  have "''restore_abandoned_tasks'' \<notin> st_held_locks (mb_state sample_alive)"
    by (simp add: sample_alive_def sample_staged_def sample_state_def memory_new_def mem_eval)
  moreover have "length (get_stage_info 100 (mb_state sample_alive)) < 100"
    by (simp add: sample_alive_def sample_staged_def sample_state_def memory_new_def mem_eval get_stage_info_def)
  ultimately show ?thesis
    using abandoned_tasks_restored [of sample_alive 21] sample_alive by simp
qed

lemma held_discard: "st_held_locks (discard_tasks ids st) = st_held_locks st"
  unfolding discard_tasks_def by (induction ids arbitrary: st) simp_all

lemma discard_call_memory:
  assumes "''discard_disposable_tasks'' \<notin> st_held_locks (mb_state b)"
    and "discard_disposable_tasks memory_tasks memory_locks now b = (d, b')"
  defines "ids \<equiv> get_disposable_task_ids now 100 (mb_state b)"
  shows "mb_view b' = spec_discard ids (mb_view b)" and "st_held_locks (mb_state b') = st_held_locks (mb_state b)"
    and "d = 0 \<longleftrightarrow> length ids = 100"
proof -
  let ?t = "''discard_disposable_tasks''"
  let ?st1 = "(mb_state b)\<lparr>st_held_locks := insert ?t (st_held_locks (mb_state b))\<rparr>"
  have ids: "tb_get_disposable_task_ids memory_tasks now 100 (b\<lparr>mb_state := ?st1\<rparr>) = Inr ids"
    by (simp add: memory_tasks_def get_disposable_task_ids_def ids_def)
  have zero: "(if c then duration_from_secs 0 else duration_from_secs 60) = 0 \<longleftrightarrow> c" for c
    by (simp add: duration_from_secs_def)
  have b': "b' = b\<lparr>mb_state := (discard_tasks ids ?st1)\<lparr>st_held_locks := st_held_locks (mb_state b)\<rparr>\<rparr> \<and>
      (d = 0 \<longleftrightarrow> length ids = 100)"
  proof (cases "ids = []")
    case True
    then have "discard_tasks ids ?st1 = ?st1" by (simp add: discard_tasks_def)
    with True assms(1,2) ids show ?thesis
      by (simp add: discard_disposable_tasks_def memory_lock_steps duration_from_secs_def)
  next
    case False
    have "st_held_locks (discard_tasks ids ?st1) = insert ?t (st_held_locks (mb_state b))"
      by (simp add: held_discard)
    with False assms(1,2) ids show ?thesis
      by (auto simp: discard_disposable_tasks_def memory_lock_steps Let_def memory_ops_succeed zero duration_from_secs_def)
  qed
  then show "mb_view b' = spec_discard ids (mb_view b)" "st_held_locks (mb_state b') = st_held_locks (mb_state b)"
    "d = 0 \<longleftrightarrow> length ids = 100" by (simp_all add: view_discard)
qed



end
