(* ===== verification/Runner_Runs.thy ===== *)
theory Runner_Runs imports Service_Runs begin

section \<open>Properties of the runners\<close>

text \<open>
  Bounded concurrency, ownership of claimed tasks and graceful shutdown of a group runner on the
  in-process backend; prompt termination of waits and of service loops; and what becomes of tasks that
  outlive the lease of a group that was asked to stop (\<open>draining_task_requeued\<close>).
\<close>

text \<open>
  A wait that is not interrupted lasts at least the whole duration; it reports a stop exactly
  when the flag is set at its end; and a stop requested during it ends it within one nap of a
  tenth of a second (and the runtime's delays).
\<close>

theorem wait_or_stop_behaved:
  assumes "wait_or_stop ss delay yields d now = (go_on, u)"
    and "\<forall>x\<ge>t. ss x" and "\<forall>x. delay x \<le> D"
  shows "(go_on \<longleftrightarrow> \<not> ss u) \<and> (go_on \<longrightarrow> now + yields + d \<le> u) \<and>
    u \<le> max (now + yields) (t + 100 * nanos_per_milli + D)"
proof -
  have u: "wait_loop ss delay d (now + yields) (now + yields) = (go_on, u)"
    using assms(1) by (simp add: wait_or_stop_def Let_def)
  then show ?thesis
    using wait_loop_result [of ss delay d "now + yields" "now + yields"]
      wait_loop_full [of "now + yields" "now + yields" ss delay d]
      wait_loop_stops [where ss = ss and delay = delay and t = t and D = D and d = d
        and start = "now + yields" and now = "now + yields"] assms(2,3) by simp
qed

theorem wait_or_stop_behaved_witness:
  "snd (wait_or_stop (\<lambda>x. 70 \<le> x) (\<lambda>_. 3) 1 500 0) \<le> 70 + 100 * nanos_per_milli + 3"
proof -
  obtain g u where w: "wait_or_stop (\<lambda>x. 70 \<le> x) (\<lambda>_. 3) 1 500 0 = (g, u)" by fastforce
  from wait_or_stop_behaved [OF w, of 70 3] w show ?thesis by simp
qed

text \<open>
  C25: A service runner that is asked to stop does stop: whatever its service returns, and however
  often it panics, the loop ends within the current call, one nap and the runtime's delays.
\<close>

theorem service_runner_stops:
  assumes "\<forall>x\<ge>t. ss x" and "\<forall>x. delay x \<le> D"
    and "\<forall>u a. u < snd (snd (f u a)) \<and> snd (snd (f u a)) \<le> u + C"
  shows "\<exists>fuel s' u. service_loop ss delay yields f fuel now s = Some (s', u) \<and>
    u \<le> max now t + C + yields + 100 * nanos_per_milli + D"
proof -
  have "\<exists>s' u. service_loop ss delay yields f (t - now + 1) now s = Some (s', u) \<and>
    u \<le> max now t + C + yields + 100 * nanos_per_milli + D"
    by (rule service_loop_stops) (use assms in auto)
  then show ?thesis by blast
qed

theorem service_runner_stops_witness:
  "\<exists>fuel s' u. service_loop (\<lambda>x. 9 \<le> x) (\<lambda>_. 0) 0 (\<lambda>u a. (None, a + 1, u + 2)) fuel 0 (0::nat) = Some (s', u) \<and>
     u \<le> 9 + 2 + 100 * nanos_per_milli"
  using service_runner_stops [of 9 "\<lambda>x. 9 \<le> x" "\<lambda>_. 0" 0 "\<lambda>u a. (None, a + 1, u + 2)" 2 0 0 "0::nat"] by simp

text \<open>
  C22: Whatever the rest of the system does, a group never runs more tasks than its concurrency: the
  permits in use and the free ones always add up to it.  Its loop is left only when it was asked to
  stop; a joined runner runs nothing; and a stopped one is never stuck, but can always be joined.
\<close>

theorem group_concurrency_bounded:
  assumes "group_run B reg w n env s0 g"
  shows "length (gs_running g) \<le> n \<and> gs_free g + length (gs_running g) = n \<and>
    (gs_pc g = Joined \<longrightarrow> gs_stop g \<and> gs_running g = []) \<and>
    (gs_stop g \<longrightarrow> 0 < n \<longrightarrow> (\<exists>g'. (group_step B reg w n env)\<^sup>*\<^sup>* g g' \<and> gs_pc g' = Joined))"
  using permits_balance [OF assms] left_when_stopped [OF assms] stopped_group_joins [OF assms] by auto

definition sample_worker :: worker where
  "sample_worker = \<lparr>w_id = ''w'', w_group = ''g''\<rparr>"

definition sample_backend :: memory_backend where
  "sample_backend = memory_new\<lparr>mb_state := sample_state\<rparr>"

lemma sample_fetch: "\<exists>s'. worker_assign memory_tasks sample_worker 9 1 sample_backend = ([sample_task ''a'' ''g'' 5], s') \<and>
     st_held_locks (mb_state s') = {} \<and> st_workers (mb_state s') = [] \<and> length (get_stage_info 100 (mb_state s')) < 100"
  by (simp add: worker_assign_def sample_worker_def sample_backend_def memory_tasks_def
      memory_assign_tasks_def memory_new_def sample_state_def mem_eval get_stage_info_def)

lemma sample_group_run:
  "\<exists>s'. group_run memory_tasks new_registry sample_worker 1 env sample_backend
     \<lparr>gs_store = s', gs_free = 0, gs_running = [sample_task ''a'' ''g'' 5], gs_stop = False, gs_paused = False,
      gs_pc = Spawning []\<rparr> \<and>
     st_held_locks (mb_state s') = {} \<and> st_workers (mb_state s') = [] \<and> length (get_stage_info 100 (mb_state s')) < 100"
proof -
  obtain s' where a: "worker_assign memory_tasks sample_worker 9 1 sample_backend = ([sample_task ''a'' ''g'' 5], s')"
    and rest: "st_held_locks (mb_state s') = {}" "st_workers (mb_state s') = []" "length (get_stage_info 100 (mb_state s')) < 100"
    using sample_fetch by blast
  let ?run = "group_run memory_tasks new_registry sample_worker 1 env sample_backend"
  let ?step = "group_step memory_tasks new_registry sample_worker 1 env"
  let ?r = "sample_task ''a'' ''g'' 5"
  let ?g1 = "(group_spawn 1 sample_backend)\<lparr>gs_store := s', gs_pc := Spawning [?r]\<rparr>"
  have "?step (group_spawn 1 sample_backend) ?g1"
    by (rule group_step.fetch [where now = 9]) (use a in \<open>simp_all add: group_spawn_def\<close>)
  with group_run.spawned have "?run ?g1" by (rule group_run.stepped)
  moreover have "?step ?g1 (?g1\<lparr>gs_free := gs_free ?g1 - 1, gs_running := ?r # gs_running ?g1, gs_pc := Spawning []\<rparr>)"
    by (rule group_step.spawn) (simp_all add: group_spawn_def)
  ultimately have "?run (?g1\<lparr>gs_free := gs_free ?g1 - 1, gs_running := ?r # gs_running ?g1, gs_pc := Spawning []\<rparr>)"
    by (rule group_run.stepped)
  with rest show ?thesis by (intro exI [of _ s']) (simp add: group_spawn_def)
qed

theorem group_concurrency_bounded_witness:
  "\<exists>g. group_run memory_tasks new_registry sample_worker 1 (\<lambda>_ _. False) sample_backend g \<and>
     length (gs_running g) = 1 \<and> gs_free g = 0"
proof -
  obtain s' where "group_run memory_tasks new_registry sample_worker 1 (\<lambda>_ _. False) sample_backend
     \<lparr>gs_store = s', gs_free = 0, gs_running = [sample_task ''a'' ''g'' 5], gs_stop = False, gs_paused = False,
      gs_pc = Spawning []\<rparr>" using sample_group_run by blast
  from this group_concurrency_bounded [OF this] show ?thesis by (intro exI conjI) (assumption, simp_all)
qed


lemma sample_backend_ok: "mb_inv sample_backend" "staged_by (mb_view sample_backend) (w_id sample_worker) = {}"
proof -
  show "mb_inv sample_backend" using wf_sample_state by (simp add: sample_backend_def)
  have q: "mb_view sample_backend i \<noteq> Some (r, Staged w t)" for i r w t
    unfolding sample_backend_def sample_state_def
    using spec_put_all_new [of _ Map.empty i] by (fastforce simp: view_put_tasks)
  then show "staged_by (mb_view sample_backend) (w_id sample_worker) = {}" by (auto simp: staged_by_def)
qed


subsection \<open>Draining\<close>

text \<open>
  The heartbeat leaves out groups that were asked to stop, although their tasks may still be running:
  once the lease of the worker has run out, a call of the restore service puts a task back onto the
  queue while its first execution goes on.
\<close>

theorem draining_task_requeued:
  assumes "group_run memory_tasks reg w n (quiet mb_inv mb_view w) b0 g" and "mb_inv b0"
    and "staged_by (mb_view b0) (w_id w) = {}"
    and "gs_stop g" and "r \<in> set (gs_running g)"
    and "refresh_worker_lifetime memory_workers [(w_id w, is_alive g)] earlier (gs_store g) = (d, b)"
    and "\<nexists>x. mb_workers b (w_id w) = Some x \<and> now \<le> x"
    and "''restore_abandoned_tasks'' \<notin> st_held_locks (mb_state b)"
    and "length (get_stage_info 100 (mb_state b)) < 100"
  shows "mb_workers b (w_id w) = mb_workers (gs_store g) (w_id w) \<and>
    mb_view (snd (restore_abandoned_tasks memory_tasks memory_workers memory_locks now b)) (tr_id r) = Some (r, Queued)"
proof -
  from mem_rel.group_run_ok [OF assms(1-3)] have ok: "mem_rel.group_ok w g" .
  then have i: "mb_inv (gs_store g)" by (simp add: mem_rel.group_ok_def)
  from ok have "\<forall>r\<in>set (claimed g). \<exists>t. mb_view (gs_store g) (tr_id r) = Some (r, Staged (w_id w) t)"
    by (simp add: mem_rel.group_ok_def)
  with assms(5) obtain t where st: "mb_view (gs_store g) (tr_id r) = Some (r, Staged (w_id w) t)"
    unfolding claimed_def by auto
  from mem.refresh_law [OF i assms(6)] assms(4)
  have b: "mb_inv b" "mb_view b = mb_view (gs_store g)" "mb_workers b = mb_workers (gs_store g)"
    by (auto simp: is_alive_def)
  have "mb_view (snd (restore_abandoned_tasks memory_tasks memory_workers memory_locks now b)) (tr_id r) = Some (r, Queued)"
    using restore_call_memory [OF b(1) assms(8,9)] st b(2) assms(7) by simp
  with b(3) show ?thesis by simp
qed

theorem draining_task_requeued_witness:
  "\<exists>g b. group_run memory_tasks new_registry sample_worker 1 (quiet mb_inv mb_view sample_worker) sample_backend g \<and>
     gs_stop g \<and> sample_task ''a'' ''g'' 5 \<in> set (gs_running g) \<and>
     snd (refresh_worker_lifetime memory_workers [(''w'', is_alive g)] 10 (gs_store g)) = b \<and>
     mb_view (snd (restore_abandoned_tasks memory_tasks memory_workers memory_locks 11 b)) ''a'' =
       Some (sample_task ''a'' ''g'' 5, Queued)"
proof -
  obtain s' where run: "group_run memory_tasks new_registry sample_worker 1 (quiet mb_inv mb_view sample_worker) sample_backend
     \<lparr>gs_store = s', gs_free = 0, gs_running = [sample_task ''a'' ''g'' 5], gs_stop = False, gs_paused = False,
      gs_pc = Spawning []\<rparr>" (is "group_run _ _ _ _ _ _ ?g0")
    and rest: "st_held_locks (mb_state s') = {}" "st_workers (mb_state s') = []" "length (get_stage_info 100 (mb_state s')) < 100"
    using sample_group_run by blast
  let ?g = "?g0\<lparr>gs_stop := True\<rparr>"
  have g: "group_run memory_tasks new_registry sample_worker 1 (quiet mb_inv mb_view sample_worker) sample_backend ?g"
    by (rule group_run.stepped [OF run group_step.stop])
  have hb: "refresh_worker_lifetime memory_workers [(w_id sample_worker, is_alive ?g)] 10 (gs_store ?g) =
      (ttl_as_duration WORKER_TTL div 3, s')"
    by (simp add: refresh_worker_lifetime_def is_alive_def memory_workers_def set_worker_ttl_def on_state_def rest(2) sort_by_id_def)
  from draining_task_requeued [OF g sample_backend_ok _ _ hb, of "sample_task ''a'' ''g'' 5" 11] rest
  have "mb_view (snd (restore_abandoned_tasks memory_tasks memory_workers memory_locks 11 s')) ''a'' =
      Some (sample_task ''a'' ''g'' 5, Queued)"
    by (simp add: sample_task_def)
  with g hb show ?thesis by (intro exI [of _ ?g] exI [of _ s']) (simp add: sample_worker_def)
qed

end
