(* ===== verification/Kit_Runs.thy ===== *)
theory Kit_Runs imports Runner_Runs begin

section \<open>Properties of the runtime, of result handles and of the kit\<close>

text \<open>
  Control events and the end of a process, what a configuration starts, and waiting for a result.
\<close>

subsection \<open>Control of a running process\<close>

text \<open>
  C26: Control events steer exactly the groups they name.  However the events are mixed, a group's
  runner is asked to stop exactly when a shutdown named it (or named none); a group that is alive
  is paused exactly when the last pause or resume that targeted it was a pause; and the process
  leaves its event loop exactly when no group is left alive.
\<close>

theorem control_events_targeted:
  assumes "rt_concurrency rt \<noteq> []" and "control_loop evs (control_init rt) = (c, fin)"
  shows "map rf_group (ct_runners c) = map fst (rt_concurrency rt) \<and>
    ct_alive c = shut_down (set (map fst (rt_concurrency rt))) evs \<and>
    (\<forall>r\<in>set (ct_runners c). rf_stop r \<longleftrightarrow> rf_group r \<notin> ct_alive c) \<and>
    (\<forall>r\<in>set (ct_runners c). rf_group r \<in> ct_alive c \<longrightarrow> rf_paused r = last_pause (rf_group r) evs False) \<and>
    (fin \<longleftrightarrow> ct_alive c = {})"
proof -
  have c: "c = fst (control_loop evs (control_init rt))" and fin: "fin = snd (control_loop evs (control_init rt))"
    by (simp_all add: assms(2))
  have ok: "control_ok (map fst (rt_concurrency rt)) c" unfolding c by (rule control_ok_loop [OF control_ok_init])
  have paused: "rf_paused r = last_pause (rf_group r) evs False"
    if "r \<in> set (ct_runners c)" "rf_group r \<in> ct_alive c" for r
  proof -
    from control_loop_paused [OF that [unfolded c]] obtain q where "q \<in> set (ct_runners (control_init rt))"
      "rf_paused r = last_pause (rf_group r) evs (rf_paused q)" by blast
    then show ?thesis by (auto simp: control_init_def)
  qed
  have "ct_alive (control_init rt) \<noteq> {}" using assms(1) by (simp add: control_init_def)
  then have "fin \<longleftrightarrow> ct_alive c = {}"
    unfolding c fin using control_loop_fin control_loop_empty by blast
  with ok paused show ?thesis
    unfolding control_ok_def c control_loop_alive by (simp add: control_init_def)
qed

definition sample_runtime :: "(int, unit) runtime" where
  "sample_runtime = \<lparr>rt_concurrency = [(''a'', 2), (''b'', 1)], rt_schedule_entries = [], rt_tzinfo = None,
     rt_polling_interval = (\<lambda>_. None), rt_helper_services = True\<rparr>"

theorem control_events_targeted_witness:
  "\<exists>c. control_loop [Some (Pause None), Some (Shutdown (Some [''b''])), None, Some (Resume (Some [''b'']))]
      (control_init sample_runtime) = (c, False) \<and>
     ct_alive c = {''a''} \<and> (\<forall>r\<in>set (ct_runners c). rf_group r = ''a'' \<longrightarrow> rf_paused r)"
proof -
  let ?evs = "[Some (Pause None), Some (Shutdown (Some [''b''])), None, Some (Resume (Some [''b'']))]"
  obtain c fin where l: "control_loop ?evs (control_init sample_runtime) = (c, fin)" by fastforce
  have "rt_concurrency sample_runtime \<noteq> []" by (simp add: sample_runtime_def)
  note t = control_events_targeted [OF this l]
  have "ct_alive c = shut_down (set (map fst (rt_concurrency sample_runtime))) ?evs" using t by (elim conjE)
  then have al: "ct_alive c = {''a''}" by (auto simp: sample_runtime_def Let_def)
  have "fin \<longleftrightarrow> ct_alive c = {}" using t by (elim conjE)
  with al have fin: "fin = False" by simp
  have "\<forall>r\<in>set (ct_runners c). rf_group r \<in> ct_alive c \<longrightarrow> rf_paused r = last_pause (rf_group r) ?evs False"
    using t by (elim conjE)
  then have "\<forall>r\<in>set (ct_runners c). rf_group r = ''a'' \<longrightarrow> rf_paused r" unfolding al by simp
  with l al show ?thesis unfolding fin by blast
qed

lemma shut_down_ended: "shut_down alive (evs @ replicate n None) = shut_down alive evs"
proof -
  have "shut_down alive (replicate n None) = alive" for alive by (induction n) simp_all
  then show ?thesis by (induction alive evs rule: shut_down.induct) (simp_all add: Let_def)
qed



lemma scheduler_new_eq:
  "scheduler_new name es tz =
     (if distinct (map se_key es) then Some \<lparr>sc_name = name, sc_entries = es, sc_tzinfo = tz\<rparr> else None)"
proof -
  have "card (set (map se_key es)) = length es \<longleftrightarrow> distinct (map se_key es)"
    by (metis card_distinct distinct_card length_map)
  then show ?thesis by (simp add: scheduler_new_def)
qed

lemma scheduler_services_eq:
  "scheduler_services tz sch =
     (if \<forall>(name, es)\<in>set sch. distinct (map se_key es)
      then Some (map (\<lambda>(name, es). SchedulerService \<lparr>sc_name = name, sc_entries = es, sc_tzinfo = tz\<rparr>)
             (filter (\<lambda>p. snd p \<noteq> []) sch))
      else None)"
  by (induction tz sch rule: scheduler_services.induct) (auto simp: scheduler_new_eq)

lemma constant_interval:
  "(g, n) \<in> set concurrency \<Longrightarrow> map_of (map (\<lambda>(g, _). (g, x)) concurrency) g = Some x"
  by (induction concurrency) (auto split: prod.splits)

lemma runner_interval:
  assumes "runtime_new concurrency schedules tz polling helpers = Some rt" and "(g, n, d) \<in> set (worker_runners rt)"
  shows "d = (case polling of Auto \<Rightarrow> duration_from_secs 1 | Fixed x \<Rightarrow> x
    | PerGroup m \<Rightarrow> (case m g of Some x \<Rightarrow> x | None \<Rightarrow> duration_from_secs 1))"
proof -
  from assms have gn: "(g, n) \<in> set concurrency"
    and d: "d = (case rt_polling_interval rt g of Some d \<Rightarrow> d | None \<Rightarrow> DEFAULT_POLLING_INTERVAL)"
    and pol: "rt_polling_interval rt = (case polling of
        Auto \<Rightarrow> map_of (map (\<lambda>(g, _). (g, DEFAULT_POLLING_INTERVAL)) concurrency)
      | Fixed d \<Rightarrow> map_of (map (\<lambda>(g, _). (g, d)) concurrency) | PerGroup m \<Rightarrow> m)"
    by (auto simp: runtime_new_def worker_runners_def split: if_splits)
  show ?thesis unfolding d pol DEFAULT_POLLING_INTERVAL_def [symmetric]
    by (cases polling) (simp_all only: polling_interval.case constant_interval [OF gn] option.case)
qed



subsection \<open>Waiting for a result\<close>

text \<open>
  C28: Waiting for a result with a timeout always returns, whatever the backend answers: the naps
  between the looks add up, so that at most \<open>12 + timeout\<close> looks (the timeout in seconds) are
  made in the loop.
\<close>

theorem result_get_terminates:
  assumes "\<forall>i. elapsed i + nap i \<le> elapsed (Suc i)" and "12 + t div nanos_per_sec \<le> fuel"
  shows "get sd decode sc first answers elapsed fuel (Some t) avoid_assertion h \<noteq> None"
proof -
  let ?P = "\<lambda>j. expired (Some t) (elapsed j) \<or> \<not> no_result (answers j)"
  let ?n = "10 + (t div nanos_per_sec + 1)"
  have "t < (t div nanos_per_sec + 1) * nanos_per_sec"
    using div_mult_mod_eq [of t nanos_per_sec] mod_less_divisor [of nanos_per_sec t] by simp
  with elapsed_grows [OF assms(1), of "t div nanos_per_sec + 1"] have "?P ?n" by (simp add: expired_def)
  then have P: "?P (LEAST j. ?P j)" and le: "(LEAST j. ?P j) \<le> ?n" by (rule LeastI, rule Least_le)
  define k where "k = (LEAST j. ?P j)"
  have before: "\<not> ?P j" if "j < k" for j using that unfolding k_def by (rule not_less_Least)
  have k: "k < fuel" using le assms(2) unfolding k_def by simp
  have loop: "get_loop sd decode answers elapsed (Some t) fuel 0 h' \<noteq> None" for h'
  proof (cases "expired (Some t) (elapsed k)")
    case True
    have "get_loop sd decode answers elapsed (Some t) fuel 0 h' = Some (Inl TimedOut, h')"
      by (rule get_loop_times_out [where k = k]) (use before True k in auto)
    then show ?thesis by simp
  next
    case False
    then have "\<not> no_result (answers (0 + k))" using P by (simp add: k_def)
    moreover have "\<forall>j\<le>k. \<not> expired (Some t) (elapsed (0 + j))"
      using before False by (metis add_0 le_neq_implies_less)
    moreover have "\<forall>j<k. no_result (answers (0 + j))" using before by simp
    ultimately show ?thesis using get_loop_answers [where i = 0 and k = k] k by blast
  qed
  show ?thesis
    using loop by (auto simp: get_def split: option.splits prod.splits sum.splits)
qed

theorem result_get_terminates_witness:
  "get (\<lambda>_. []) Inr None (Inl (GR_NoResult (sample_task ''a'' ''g'' 5))) (\<lambda>_. Inl (GR_NoResult (sample_task ''a'' ''g'' 5)))
     (\<lambda>i. i * nanos_per_sec) 15 (Some (3 * nanos_per_sec)) False (task_result_new ''a'') \<noteq> (None :: ((result_get_error + string) \<times> task_result) option)"
  by (rule result_get_terminates) (simp_all add: nap_def min_def)

text \<open>
  C29: Waiting returns what the first conclusive answer says, provided it comes before the deadline:
  the decoded output of a finished task (which the handle then remembers), or its error; and a
  timeout is reported only when the deadline passed while every answer was inconclusive.
\<close>

theorem result_get_first_answer:
  assumes "avoid_assertion \<or> is_prevented sc = None" and "th_cached_bytes h = None" and "no_result first"
    and "\<forall>j<k. no_result (answers j) \<and> \<not> expired timeout (elapsed j)" and "k < fuel"
  shows "(\<not> no_result (answers k) \<and> \<not> expired timeout (elapsed k) \<longrightarrow>
      (\<exists>h'. get sd decode sc first answers elapsed fuel timeout avoid_assertion h =
         Some (conclude sd decode (answers k), h'))) \<and>
    (expired timeout (elapsed k) \<longrightarrow>
      get sd decode sc first answers elapsed fuel timeout avoid_assertion h = Some (Inl TimedOut, h))"
proof -
  have g: "get sd decode sc first answers elapsed fuel timeout avoid_assertion h =
      get_loop sd decode answers elapsed timeout fuel 0 h"
    using assms(1-3) by (auto simp: get_def try_no_result)
  show ?thesis unfolding g
  proof (intro conjI impI)
    assume a: "\<not> no_result (answers k) \<and> \<not> expired timeout (elapsed k)"
    then have "\<forall>j\<le>k. \<not> expired timeout (elapsed (0 + j))"
      using assms(4) by (metis add_0 le_neq_implies_less)
    with a assms(4,5) show "\<exists>h'. get_loop sd decode answers elapsed timeout fuel 0 h = Some (conclude sd decode (answers k), h')"
      using get_loop_answers [where i = 0 and k = k and answers = answers] by simp
  next
    assume "expired timeout (elapsed k)"
    then show "get_loop sd decode answers elapsed timeout fuel 0 h = Some (Inl TimedOut, h)"
      by (intro get_loop_times_out [where k = k]) (use assms(4,5) in auto)
  qed
qed

theorem result_get_first_answer_witness:
  "\<exists>h'. get (\<lambda>_. []) Inr None (Inl (GR_NoResult (sample_task ''a'' ''g'' 5)))
     (\<lambda>i. if i < 2 then Inl (GR_NoResult (sample_task ''a'' ''g'' 5)) else Inr (sample_task ''a'' ''g'' 5, ''out''))
     (\<lambda>i. i) 9 None False (task_result_new ''a'') = Some (Inr ''out'', h')"
proof -
  let ?a = "\<lambda>i. if i < (2::nat) then Inl (GR_NoResult (sample_task ''a'' ''g'' 5)) else Inr (sample_task ''a'' ''g'' 5, ''out'')"
  have "conclude (\<lambda>_. []) Inr (?a 2) = (Inr ''out'' :: result_get_error + string)"
    by (simp add: conclude_def decode_result_def)
  with result_get_first_answer [where k = 2 and answers = ?a and fuel = 9 and timeout = None and sc = None
      and h = "task_result_new ''a''" and first = "Inl (GR_NoResult (sample_task ''a'' ''g'' 5))" and sd = "\<lambda>_. []"
      and decode = "Inr :: string \<Rightarrow> task_error + string" and avoid_assertion = False and elapsed = "\<lambda>i. i"]
  show ?thesis
    by (simp add: is_prevented_def task_result_new_def no_result_def expired_def)
qed

end
