(* ===== verification/Fleet.thy ===== *)
theory Fleet imports Runner_Runs begin

section \<open>Many processes on one backend\<close>

text \<open>
  The composition of everything that works on a store: applications that submit tasks, schedulers,
  workers that claim and handle them, processes that crash with tasks in hand, and the helper
  services, in any interleaving.  Each step is one call of the code's model.  Two questions about the
  whole are answered on any backend that keeps the contract without failing: where can a task go, and
  where do results come from; and on the in-process backend a third: can every task still be run.
\<close>

subsection \<open>Steps\<close>

text \<open>
  \<open>fl_running\<close> are the executions that claims have spawned and that have not ended, with the worker that
  made the claim.  Workers may belong to processes with different registries.
\<close>

record 's fleet =
  fl_store :: 's
  fl_running :: "(worker \<times> task_record) list"

datatype fleet_event =
    Submitted "task_record list" bool
  | Scheduled scheduler_name
  | Claimed worker "task_record list"
  | Handled worker task_record
  | Crashed worker
  | Served service_step

inductive fleet_step ::
  "'s task_backend \<Rightarrow> 's worker_tracker \<Rightarrow> ('s, 'l) lock_provider \<Rightarrow> ('dt, 'tz) sched_env
   \<Rightarrow> (worker \<Rightarrow> task_registry) \<Rightarrow> 's fleet \<Rightarrow> fleet_event \<Rightarrow> 's fleet \<Rightarrow> bool"
  for B W L E reg where
  submit: "initiate_tasks B rs (fl_store f) = (res, s') \<Longrightarrow>
    fleet_step B W L E reg f (Submitted rs (res = Inr ())) (f\<lparr>fl_store := s'\<rparr>)"
| schedule: "scheduler_call E B L sc clock t0 t1 t2 (fl_store f) = (d, s') \<Longrightarrow>
    fleet_step B W L E reg f (Scheduled (sc_name sc)) (f\<lparr>fl_store := s'\<rparr>)"
| claim: "worker_assign B w now limit (fl_store f) = (rs, s') \<Longrightarrow>
    fleet_step B W L E reg f (Claimed w rs)
      (f\<lparr>fl_store := s', fl_running := fl_running f @ map (Pair w) rs\<rparr>)"
| handle: "(w, r) \<in> set (fl_running f) \<Longrightarrow>
    fleet_step B W L E reg f (Handled w r)
      (f\<lparr>fl_store := handle_task B (reg w) now r (fl_store f), fl_running := remove1 (w, r) (fl_running f)\<rparr>)"
| crash: "fleet_step B W L E reg f (Crashed w) (f\<lparr>fl_running := filter (\<lambda>(v, _). v \<noteq> w) (fl_running f)\<rparr>)"
| serve: "fleet_step B W L E reg f (Served step) (f\<lparr>fl_store := service_exec B W L step (fl_store f)\<rparr>)"

inductive_cases fleet_stepE: "fleet_step B W L E reg f e f'"

text \<open>The events of a run, oldest first.\<close>

inductive fleet_run ::
  "'s task_backend \<Rightarrow> 's worker_tracker \<Rightarrow> ('s, 'l) lock_provider \<Rightarrow> ('dt, 'tz) sched_env
   \<Rightarrow> (worker \<Rightarrow> task_registry) \<Rightarrow> 's \<Rightarrow> fleet_event list \<Rightarrow> 's fleet \<Rightarrow> bool"
  for B W L E reg s0 where
  start: "fleet_run B W L E reg s0 [] \<lparr>fl_store = s0, fl_running = []\<rparr>"
| more: "fleet_run B W L E reg s0 tr f \<Longrightarrow> fleet_step B W L E reg f e f' \<Longrightarrow>
    fleet_run B W L E reg s0 (tr @ [e]) f'"

subsection \<open>Where tasks go and where results come from\<close>

text \<open>The two ways in which a task may leave the store.\<close>

definition dropped_by_handler :: "(worker \<Rightarrow> task_registry) \<Rightarrow> fleet_event list \<Rightarrow> task_id \<Rightarrow> bool" where
  "dropped_by_handler reg tr i \<longleftrightarrow>
     (\<exists>w r. Handled w r \<in> set tr \<and> tr_id r = i \<and> verdict_of (reg w) r = Drop)"

definition expired_result ::
  "'s task_backend \<Rightarrow> 's worker_tracker \<Rightarrow> ('s, 'l) lock_provider \<Rightarrow> ('dt, 'tz) sched_env
   \<Rightarrow> (worker \<Rightarrow> task_registry) \<Rightarrow> ('s \<Rightarrow> task_id \<Rightarrow> timestamp option) \<Rightarrow> 's \<Rightarrow> fleet_event list
   \<Rightarrow> task_id \<Rightarrow> bool" where
  "expired_result B W L E reg expiry s0 tr i \<longleftrightarrow>
     (\<exists>tr1 tr2 f now t. tr = tr1 @ Served (StepDiscard now) # tr2 \<and> fleet_run B W L E reg s0 tr1 f \<and>
        expiry (fl_store f) i = Some t \<and> t < now)"

lemma left_mono:
  "dropped_by_handler reg tr i \<Longrightarrow> dropped_by_handler reg (tr @ es) i"
  "expired_result B W L E reg expiry s0 tr i \<Longrightarrow> expired_result B W L E reg expiry s0 (tr @ es) i"
  unfolding dropped_by_handler_def expired_result_def by auto (metis append.assoc append_Cons)

text \<open>What was handled had been claimed by the same worker.\<close>

lemma fleet_claimed:
  assumes "fleet_run B W L E reg s0 tr f"
  shows "(\<forall>(w, r)\<in>set (fl_running f). \<exists>rs. Claimed w rs \<in> set tr \<and> r \<in> set rs) \<and>
    (\<forall>w r. Handled w r \<in> set tr \<longrightarrow> (\<exists>rs. Claimed w rs \<in> set tr \<and> r \<in> set rs))"
  using assms
proof (induction rule: fleet_run.induct)
  case (more tr f e f')
  from more.hyps(2) more.IH show ?case
  proof (cases rule: fleet_step.cases)
    case (handle w r now)
    then have "set (fl_running f') \<subseteq> set (fl_running f)" by (simp add: set_remove1_subset)
    with handle more.IH show ?thesis by fastforce
  qed fastforce+
qed simp

locale reliable_cluster = cluster B inv view sched W wview L expiry + reliable_backend B inv view sched
  for B :: "'s task_backend" and inv view sched and W :: "'s worker_tracker" and wview
    and L :: "('s, 'l) lock_provider" and expiry
begin

text \<open>Every step keeps the invariant; the store it leaves, by the kind of step.\<close>

lemma schedule_entries_adds:
  assumes "inv s" and "schedule_entries E B sc clock now s = (res, s')"
  shows "inv s' \<and> (\<exists>rs. view s' = spec_put_all rs (view s))"
proof -
  have "view s = spec_put_all [] (view s)" by (simp add: spec_put_all_def)
  with schedule_entries_law [OF assms] show ?thesis by metis
qed

lemma scheduler_call_adds:
  assumes "inv s" and "scheduler_call E B L sc clock t0 t1 t2 s = (d, s')"
  shows "inv s' \<and> (\<exists>rs. view s' = spec_put_all rs (view s))"
proof -
  have same: "\<exists>rs. view s = spec_put_all rs (view s)"
    by (rule exI [of _ "[]"]) (simp add: spec_put_all_def)
  show ?thesis
  proof (cases "sc_entries sc = [] \<or> (\<exists>e. lp_get_lock L (''scheduler.'' @ sc_name sc) s = Inl e)")
    case True
    with assms(2) have "s' = s" by (cases "sc_entries sc = []") (auto simp: scheduler_call_def Let_def)
    with assms(1) same show ?thesis by simp
  next
    case False
    then obtain l where l: "lp_get_lock L (''scheduler.'' @ sc_name sc) s = Inr l"
      by (cases "lp_get_lock L (''scheduler.'' @ sc_name sc) s") auto
    obtain ok l1 s1 where a: "lp_acquire L l s = (ok, l1, s1)" by (metis prod_cases3)
    note s1 = acquire_frame [OF assms(1) a]
    obtain res s2 where run: "schedule_entries E B sc clock t1 s1 = (res, s2)" by fastforce
    note s2 = schedule_entries_adds [OF conjunct1 [OF s1] run]
    obtain l3 s3 where rel: "lp_release L l1 s2 = (l3, s3)" by fastforce
    note s3 = release_frame [OF conjunct1 [OF s2] rel]
    have "s' = lp_drop L l1 s1 \<or> s' = lp_drop L l1 s2 \<or> s' = lp_drop L l3 s3"
      using assms(2) False l a run rel
      by (auto simp: scheduler_call_def Let_def split: bool.splits option.splits)
    then show ?thesis
      using drop_frame [of s1 l1 "lp_drop L l1 s1"] drop_frame [of s2 l1 "lp_drop L l1 s2"]
        drop_frame [of s3 l3 "lp_drop L l3 s3"] s1 s2 s3 same by auto
  qed
qed

lemma service_step_view:
  assumes "inv s"
  shows "inv (service_exec B W L step s) \<and>
    (\<forall>i. view (service_exec B W L step s) i = view s i \<or>
       (\<exists>r w t. view s i = Some (r, Staged w t) \<and> view (service_exec B W L step s) i = Some (r, Queued)) \<or>
       (\<exists>now t. step = StepDiscard now \<and> view (service_exec B W L step s) i = None \<and>
          expiry s i = Some t \<and> t < now))"
proof (cases step)
  case (StepRefresh workers now)
  with refresh_law [OF assms prod.collapse [symmetric], of workers now] show ?thesis by auto
next
  case (StepPurge now)
  with purge_call [OF assms prod.collapse [symmetric], of now] show ?thesis by simp
next
  case (StepRestore now)
  with restore_call [OF assms prod.collapse [symmetric], of now] show ?thesis by simp blast
next
  case (StepDiscard now)
  with discard_call [OF assms prod.collapse [symmetric], of now] show ?thesis by auto
qed

text \<open>How one step changes what is known of a task.\<close>

definition fate ::
  "(worker \<Rightarrow> task_registry) \<Rightarrow> 's fleet \<Rightarrow> fleet_event \<Rightarrow> task_id
   \<Rightarrow> (task_record \<times> status) option \<Rightarrow> (task_record \<times> status) option \<Rightarrow> bool" where
  "fate reg f e i x y \<longleftrightarrow>
     y = x \<or>
     x = None \<and> (\<exists>r. y = Some (r, Queued)) \<or>
     (\<exists>r w rs t. x = Some (r, Queued) \<and> e = Claimed w rs \<and> r \<in> set rs \<and> y = Some (r, Staged (w_id w) t)) \<or>
     (\<exists>r w t. x = Some (r, Staged w t) \<and> y = Some (r, Queued)) \<or>
     (\<exists>w r. e = Handled w r \<and> tr_id r = i \<and>
        ((\<exists>q st. verdict_of (reg w) r = Finish st \<and> y = Some (q, st)) \<or>
         verdict_of (reg w) r = Drop \<and> y = None \<or>
         (\<exists>d now. verdict_of (reg w) r = Again d \<and>
            y = Some (new_record (clone_for_retry now (tr_info r) d) (tr_data r), Queued)))) \<or>
     (\<exists>now t. e = Served (StepDiscard now) \<and> y = None \<and> expiry (fl_store f) i = Some t \<and> t < now)"

lemma fate_same [simp]: "fate reg f e i x x"
  by (simp add: fate_def)

lemma put_all_fate: "fate reg f e i (v i) (spec_put_all rs v i)"
proof (cases "v i")
  case None
  then show ?thesis
    using spec_put_all_new [of rs v i] by (cases "spec_put_all rs v i") (auto simp: fate_def)
next
  case (Some x)
  with spec_put_all_keeps [where v = v and i = i and x = x and rs = rs] show ?thesis by simp
qed

lemma handle_fate:
  "fate reg f (Handled w r) i (v i) (spec_handle (reg w) now r v i)"
proof (cases "i = tr_id r")
  case True
  then show ?thesis
    by (auto simp: fate_def spec_handle_def spec_finish_def spec_discard_def spec_retry_def
        split: verdict.splits option.splits)
next
  case False
  then show ?thesis by (simp add: fate_def spec_handle_other)
qed

lemma claim_fate:
  assumes "good_batch now g n v rs"
  shows "fate reg f (Claimed w rs) i (v i) (spec_assign now (w_id w) rs v i)"
proof (cases "i \<in> tr_id ` set rs")
  case True
  then obtain r where r: "r \<in> set rs" "i = tr_id r" by blast
  with assms have "v i = Some (r, Queued)" by (auto simp: good_batch_def claimable_def)
  moreover have "spec_assign now (w_id w) rs v i = Some (r, Staged (w_id w) now)"
    unfolding r(2) by (rule spec_assign_in) (use assms r in \<open>simp_all add: good_batch_def\<close>)
  ultimately show ?thesis using r(1) unfolding fate_def by blast
next
  case False
  then show ?thesis by (simp add: fate_def spec_assign_other)
qed

lemma fate_gone:
  assumes "fate reg f e i x None" and "x \<noteq> None"
  shows "(\<exists>w r. e = Handled w r \<and> tr_id r = i \<and> verdict_of (reg w) r = Drop) \<or>
    (\<exists>now t. e = Served (StepDiscard now) \<and> expiry (fl_store f) i = Some t \<and> t < now)"
  using assms by (auto simp: fate_def)

lemma fate_finished:
  assumes "fate reg f e i x (Some (r, st))" and "(\<exists>b. st = Succeeded b) \<or> (\<exists>m. st = Failed m)"
  shows "x = Some (r, st) \<or> (\<exists>w q. e = Handled w q \<and> tr_id q = i \<and> verdict_of (reg w) q = Finish st)"
  using assms by (auto simp: fate_def)

lemma fleet_step_fate:
  assumes "fleet_step B W L E reg f e f'" and i: "inv (fl_store f)"
  shows "inv (fl_store f') \<and> (\<forall>i. fate reg f e i (view (fl_store f) i) (view (fl_store f') i))"
  using assms(1)
proof (cases rule: fleet_step.cases)
  case (submit rs res s')
  then show ?thesis
    using put_law [OF i, of rs res s'] put_all_fate [where v = "view (fl_store f)" and rs = rs]
    by (cases res) (simp_all add: initiate_tasks_def)
next
  case (schedule sc clock t0 t1 t2 d s')
  with scheduler_call_adds [OF i schedule(3)] show ?thesis
    using put_all_fate [where v = "view (fl_store f)"] by auto
next
  case (claim w now limit rs s')
  with worker_assign_exact [OF i claim(3)] show ?thesis by (auto intro: claim_fate)
next
  case (handle w r now)
  with handle_task_exact [OF i, of "reg w" now r] handle_task_law [OF i, of "reg w" now r] handle_fate
  show ?thesis by simp
next
  case (crash w)
  with i show ?thesis by simp
next
  case (serve step)
  with service_step_view [OF i, of step] show ?thesis by (simp add: fate_def) blast
qed

lemma fleet_run_inv: "fleet_run B W L E reg s0 tr f \<Longrightarrow> inv s0 \<Longrightarrow> inv (fl_store f)"
  by (induction rule: fleet_run.induct) (auto dest: fleet_step_fate)

lemma submitted_known:
  assumes "fleet_step B W L E reg f (Submitted rs True) f'" and "inv (fl_store f)" and "r \<in> set rs"
  shows "view (fl_store f') (tr_id r) \<noteq> None"
  using assms(1)
proof (cases rule: fleet_step.cases)
  case (submit res s')
  then have "view s' = spec_put_all rs (view (fl_store f))"
    using put_law [OF assms(2), of rs res s'] by (simp add: initiate_tasks_def)
  with submit spec_put_all_known [OF assms(3)] show ?thesis by simp
qed

definition submitted_in :: "'s \<Rightarrow> fleet_event list \<Rightarrow> task_id \<Rightarrow> bool" where
  "submitted_in s0 tr i \<longleftrightarrow>
     view s0 i \<noteq> None \<or> (\<exists>rs r. Submitted rs True \<in> set tr \<and> r \<in> set rs \<and> tr_id r = i)"

lemma fleet_keeps:
  assumes "fleet_run B W L E reg s0 tr f" and "inv s0" and "submitted_in s0 tr i"
  shows "view (fl_store f) i \<noteq> None \<or> dropped_by_handler reg tr i \<or> expired_result B W L E reg expiry s0 tr i"
  using assms
proof (induction rule: fleet_run.induct)
  case start
  then show ?case by (simp add: submitted_in_def)
next
  case (more tr f e f')
  note i = fleet_run_inv [OF more.hyps(1) more.prems(1)]
  show ?case
  proof (cases "submitted_in s0 tr i")
    case False
    with more.prems(2) obtain rs r where "e = Submitted rs True" "r \<in> set rs" "tr_id r = i"
      by (auto simp: submitted_in_def)
    with submitted_known [of E reg f rs f' r] more.hyps(2) i show ?thesis by simp
  next
    case True
    with more.IH [OF more.prems(1)] have old: "view (fl_store f) i \<noteq> None \<or> dropped_by_handler reg tr i \<or>
      expired_result B W L E reg expiry s0 tr i" .
    show ?thesis
    proof (cases "view (fl_store f) i \<noteq> None \<and> view (fl_store f') i = None")
      case False
      with old left_mono(1) [of reg tr i "[e]"] left_mono(2) [of B W L E reg expiry s0 tr i "[e]"]
      show ?thesis by argo
    next
      case gone: True
      with fleet_step_fate [OF more.hyps(2) i] fate_gone [of reg f e i "view (fl_store f) i"]
      consider w r where "e = Handled w r" "tr_id r = i" "verdict_of (reg w) r = Drop"
        | now t where "e = Served (StepDiscard now)" "expiry (fl_store f) i = Some t" "t < now"
        by metis
      then show ?thesis
      proof cases
        case 1
        then show ?thesis by (auto simp: dropped_by_handler_def)
      next
        case 2
        with more.hyps(1) have "expired_result B W L E reg expiry s0 (tr @ [e]) i"
          unfolding expired_result_def by blast
        then show ?thesis by blast
      qed
    qed
  qed
qed

text \<open>An outcome that was not there at the beginning is what a worker's executor decided.\<close>

lemma fleet_outcomes:
  assumes "fleet_run B W L E reg s0 tr f" and "inv s0"
    and "view (fl_store f) i = Some (r, st)" and "(\<exists>b. st = Succeeded b) \<or> (\<exists>m. st = Failed m)"
  shows "view s0 i = Some (r, st) \<or>
    (\<exists>w q. Handled w q \<in> set tr \<and> tr_id q = i \<and> verdict_of (reg w) q = Finish st)"
  using assms
proof (induction rule: fleet_run.induct)
  case (more tr f e f')
  note i = fleet_run_inv [OF more.hyps(1) more.prems(1)]
  from fleet_step_fate [OF more.hyps(2) i] fate_finished [of reg f e i _ r st] more.prems(2,3)
  have "view (fl_store f) i = Some (r, st) \<or> (\<exists>w q. e = Handled w q \<and> tr_id q = i \<and> verdict_of (reg w) q = Finish st)"
    by metis
  with more.IH [OF more.prems(1) _ more.prems(3)] show ?case by auto
qed simp

end

interpretation mem_fleet: reliable_cluster memory_tasks mb_inv mb_view mb_sched memory_workers mb_workers
  memory_locks mb_expiry
  by unfold_locales

subsection \<open>Every task can still be run\<close>

text \<open>No step of the fleet leaves a lock taken on the in-process backend.\<close>

abbreviation held :: "memory_backend \<Rightarrow> string set" where
  "held b \<equiv> st_held_locks (mb_state b)"

lemma held_put: "st_held_locks (put r st) = st_held_locks st"
  by (simp add: put_def next_seq_def Let_def)

lemma held_locks_kept [simp]:
  "st_held_locks (put_tasks rs st) = st_held_locks st"
  "st_held_locks (retry_task r st) = st_held_locks st"
  "st_held_locks (discard_tasks ids st) = st_held_locks st"
  "st_held_locks (mem_succeed now r b st) = st_held_locks st"
  "st_held_locks (mem_fail now r m st) = st_held_locks st"
  "st_held_locks (mem_restore si st) = st_held_locks st"
  "st_held_locks (set_worker_ttl ws t st) = st_held_locks st"
  "st_held_locks (purge_workers ws st) = st_held_locks st"
  by (simp_all add: held_put_tasks held_discard held_put retry_task_def mem_succeed_def mem_fail_def finish_def
      mem_restore_def set_worker_ttl_def purge_workers_def next_seq_def Let_def split: option.splits prod.splits)

lemma held_claim: "claim now w ids st = Some (rs, st') \<Longrightarrow> st_held_locks st' = st_held_locks st"
  by (induction ids arbitrary: st rs) (auto simp: Let_def split: option.splits)

lemma held_assign: "worker_assign memory_tasks w now n b = (rs, b') \<Longrightarrow> held b' = held b"
  using held_claim [of now "w_id w" "map (\<lambda>e. ti_id (e_info e)) (due_entries now (w_group w) n (mb_state b))" "mb_state b"]
  by (simp add: worker_assign_def memory_tasks_def memory_assign_tasks_def assign_tasks_def Let_def
      split: option.splits) auto

lemma held_handle: "held (handle_task memory_tasks reg now r b) = held b"
  by (simp add: handle_task_def Let_def memory_ops_succeed worker_discard_task_def worker_retry_def
      split: option.splits sum.splits task_error.splits)

lemma held_scheduler_call:
  assumes "scheduler_call E memory_tasks memory_locks sc clock t0 t1 t2 b = (d, b')"
  shows "held b' = held b"
proof (cases "sc_entries sc = [] \<or> ''scheduler.'' @ sc_name sc \<in> held b")
  case True
  with assms show ?thesis
    by (cases "sc_entries sc = []") (auto simp: scheduler_call_def Let_def memory_lock_steps)
next
  case False
  let ?t = "''scheduler.'' @ sc_name sc"
  let ?b1 = "b\<lparr>mb_state := (mb_state b)\<lparr>st_held_locks := insert ?t (held b)\<rparr>\<rparr>"
  obtain res b2 where run: "schedule_entries E memory_tasks sc clock t1 ?b1 = (res, b2)" by fastforce
  have "held b2 = insert ?t (held b)" using schedule_entries_held [OF run] by simp
  moreover have "held b' = held b2 - {?t}"
    using False assms run by (cases res) (auto simp: scheduler_call_def Let_def memory_lock_steps)
  ultimately show ?thesis using False by simp
qed

lemma held_restore_body: "held (restore_body memory_tasks memory_workers now b) = held b"
proof -
  have "held (fold (\<lambda>si b. if P si then snd (tb_restore memory_tasks si b) else b) sis b) = held b" for P sis
    by (induction sis arbitrary: b) (simp_all add: memory_ops_succeed)
  then show ?thesis by (simp add: restore_body_def Let_def split: sum.splits)
qed

lemma held_purge_body: "held (purge_body memory_workers now b) = held b"
  by (simp add: purge_body_def memory_workers_def on_state_def)

lemma held_service: "held (service_exec memory_tasks memory_workers memory_locks step b) = held b"
proof (cases step)
  case (StepRefresh workers now)
  then show ?thesis by (simp add: refresh_worker_lifetime_def memory_workers_def on_state_def Let_def)
next
  case (StepPurge now)
  then show ?thesis
    by (cases "''purge_workers'' \<in> held b") (auto simp: purge_dead_workers_def memory_lock_steps held_purge_body)
next
  case (StepRestore now)
  then show ?thesis
    by (cases "''restore_abandoned_tasks'' \<in> held b") (auto simp: restore_abandoned_tasks_def memory_lock_steps held_restore_body)
next
  case (StepDiscard now)
  then show ?thesis
    by (cases "''discard_disposable_tasks'' \<in> held b")
      (auto simp: discard_disposable_tasks_def memory_lock_steps memory_ops_succeed Let_def split: sum.splits)
qed

lemma fleet_held:
  "fleet_run memory_tasks memory_workers memory_locks E reg b0 tr f \<Longrightarrow> held (fl_store f) = held b0"
proof (induction rule: fleet_run.induct)
  case (more tr f e f')
  from more.hyps(2) more.IH show ?case
    by (cases rule: fleet_step.cases)
      (auto simp: initiate_tasks_def memory_ops_succeed held_handle held_service
        dest!: held_assign held_scheduler_call)
qed simp

definition staged_ids :: "tview \<Rightarrow> task_id set" where
  "staged_ids v = {i. \<exists>r w t. v i = Some (r, Staged w t)}"

text \<open>The store in which everything on the stage is back in the queue.\<close>

fun requeue :: "(task_record \<times> status) option \<Rightarrow> (task_record \<times> status) option" where
  "requeue (Some (r, Staged w t)) = Some (r, Queued)"
| "requeue x = x"

definition requeued :: "tview \<Rightarrow> tview" where
  "requeued v = (\<lambda>i. requeue (v i))"

lemma requeue_idem [simp]: "requeue (requeue x) = requeue x"
  by (cases x rule: requeue.cases) simp_all

lemma spec_restore_self: "spec_restore i v i = requeue (v i)"
  by (cases "v i" rule: requeue.cases) (simp_all add: spec_restore_def)

lemma requeue_not_staged: "requeue x \<noteq> Some (r, Staged w t)"
  by (cases x rule: requeue.cases) simp_all

lemma requeue_unstaged: "\<nexists>r w t. x = Some (r, Staged w t) \<Longrightarrow> requeue x = x"
  by (cases x rule: requeue.cases) auto

lemma requeued_none_staged: "staged_ids v = {} \<Longrightarrow> requeued v = v"
  unfolding requeued_def by (rule ext, rule requeue_unstaged) (auto simp: staged_ids_def)

lemma finite_view: "finite (dom (mb_view b))"
proof -
  have "dom (mb_view b) \<subseteq> dom (map_of (st_tasks (mb_state b)))" by (auto simp: mem_view_def)
  then show ?thesis by (rule finite_subset) (rule finite_dom_map_of)
qed

lemma finite_staged: "finite (staged_ids (mb_view b))"
  by (rule finite_subset [OF _ finite_view]) (auto simp: staged_ids_def)

text \<open>When every registration has run out, a restore call makes progress, whatever else is staged.\<close>

lemma restore_progress:
  assumes "mb_inv b" and "held b = {}" and "\<forall>(w, t)\<in>set (st_workers (mb_state b)). t < now"
  defines "b' \<equiv> service_exec memory_tasks memory_workers memory_locks (StepRestore now) b"
  shows "requeued (mb_view b') = requeued (mb_view b)"
    and "staged_ids (mb_view b) \<noteq> {} \<Longrightarrow> staged_ids (mb_view b') \<subset> staged_ids (mb_view b)"
proof -
  let ?t = "''restore_abandoned_tasks''"
  let ?b1 = "b\<lparr>mb_state := (mb_state b)\<lparr>st_held_locks := insert ?t (st_held_locks (mb_state b))\<rparr>\<rparr>"
  let ?sis = "get_stage_info 100 (mb_state b)"
  let ?b2 = "fold (\<lambda>si s. if True then snd (tb_restore memory_tasks si s) else s) ?sis ?b1"
  have i1: "mb_inv ?b1" using assms(1) by simp
  have "filter (\<lambda>(_, ttl). now \<le> ttl) (st_workers (mb_state b)) = []"
    using assms(3) by (auto simp: filter_empty_conv)
  then have "restore_body memory_tasks memory_workers now ?b1 = ?b2"
    by (simp add: restore_body_def memory_tasks_def memory_workers_def get_workers_def get_stage_info_def ordered_def)
  then have b': "mb_view b' = mb_view ?b2"
    using assms(2) by (simp add: b'_def restore_abandoned_tasks_def memory_lock_steps)
  have listed: "mb_view b' i = requeue (mb_view b i)" if "i \<in> si_task_id ` set ?sis" for i
  proof -
    from that obtain si where si: "si \<in> set ?sis" "si_task_id si = i" by blast
    have "mb_view ?b2 i = spec_restore i (mb_view ?b1) i"
      by (rule mem.restore_fold_complete [OF i1 _ si(1) TrueI si(2)]) (simp add: memory_ops_succeed)
    then show ?thesis unfolding b' by (simp add: spec_restore_self)
  qed
  have same: "mb_view b' i = mb_view b i \<or> mb_view b' i = requeue (mb_view b i)" for i
    using mem.restore_fold [OF i1, of "\<lambda>_. True" ?sis]
    unfolding b' mem.restored_def spec_restore_self by auto
  show "requeued (mb_view b') = requeued (mb_view b)"
    unfolding requeued_def by (rule ext) (metis same requeue_idem)
  assume ne: "staged_ids (mb_view b) \<noteq> {}"
  then obtain j where j: "j \<in> staged_ids (mb_view b)" by blast
  have "?sis \<noteq> []"
  proof
    assume "?sis = []"
    moreover from j obtain r w t where "mb_view b j = Some (r, Staged w t)" by (auto simp: staged_ids_def)
    ultimately show False using get_stage_info_spec(4) [OF assms(1), of ?sis 100 j r w t] by simp
  qed
  then obtain si where si: "si \<in> set ?sis" by (cases ?sis) auto
  then have k: "si_task_id si \<in> si_task_id ` set ?sis" by blast
  from get_stage_info_spec(3) [OF assms(1) refl, of 100] si
  have "si_task_id si \<in> staged_ids (mb_view b)" by (auto simp: staged_ids_def)
  moreover have "si_task_id si \<notin> staged_ids (mb_view b')"
    using listed [OF k] by (simp add: staged_ids_def requeue_not_staged)
  moreover have "staged_ids (mb_view b') \<subseteq> staged_ids (mb_view b)"
  proof
    fix i assume "i \<in> staged_ids (mb_view b')"
    then obtain r w t where "mb_view b' i = Some (r, Staged w t)" by (auto simp: staged_ids_def)
    with same [of i] requeue_not_staged [of "mb_view b i" r w t] have "mb_view b i = Some (r, Staged w t)"
      by auto
    then show "i \<in> staged_ids (mb_view b)" by (auto simp: staged_ids_def)
  qed
  ultimately show "staged_ids (mb_view b') \<subset> staged_ids (mb_view b)" by blast
qed

lemma later_than_all: "\<exists>now :: timestamp. \<forall>(w, t)\<in>set ws. t < now"
proof (induction ws)
  case (Cons p ws)
  then obtain now where now: "\<forall>(w, t)\<in>set ws. t < now" by blast
  have "\<forall>(w, t)\<in>set (p # ws). t < max now (snd p + 1)"
    using now by (auto simp: less_max_iff_disj)
  then show ?case by blast
qed simp

lemma stage_can_be_emptied:
  assumes "fleet_run memory_tasks memory_workers memory_locks E reg b0 tr f" and "mb_inv b0" and "held b0 = {}"
  shows "\<exists>tr' f'. fleet_run memory_tasks memory_workers memory_locks E reg b0 (tr @ tr') f' \<and>
    mb_view (fl_store f') = requeued (mb_view (fl_store f))"
  using assms(1)
proof (induction "card (staged_ids (mb_view (fl_store f)))" arbitrary: tr f rule: less_induct)
  case less
  show ?case
  proof (cases "staged_ids (mb_view (fl_store f)) = {}")
    case True
    with less.prems requeued_none_staged [OF True] show ?thesis by (metis append_Nil2)
  next
    case False
    have i: "mb_inv (fl_store f)" by (rule mem_fleet.fleet_run_inv [OF less.prems assms(2)])
    have h: "held (fl_store f) = {}" using fleet_held [OF less.prems] assms(3) by simp
    obtain now where "\<forall>(w, t)\<in>set (st_workers (mb_state (fl_store f))). t < now"
      using later_than_all [of "st_workers (mb_state (fl_store f))"] by (rule exE)
    note R = restore_progress [OF i h this]
    let ?f = "f\<lparr>fl_store := service_exec memory_tasks memory_workers memory_locks (StepRestore now) (fl_store f)\<rparr>"
    have run: "fleet_run memory_tasks memory_workers memory_locks E reg b0 (tr @ [Served (StepRestore now)]) ?f"
      by (rule fleet_run.more [OF less.prems fleet_step.serve])
    have "card (staged_ids (mb_view (fl_store ?f))) < card (staged_ids (mb_view (fl_store f)))"
      using psubset_card_mono [OF finite_staged R(2) [OF False]] by simp
    from less.hyps [OF this run] obtain tr' f' where
      "fleet_run memory_tasks memory_workers memory_locks E reg b0 ((tr @ [Served (StepRestore now)]) @ tr') f'"
      "mb_view (fl_store f') = requeued (mb_view (fl_store ?f))" by blast
    with R(1) have "fleet_run memory_tasks memory_workers memory_locks E reg b0
        (tr @ (Served (StepRestore now) # tr')) f' \<and> mb_view (fl_store f') = requeued (mb_view (fl_store f))" by simp
    then show ?thesis by blast
  qed
qed

text \<open>A worker with enough free slots is given every task of its group that is due.\<close>

lemma claim_all:
  assumes "mb_inv b" and "claimable now (w_group w) (mb_view b) r"
    and "worker_assign memory_tasks w now (Suc (card (dom (mb_view b)))) b = (rs, b')"
  shows "r \<in> set rs \<and> mb_inv b' \<and> mb_view b' (tr_id r) = Some (r, Staged (w_id w) now)"
proof -
  from mem_rel.worker_assign_exact [OF assms(1,3)] have inv: "mb_inv b'"
    and g: "good_batch now (w_group w) (Suc (card (dom (mb_view b)))) (mb_view b) rs"
    and v: "mb_view b' = spec_assign now (w_id w) rs (mb_view b)" by auto
  from g have d: "distinct (map tr_id rs)" and c: "\<forall>q\<in>set rs. claimable now (w_group w) (mb_view b) q"
    by (simp_all add: good_batch_def)
  from c have "set (map tr_id rs) \<subseteq> dom (mb_view b)" by (auto simp: claimable_def)
  then have "length rs \<le> card (dom (mb_view b))"
    using card_mono [OF finite_view] distinct_card [OF d] by (metis length_map)
  with g assms(2) have "r \<in> set rs" by (simp add: good_batch_def)
  with inv v spec_assign_in [OF d this] show ?thesis by simp
qed

lemma spec_handle_staged:
  "v (tr_id r) = Some (r, Staged w t) \<Longrightarrow> spec_handle reg now r v (tr_id r) =
     (case verdict_of reg r of
        Finish st \<Rightarrow> Some (r, st)
      | Drop \<Rightarrow> None
      | Again d \<Rightarrow> Some (new_record (clone_for_retry now (tr_info r) d) (tr_data r), Queued))"
  by (simp add: spec_handle_def spec_finish_def spec_discard_def spec_retry_def new_record_def clone_for_retry_def
      split: verdict.split)

lemma view_id: "mb_inv b \<Longrightarrow> mb_view b i = Some (r, st) \<Longrightarrow> tr_id r = i"
  by (auto simp: mem_view_def entry_record_def new_record_def dest: wf_memD(1))

lemma queued_can_be_handled:
  assumes "fleet_run memory_tasks memory_workers memory_locks E reg b0 tr f" and "mb_inv b0"
    and q: "mb_view (fl_store f) i = Some (r, Queued)" and w: "w_group w = ti_group (tr_info r)"
  shows "\<exists>now tr' f'. fleet_run memory_tasks memory_workers memory_locks E reg b0 (tr @ tr') f' \<and>
    mb_view (fl_store f') i =
      (case verdict_of (reg w) r of
         Finish st \<Rightarrow> Some (r, st)
       | Drop \<Rightarrow> None
       | Again d \<Rightarrow> Some (new_record (clone_for_retry now (tr_info r) d) (tr_data r), Queued))"
proof -
  let ?b = "fl_store f" and ?t = "ti_due (tr_info r)"
  have inv: "mb_inv ?b" by (rule mem_fleet.fleet_run_inv [OF assms(1,2)])
  have id: "tr_id r = i" by (rule view_id [OF inv q])
  obtain rs b1 where a: "worker_assign memory_tasks w ?t (Suc (card (dom (mb_view ?b)))) ?b = (rs, b1)" by fastforce
  have "claimable ?t (w_group w) (mb_view ?b) r" using q id w by (simp add: claimable_def)
  from claim_all [OF inv this a] have r: "r \<in> set rs" "mb_inv b1" "mb_view b1 (tr_id r) = Some (r, Staged (w_id w) ?t)"
    by auto
  let ?f1 = "f\<lparr>fl_store := b1, fl_running := fl_running f @ map (Pair w) rs\<rparr>"
  have run1: "fleet_run memory_tasks memory_workers memory_locks E reg b0 (tr @ [Claimed w rs]) ?f1"
    by (rule fleet_run.more [OF assms(1) fleet_step.claim [OF a]])
  let ?f2 = "?f1\<lparr>fl_store := handle_task memory_tasks (reg w) ?t r (fl_store ?f1),
    fl_running := remove1 (w, r) (fl_running ?f1)\<rparr>"
  have "(w, r) \<in> set (fl_running ?f1)" using r(1) by simp
  from fleet_run.more [OF run1 fleet_step.handle [OF this]]
  have "fleet_run memory_tasks memory_workers memory_locks E reg b0 ((tr @ [Claimed w rs]) @ [Handled w r]) ?f2" .
  moreover have "mb_view (fl_store ?f2) i =
      (case verdict_of (reg w) r of
         Finish st \<Rightarrow> Some (r, st)
       | Drop \<Rightarrow> None
       | Again d \<Rightarrow> Some (new_record (clone_for_retry ?t (tr_info r) d) (tr_data r), Queued))"
    using handle_task_memory [OF r(2), of "reg w" ?t r] spec_handle_staged [where v = "mb_view b1", OF r(3)] id
    by simp
  ultimately show ?thesis by (metis append.assoc)
qed

subsection \<open>Properties\<close>

text \<open>
  C2: No task is lost, and no result is invented.  However applications, schedulers, workers, crashes
  and helper services are interleaved on the in-process backend, a task that was submitted stays in
  the store until its own handler asked for it to be discarded or its result has outlived its time to
  live.  A task is handled only by a worker that has claimed it, and the outcome that is stored for a
  task is the one that such an execution of that task produced.
\<close>

theorem no_task_lost:
  assumes "fleet_run memory_tasks memory_workers memory_locks E reg memory_new tr f"
  shows "(\<forall>rs r. Submitted rs True \<in> set tr \<and> r \<in> set rs \<longrightarrow>
      mb_view (fl_store f) (tr_id r) \<noteq> None \<or> dropped_by_handler reg tr (tr_id r) \<or>
      expired_result memory_tasks memory_workers memory_locks E reg mb_expiry memory_new tr (tr_id r)) \<and>
    (\<forall>i r st. mb_view (fl_store f) i = Some (r, st) \<and> ((\<exists>b. st = Succeeded b) \<or> (\<exists>m. st = Failed m)) \<longrightarrow>
      (\<exists>w q rs. Claimed w rs \<in> set tr \<and> q \<in> set rs \<and> Handled w q \<in> set tr \<and> tr_id q = i \<and>
         verdict_of (reg w) q = Finish st))"
proof -
  have inv: "mb_inv memory_new" by (simp add: memory_new_def wf_mem_default)
  have empty: "mb_view memory_new = Map.empty" by (simp add: memory_new_def)
  have keeps: "mb_view (fl_store f) (tr_id r) \<noteq> None \<or> dropped_by_handler reg tr (tr_id r) \<or>
      expired_result memory_tasks memory_workers memory_locks E reg mb_expiry memory_new tr (tr_id r)"
    if "Submitted rs True \<in> set tr" "r \<in> set rs" for rs r
    by (rule mem_fleet.fleet_keeps [OF assms inv]) (use that in \<open>auto simp: mem_fleet.submitted_in_def\<close>)
  have outcome: "\<exists>w q rs. Claimed w rs \<in> set tr \<and> q \<in> set rs \<and> Handled w q \<in> set tr \<and> tr_id q = i \<and>
      verdict_of (reg w) q = Finish st"
    if "mb_view (fl_store f) i = Some (r, st)" "(\<exists>b. st = Succeeded b) \<or> (\<exists>m. st = Failed m)" for i r st
  proof -
    from mem_fleet.fleet_outcomes [OF assms inv that] empty
    obtain w q where "Handled w q \<in> set tr" "tr_id q = i" "verdict_of (reg w) q = Finish st" by auto
    moreover from this(1) fleet_claimed [OF assms] obtain rs where "Claimed w rs \<in> set tr" "q \<in> set rs" by blast
    ultimately show ?thesis by blast
  qed
  from keeps outcome show ?thesis by blast
qed

definition sample_workers :: "worker \<Rightarrow> task_registry" where
  "sample_workers w = register sample_echo new_registry"

text \<open>A worker takes a task and crashes.\<close>

lemma sample_fleet:
  fixes E :: "('dt, 'tz) sched_env"
  shows "\<exists>f t. fleet_run memory_tasks memory_workers memory_locks E sample_workers memory_new
      [Submitted [sample_task ''a'' ''g'' 5] True, Claimed sample_worker [sample_task ''a'' ''g'' 5], Crashed sample_worker] f \<and>
    mb_view (fl_store f) ''a'' = Some (sample_task ''a'' ''g'' 5, Staged ''w'' t)"
proof -
  let ?r = "sample_task ''a'' ''g'' 5"
  let ?run = "fleet_run memory_tasks memory_workers memory_locks E sample_workers memory_new"
  let ?b1 = "memory_new\<lparr>mb_state := put_tasks [?r] (mb_state memory_new)\<rparr>"
  have "initiate_tasks memory_tasks [?r] memory_new = (Inr (), ?b1)"
    by (simp add: initiate_tasks_def memory_ops_succeed)
  from fleet_run.more [OF fleet_run.start fleet_step.submit, of memory_tasks "[?r]" memory_new] this
  have run1: "?run [Submitted [?r] True] \<lparr>fl_store = ?b1, fl_running = []\<rparr>" by fastforce
  have "\<exists>b2. worker_assign memory_tasks sample_worker 6 1 ?b1 = ([?r], b2)"
    by (simp add: worker_assign_def memory_tasks_def memory_assign_tasks_def memory_new_def mem_eval sample_worker_def)
  then obtain b2 where a: "worker_assign memory_tasks sample_worker 6 1 ?b1 = ([?r], b2)" by blast
  from fleet_run.more [OF run1 fleet_step.claim] a
  have run2: "?run [Submitted [?r] True, Claimed sample_worker [?r]]
      \<lparr>fl_store = b2, fl_running = [(sample_worker, ?r)]\<rparr>" by fastforce
  from fleet_run.more [OF run2 fleet_step.crash [where w = sample_worker]]
  have run3: "?run [Submitted [?r] True, Claimed sample_worker [?r], Crashed sample_worker]
      \<lparr>fl_store = b2, fl_running = []\<rparr>" by simp
  have "mb_inv ?b1" by (simp add: memory_new_def wf_mem_default wf_mem_put_tasks)
  from mem_rel.worker_assign_exact [OF this a] have "mb_view b2 ''a'' = Some (?r, Staged ''w'' 6)"
    by (simp add: spec_assign_def sample_worker_def) (simp add: sample_task_def)
  with run3 show ?thesis by (intro exI [of _ "\<lparr>fl_store = b2, fl_running = []\<rparr>"] exI [of _ 6]) simp
qed

theorem no_task_lost_witness:
  "\<exists>f. fleet_run memory_tasks memory_workers memory_locks exact_env sample_workers memory_new
      [Submitted [sample_task ''a'' ''g'' 5] True, Claimed sample_worker [sample_task ''a'' ''g'' 5], Crashed sample_worker] f \<and>
    mb_view (fl_store f) ''a'' \<noteq> None"
proof -
  obtain f where run: "fleet_run memory_tasks memory_workers memory_locks exact_env sample_workers memory_new
      [Submitted [sample_task ''a'' ''g'' 5] True, Claimed sample_worker [sample_task ''a'' ''g'' 5], Crashed sample_worker] f"
    using sample_fleet by blast
  from no_task_lost [OF run, THEN conjunct1, rule_format, of "[sample_task ''a'' ''g'' 5]" "sample_task ''a'' ''g'' 5"]
  have "mb_view (fl_store f) (tr_id (sample_task ''a'' ''g'' 5)) \<noteq> None"
    by (auto simp: dropped_by_handler_def expired_result_def Cons_eq_append_conv)
  with run show ?thesis by (intro exI [of _ f]) (simp add: sample_task_def)
qed

text \<open>
  C5: No task is ever stuck.  From every state that processes on the in-process backend can reach,
  whoever crashed and however many tasks were left on the stage, the helper services and one worker
  of its group can bring any unfinished task to its execution: there is a continuation after which the
  task has the fate that the executor decides on exactly the record that is stored now.
\<close>

theorem no_task_stuck:
  assumes "fleet_run memory_tasks memory_workers memory_locks E reg memory_new tr f"
    and "mb_view (fl_store f) i = Some (r, st)" and "st = Queued \<or> (\<exists>v t. st = Staged v t)"
    and "w_group w = ti_group (tr_info r)"
  shows "\<exists>now tr' f'. fleet_run memory_tasks memory_workers memory_locks E reg memory_new (tr @ tr') f' \<and>
    mb_view (fl_store f') i =
      (case verdict_of (reg w) r of
         Finish out \<Rightarrow> Some (r, out)
       | Drop \<Rightarrow> None
       | Again d \<Rightarrow> Some (new_record (clone_for_retry now (tr_info r) d) (tr_data r), Queued))"
proof -
  have inv: "mb_inv memory_new" and h: "held memory_new = {}"
    by (simp_all add: memory_new_def wf_mem_default) (simp add: state_default_def)
  from stage_can_be_emptied [OF assms(1) inv h] obtain tr1 f1
    where run: "fleet_run memory_tasks memory_workers memory_locks E reg memory_new (tr @ tr1) f1"
      and v: "mb_view (fl_store f1) = requeued (mb_view (fl_store f))" by blast
  have "mb_view (fl_store f1) i = Some (r, Queued)" using assms(2,3) by (auto simp: v requeued_def)
  from queued_can_be_handled [OF run inv this assms(4)] show ?thesis by (metis append.assoc)
qed

theorem no_task_stuck_witness:
  "\<exists>tr f. fleet_run memory_tasks memory_workers memory_locks exact_env sample_workers memory_new tr f \<and>
    mb_view (fl_store f) ''a'' = Some (sample_task ''a'' ''g'' 5, Succeeded ''d!'')"
proof -
  let ?r = "sample_task ''a'' ''g'' 5"
  obtain f t where run: "fleet_run memory_tasks memory_workers memory_locks exact_env sample_workers memory_new
      [Submitted [?r] True, Claimed sample_worker [?r], Crashed sample_worker] f"
    and v: "mb_view (fl_store f) ''a'' = Some (?r, Staged ''w'' t)"
    using sample_fleet [of exact_env] by blast
  have g: "w_group sample_worker = ti_group (tr_info ?r)" by (simp add: sample_worker_def sample_task_def)
  have verdict: "verdict_of (sample_workers sample_worker) ?r = Finish (Succeeded ''d!'')"
    by (simp add: verdict_of_def sample_workers_def sample_task_def sample_echo_def execute_def)
  from no_task_stuck [OF run v _ g] verdict show ?thesis by auto
qed

end
