(* ===== verification/Sqlx.thy ===== *)
theory Sqlx imports Backend_Api begin

section \<open>The backend shared by the SQL dialects (src/src/impls/sqlx.rs)\<close>

text \<open>
  \<open>DbTask\<close> and its conversions, the trait \<open>SqlQueries\<close> as a record of operations, and every
  operation of \<open>SqlxBackend\<close> over such a record.  A query that is part of a transaction takes the
  transaction and the server's state and returns both; one that goes to the pool takes the
  server's state only.  \<open>Timestamp::now()\<close> is an argument.  Reading a row can panic (its \<open>ttl\<close> may
  not be a duration): an operation that reads returns \<^const>\<open>None\<close> then.
\<close>

subsection \<open>Rows\<close>

record db_task =
  d_id :: string
  d_group :: string
  d_name :: string
  d_data :: bytes
  d_due :: f64
  d_created :: f64
  d_scheduled :: "f64 option"
  d_retry_count :: "32 word"
  d_ttl :: f64
  d_assignee_worker_id :: "string option"
  d_began :: "f64 option"
  d_result :: "bytes option"
  d_error_message :: "string option"
  d_done :: "f64 option"
  d_disposable :: "f64 option"

record db_stage_info =
  ds_worker_id :: string
  ds_task_id :: string
  ds_assigned_at :: f64

definition to_stage_info :: "db_stage_info \<Rightarrow> stage_info" where
  "to_stage_info ds =
     \<lparr>si_worker_id = ds_worker_id ds, si_task_id = ds_task_id ds, si_assigned_at = ds_assigned_at ds\<rparr>"

definition from_task_record :: "task_record \<Rightarrow> db_task" where
  "from_task_record r =
     \<lparr>d_id = ti_id (tr_info r), d_group = ti_group (tr_info r), d_name = ti_name (tr_info r),
      d_data = tr_data r, d_due = ti_due (tr_info r), d_created = ti_created (tr_info r),
      d_scheduled = ti_scheduled (tr_info r), d_retry_count = ti_retry_count (tr_info r),
      d_ttl = ttl_as_secs_f64 (ti_ttl (tr_info r)), d_assignee_worker_id = None, d_began = None,
      d_result = None, d_error_message = None, d_done = None, d_disposable = None\<rparr>"

definition to_task_record :: "db_task \<Rightarrow> task_record option" where
  "to_task_record d =
     (case ttl_from_secs_f64 (d_ttl d) of
        None \<Rightarrow> None
      | Some ttl \<Rightarrow>
          Some \<lparr>tr_info =
             \<lparr>ti_id = d_id d, ti_group = d_group d, ti_name = d_name d, ti_due = d_due d,
              ti_created = d_created d, ti_scheduled = d_scheduled d,
              ti_retry_count = d_retry_count d, ti_ttl = ttl\<rparr>,
            tr_data = d_data d\<rparr>)"

definition to_task_records :: "db_task list \<Rightarrow> task_record list option" where
  "to_task_records ds = those (map to_task_record ds)"

subsection \<open>The trait \<open>SqlQueries\<close>\<close>

text \<open>
  \<open>'t\<close> is the associated type of a transaction; \<open>sq_drop\<close> is what dropping one that was not
  committed does.
\<close>

type_synonym ('s, 't, 'a) in_tx = "'t \<Rightarrow> 's \<Rightarrow> (backend_error + 'a) \<times> 't \<times> 's"
type_synonym ('s, 'a) on_pool = "'s \<Rightarrow> (backend_error + 'a) \<times> 's"

record ('s, 't, 'l) sql_queries =
  sq_begin :: "('s, 't) on_pool"
  sq_commit :: "'t \<Rightarrow> ('s, unit) on_pool"
  sq_drop :: "'t \<Rightarrow> 's \<Rightarrow> 's"
  sq_fetch_task_for_update :: "string \<Rightarrow> ('s, 't, db_task option) in_tx"
  sq_fetch_task_for_assign :: "string \<Rightarrow> ('s, 't, db_task option) in_tx"
  sq_update_task_assignment :: "string \<Rightarrow> string \<Rightarrow> f64 \<Rightarrow> ('s, 't, unit) in_tx"
  sq_delete_tasks :: "task_id list \<Rightarrow> ('s, 't, unit) in_tx"
  sq_upsert_tasks :: "db_task list \<Rightarrow> ('s, 't, unit) in_tx"
  sq_update_task_done ::
    "string \<Rightarrow> f64 \<Rightarrow> f64 \<Rightarrow> bytes option \<Rightarrow> string option \<Rightarrow> f64 \<Rightarrow> ('s, 't, unit) in_tx"
  sq_upsert_scheduler_state :: "string \<Rightarrow> bytes \<Rightarrow> ('s, 't, unit) in_tx"
  sq_get_queued_tasks :: "string \<Rightarrow> nat \<Rightarrow> ('s, db_task list) on_pool"
  sq_list_due_task_ids :: "string \<Rightarrow> f64 \<Rightarrow> nat \<Rightarrow> ('s, string list) on_pool"
  sq_lookup_tasks :: "task_id list \<Rightarrow> ('s, db_task option list) on_pool"
  sq_discard_tasks :: "task_id list \<Rightarrow> ('s, 't, unit) in_tx"
  sq_get_result :: "task_id \<Rightarrow> ('s, db_task option) on_pool"
  sq_get_done_task_ids :: "f64 \<Rightarrow> f64 \<Rightarrow> nat \<Rightarrow> ('s, task_id list) on_pool"
  sq_get_disposable_task_ids :: "f64 \<Rightarrow> nat \<Rightarrow> ('s, task_id list) on_pool"
  sq_get_stage_info :: "nat \<Rightarrow> ('s, db_stage_info list) on_pool"
  sq_restore :: "string \<Rightarrow> ('s, 't, unit) in_tx"
  sq_get_scheduler_state :: "scheduler_name \<Rightarrow> ('s, bytes option) on_pool"
  sq_set_worker_ttl :: "worker_id list \<Rightarrow> f64 \<Rightarrow> ('s, unit) on_pool"
  sq_get_workers :: "('s, (worker_id \<times> timestamp) list) on_pool"
  sq_purge_workers :: "worker_id list \<Rightarrow> ('s, unit) on_pool"
  sq_get_lock :: "string \<Rightarrow> ('s, 'l) on_pool"
  sq_fetch_events_since :: "f64 \<Rightarrow> ('s, (f64 \<times> bytes) list) on_pool"
  sq_insert_event :: "f64 \<Rightarrow> bytes \<Rightarrow> ('s, unit) on_pool"
  sq_destroy_all :: "('s, unit) on_pool"

subsection \<open>Transactions\<close>

text \<open>
  The shape every writing operation has: begin, the statements joined by \<open>?\<close>, commit.  An early
  return drops the transaction.
\<close>

definition tx_return :: "'a \<Rightarrow> ('s, 't, 'a) in_tx" where
  "tx_return a tx s = (Inr a, tx, s)"

definition tx_bind :: "('s, 't, 'a) in_tx \<Rightarrow> ('a \<Rightarrow> ('s, 't, 'b) in_tx) \<Rightarrow> ('s, 't, 'b) in_tx" where
  "tx_bind m f tx s =
     (case m tx s of (Inl e, tx', s') \<Rightarrow> (Inl e, tx', s') | (Inr a, tx', s') \<Rightarrow> f a tx' s')"

definition transaction :: "('s, 't, 'l) sql_queries \<Rightarrow> ('s, 't, 'a) in_tx \<Rightarrow> ('s, 'a) on_pool" where
  "transaction Q body s =
     (case sq_begin Q s of
        (Inl e, s) \<Rightarrow> (Inl e, s)
      | (Inr tx, s) \<Rightarrow>
          (case body tx s of
             (Inl e, tx, s) \<Rightarrow> (Inl e, sq_drop Q tx s)
           | (Inr a, tx, s) \<Rightarrow>
               (case sq_commit Q tx s of (Inl e, s) \<Rightarrow> (Inl e, s) | (Inr u, s) \<Rightarrow> (Inr a, s))))"

subsection \<open>\<open>TaskBackend\<close>\<close>

definition sqlx_put_tasks :: "('s, 't, 'l) sql_queries \<Rightarrow> task_record list \<Rightarrow> ('s, unit) on_pool" where
  "sqlx_put_tasks Q tasks s =
     (if tasks = [] then (Inr (), s)
      else let db_tasks = map from_task_record tasks in transaction Q (sq_upsert_tasks Q db_tasks) s)"

definition sqlx_get_queued_tasks ::
  "('s, 't, 'l) sql_queries \<Rightarrow> string \<Rightarrow> nat \<Rightarrow> 's \<Rightarrow> (backend_error + task_record list) option \<times> 's" where
  "sqlx_get_queued_tasks Q grp limit s =
     (case sq_get_queued_tasks Q grp limit s of
        (Inl e, s) \<Rightarrow> (Some (Inl e), s)
      | (Inr db_tasks, s) \<Rightarrow> (map_option Inr (to_task_records db_tasks), s))"

text \<open>
  \<open>assign_tasks\<close>: one transaction per candidate.  The call reads the clock many times and other
  processes act in between: \<open>clock k\<close> is the reading at its \<open>k\<close>-th reading, \<open>others k\<close> what the
  other processes have done just before.
\<close>

definition claim_one ::
  "('s, 't, 'l) sql_queries \<Rightarrow> string \<Rightarrow> string \<Rightarrow> f64 \<Rightarrow> ('s, db_task option) on_pool" where
  "claim_one Q worker pk now =
     transaction Q (tx_bind (sq_fetch_task_for_assign Q pk)
       (\<lambda>db_task_opt.
          case db_task_opt of
            Some db_task \<Rightarrow>
              if d_began db_task = None
              then tx_bind (sq_update_task_assignment Q pk worker now)
                (\<lambda>_. tx_return (Some (db_task\<lparr>d_assignee_worker_id := Some worker, d_began := Some now\<rparr>)))
              else tx_return None
          | None \<Rightarrow> tx_return None))"

text \<open>
  The inner loop; \<^const>\<open>True\<close> beside the batch means that it is full.  The number is the count of
  clock readings so far.
\<close>

fun claim_candidates ::
  "('s, 't, 'l) sql_queries \<Rightarrow> string \<Rightarrow> nat \<Rightarrow> (nat \<Rightarrow> f64) \<Rightarrow> (nat \<Rightarrow> 's \<Rightarrow> 's) \<Rightarrow> nat \<Rightarrow> string list
   \<Rightarrow> task_record list \<Rightarrow> 's \<Rightarrow> (backend_error + (bool \<times> task_record list)) option \<times> nat \<times> 's" where
  "claim_candidates Q worker limit clock others k [] assigned s = (Some (Inr (False, assigned)), k, s)"
| "claim_candidates Q worker limit clock others k (pk # pks) assigned s =
     (case claim_one Q worker pk (clock k) (others k s) of
        (Inl e, s) \<Rightarrow> (Some (Inl e), Suc k, s)
      | (Inr None, s) \<Rightarrow> claim_candidates Q worker limit clock others (Suc k) pks assigned s
      | (Inr (Some db_task), s) \<Rightarrow>
          (case to_task_record db_task of
             None \<Rightarrow> (None, Suc k, s)
           | Some r \<Rightarrow>
               (let assigned = assigned @ [r]
                in if length assigned = limit then (Some (Inr (True, assigned)), Suc k, s)
                   else claim_candidates Q worker limit clock others (Suc k) pks assigned s)))"

fun assign_loop ::
  "nat \<Rightarrow> ('s, 't, 'l) sql_queries \<Rightarrow> string \<Rightarrow> string \<Rightarrow> nat \<Rightarrow> (nat \<Rightarrow> f64) \<Rightarrow> (nat \<Rightarrow> 's \<Rightarrow> 's) \<Rightarrow> nat \<Rightarrow> nat
   \<Rightarrow> task_record list \<Rightarrow> 's \<Rightarrow> ((backend_error + task_record list) option \<times> 's) option" where
  "assign_loop 0 Q grp worker limit clock others scan k assigned s = None"
| "assign_loop (Suc fuel) Q grp worker limit clock others scan k assigned s =
     (case sq_list_due_task_ids Q grp (clock k) scan (others k s) of
        (Inl e, s) \<Rightarrow> Some (Some (Inl e), s)
      | (Inr pks, s) \<Rightarrow>
          (case claim_candidates Q worker limit clock others (Suc k) pks assigned s of
             (None, k, s) \<Rightarrow> Some (None, s)
           | (Some (Inl e), k, s) \<Rightarrow> Some (Some (Inl e), s)
           | (Some (Inr (True, assigned)), k, s) \<Rightarrow> Some (Some (Inr assigned), s)
           | (Some (Inr (False, assigned)), k, s) \<Rightarrow>
               if length pks < scan then Some (Some (Inr assigned), s)
               else assign_loop fuel Q grp worker limit clock others (scan * 2) k assigned s))"

definition sqlx_assign_tasks ::
  "nat \<Rightarrow> ('s, 't, 'l) sql_queries \<Rightarrow> (nat \<Rightarrow> f64) \<Rightarrow> (nat \<Rightarrow> 's \<Rightarrow> 's) \<Rightarrow> string \<Rightarrow> string \<Rightarrow> nat \<Rightarrow> 's
   \<Rightarrow> ((backend_error + task_record list) option \<times> 's) option" where
  "sqlx_assign_tasks fuel Q clock others grp worker limit s =
     (if limit = 0 then Some (Some (Inr []), s)
      else assign_loop fuel Q grp worker limit clock others (max limit 8) 0 [] s)"

definition sqlx_lookup_tasks ::
  "('s, 't, 'l) sql_queries \<Rightarrow> task_id list \<Rightarrow> 's \<Rightarrow> (backend_error + task_record option list) option \<times> 's" where
  "sqlx_lookup_tasks Q task_ids s =
     (if task_ids = [] then (Some (Inr []), s)
      else case sq_lookup_tasks Q task_ids s of
             (Inl e, s) \<Rightarrow> (Some (Inl e), s)
           | (Inr db_tasks, s) \<Rightarrow>
               (map_option Inr (those (map (\<lambda>opt. case opt of None \<Rightarrow> Some None
                                             | Some t \<Rightarrow> map_option Some (to_task_record t)) db_tasks)), s))"

definition sqlx_retry_task :: "('s, 't, 'l) sql_queries \<Rightarrow> task_record \<Rightarrow> ('s, unit) on_pool" where
  "sqlx_retry_task Q r =
     transaction Q (tx_bind (sq_delete_tasks Q [tr_id r]) (\<lambda>_. sq_upsert_tasks Q [from_task_record r]))"

definition sqlx_discard_tasks :: "('s, 't, 'l) sql_queries \<Rightarrow> task_id list \<Rightarrow> ('s, unit) on_pool" where
  "sqlx_discard_tasks Q task_ids s =
     (if task_ids = [] then (Inr (), s) else transaction Q (sq_discard_tasks Q task_ids) s)"

definition sqlx_succeed ::
  "('s, 't, 'l) sql_queries \<Rightarrow> timestamp \<Rightarrow> task_record \<Rightarrow> bytes \<Rightarrow> ('s, unit) on_pool" where
  "sqlx_succeed Q now r result =
     (let disposable = fadd now (ttl_as_secs_f64 (ti_ttl (tr_info r)));
          task_id = tr_id r
      in transaction Q (tx_bind (sq_fetch_task_for_update Q task_id)
           (\<lambda>existing.
              let began = (case Option.bind existing d_began of Some b \<Rightarrow> b | None \<Rightarrow> now)
              in sq_update_task_done Q task_id began now (Some result) None disposable)))"

definition sqlx_fail ::
  "('s, 't, 'l) sql_queries \<Rightarrow> timestamp \<Rightarrow> task_record \<Rightarrow> bytes \<Rightarrow> ('s, unit) on_pool" where
  "sqlx_fail Q now r error =
     (let disposable = fadd now (ttl_as_secs_f64 (ti_ttl (tr_info r)));
          task_id = tr_id r;
          error_message = from_utf8_lossy error
      in transaction Q (tx_bind (sq_fetch_task_for_update Q task_id)
           (\<lambda>existing.
              let began = (case Option.bind existing d_began of Some b \<Rightarrow> b | None \<Rightarrow> now)
              in sq_update_task_done Q task_id began now None (Some error_message) disposable)))"

definition sqlx_get_result ::
  "('s, 't, 'l) sql_queries \<Rightarrow> task_id \<Rightarrow> 's \<Rightarrow> (get_result_error + (task_record \<times> bytes)) option \<times> 's" where
  "sqlx_get_result Q task_id s =
     (case sq_get_result Q task_id s of
        (Inl e, s) \<Rightarrow> (Some (Inl (GR_Backend e)), s)
      | (Inr None, s) \<Rightarrow> (Some (Inl GR_NotFound), s)
      | (Inr (Some db), s) \<Rightarrow>
          (case to_task_record db of
             None \<Rightarrow> (None, s)
           | Some r \<Rightarrow>
               (Some (if d_done db = None then Inl (GR_NoResult r)
                      else case d_result db of
                             Some result \<Rightarrow> Inr (r, result)
                           | None \<Rightarrow> Inl (GR_Failed r (case d_error_message db of Some m \<Rightarrow> m | None \<Rightarrow> []))), s)))"

definition sqlx_get_done_task_ids ::
  "('s, 't, 'l) sql_queries \<Rightarrow> timestamp \<Rightarrow> timestamp option \<Rightarrow> timestamp option \<Rightarrow> nat
   \<Rightarrow> ('s, task_id list) on_pool" where
  "sqlx_get_done_task_ids Q now since until limit =
     (let since_val = (case since of Some t \<Rightarrow> t | None \<Rightarrow> 0);
          until_val = (case until of Some t \<Rightarrow> t | None \<Rightarrow> now)
      in sq_get_done_task_ids Q since_val until_val limit)"

definition sqlx_get_disposable_task_ids ::
  "('s, 't, 'l) sql_queries \<Rightarrow> timestamp \<Rightarrow> nat \<Rightarrow> ('s, task_id list) on_pool" where
  "sqlx_get_disposable_task_ids Q now limit = sq_get_disposable_task_ids Q now limit"

definition sqlx_get_stage_info ::
  "('s, 't, 'l) sql_queries \<Rightarrow> nat \<Rightarrow> ('s, stage_info list) on_pool" where
  "sqlx_get_stage_info Q limit s =
     (case sq_get_stage_info Q limit s of
        (Inl e, s) \<Rightarrow> (Inl e, s) | (Inr db_infos, s) \<Rightarrow> (Inr (map to_stage_info db_infos), s))"

definition sqlx_restore :: "('s, 't, 'l) sql_queries \<Rightarrow> stage_info \<Rightarrow> ('s, unit) on_pool" where
  "sqlx_restore Q info = transaction Q (sq_restore Q (si_task_id info))"

definition sqlx_persist_scheduler_state_and_put_tasks ::
  "('s, 't, 'l) sql_queries \<Rightarrow> scheduler_name \<Rightarrow> bytes \<Rightarrow> task_record list \<Rightarrow> ('s, unit) on_pool" where
  "sqlx_persist_scheduler_state_and_put_tasks Q name data tasks =
     transaction Q (tx_bind (sq_upsert_scheduler_state Q name data)
       (\<lambda>_. if tasks \<noteq> []
            then let db_tasks = map from_task_record tasks in sq_upsert_tasks Q db_tasks
            else tx_return ()))"

definition sqlx_get_scheduler_state ::
  "('s, 't, 'l) sql_queries \<Rightarrow> scheduler_name \<Rightarrow> ('s, bytes option) on_pool" where
  "sqlx_get_scheduler_state Q name = sq_get_scheduler_state Q name"

subsection \<open>\<open>WorkerTracker\<close> and \<open>LockProvider\<close>\<close>

definition sqlx_set_worker_ttl ::
  "('s, 't, 'l) sql_queries \<Rightarrow> worker_id list \<Rightarrow> timestamp \<Rightarrow> ('s, unit) on_pool" where
  "sqlx_set_worker_ttl Q worker_ids expires_at s =
     (if worker_ids = [] then (Inr (), s) else sq_set_worker_ttl Q worker_ids expires_at s)"

definition sqlx_get_workers :: "('s, 't, 'l) sql_queries \<Rightarrow> ('s, (worker_id \<times> timestamp) list) on_pool" where
  "sqlx_get_workers Q = sq_get_workers Q"

definition sqlx_purge_workers :: "('s, 't, 'l) sql_queries \<Rightarrow> worker_id list \<Rightarrow> ('s, unit) on_pool" where
  "sqlx_purge_workers Q worker_ids s =
     (if worker_ids = [] then (Inr (), s) else sq_purge_workers Q worker_ids s)"

definition sqlx_get_lock :: "('s, 't, 'l) sql_queries \<Rightarrow> string \<Rightarrow> ('s, 'l) on_pool" where
  "sqlx_get_lock Q target = sq_get_lock Q target"

definition sqlx_destroy_all :: "('s, 't, 'l) sql_queries \<Rightarrow> ('s, unit) on_pool" where
  "sqlx_destroy_all Q = sq_destroy_all Q"

subsection \<open>\<open>EventBridge\<close>\<close>

text \<open>
  The stream keeps an offset.  A poll fetches the later events, moves the offset past each one it
  looks at and stops at the first that decodes; the rest is fetched again by the next poll.
\<close>

fun scan_events ::
  "(bytes \<Rightarrow> control_event option) \<Rightarrow> (f64 \<times> bytes) list \<Rightarrow> f64 \<Rightarrow> control_event option \<times> f64" where
  "scan_events decode [] offset = (None, offset)"
| "scan_events decode ((sent, data) # events) offset =
     (case decode data of
        Some event \<Rightarrow> (Some event, sent)
      | None \<Rightarrow> scan_events decode events sent)"

definition poll_events ::
  "('s, 't, 'l) sql_queries \<Rightarrow> (bytes \<Rightarrow> control_event option) \<Rightarrow> f64 \<Rightarrow> 's
   \<Rightarrow> (control_event option \<times> f64) \<times> 's" where
  "poll_events Q decode offset s =
     (case sq_fetch_events_since Q offset s of
        (Inl e, s) \<Rightarrow> ((None, offset), s)
      | (Inr events, s) \<Rightarrow> (scan_events decode events offset, s))"

text \<open>
  One item of the stream: polls, one second apart, until an event comes.  \<open>others k\<close> is what the
  other processes do before the \<open>k\<close>-th poll; \<^const>\<open>None\<close> means that none of the \<open>fuel\<close> polls
  found an event.
\<close>

fun next_event ::
  "nat \<Rightarrow> ('s, 't, 'l) sql_queries \<Rightarrow> (bytes \<Rightarrow> control_event option) \<Rightarrow> (nat \<Rightarrow> 's \<Rightarrow> 's) \<Rightarrow> nat \<Rightarrow> f64 \<Rightarrow> 's
   \<Rightarrow> ((control_event \<times> f64) \<times> nat \<times> 's) option" where
  "next_event 0 Q decode others k offset s = None"
| "next_event (Suc fuel) Q decode others k offset s =
     (case poll_events Q decode offset (others k s) of
        ((Some event, offset), s) \<Rightarrow> Some ((event, offset), Suc k, s)
      | ((None, offset), s) \<Rightarrow> next_event fuel Q decode others (Suc k) offset s)"

text \<open>\<open>Display\<close> of a backend error, and sending an event; \<open>encode\<close> is serde's \<open>to_vec\<close>.\<close>

fun backend_error_to_string :: "backend_error \<Rightarrow> string" where
  "backend_error_to_string (Serialization m) = ''Serialization error: '' @ m"
| "backend_error_to_string (Deserialization m) = ''Deserialization error: '' @ m"
| "backend_error_to_string (Unavailable m) = ''Backend unavailable: '' @ m"
| "backend_error_to_string (OperationFailed m) = ''Operation failed: '' @ m"
| "backend_error_to_string (Unknown m) = ''Unknown backend error: '' @ m"

definition sqlx_send_event ::
  "('s, 't, 'l) sql_queries \<Rightarrow> (control_event \<Rightarrow> string + bytes) \<Rightarrow> timestamp \<Rightarrow> control_event \<Rightarrow> 's
   \<Rightarrow> (send_event_error + unit) \<times> 's" where
  "sqlx_send_event Q encode now event s =
     (case encode event of
        Inl m \<Rightarrow> (Inl (SerializationError m), s)
      | Inr data \<Rightarrow>
          (case sq_insert_event Q now data s of
             (Inl e, s) \<Rightarrow> (Inl (SendFailed (backend_error_to_string e)), s)
           | (Inr u, s) \<Rightarrow> (Inr u, s)))"

end
