(* ===== verification/Sql_Engine.thy ===== *)
theory Sql_Engine imports Sqlx begin

section \<open>The SQL statements the dialects use\<close>

text \<open>
  What a server does with the statement forms of postgres.rs and mysql.rs, over the four tables of
  the migrations.  A table is the list of its rows in the order a scan meets them, which is
  arbitrary: rows with equal keys come out of an \<open>ORDER BY\<close> in that order.  A statement either
  fails as a whole, with the server's message, or returns its result beside the tables it leaves.

  The connection is unreliable: \<open>sv_faults n\<close> says whether the \<open>n\<close>-th statement reaches its client,
  and, where it does not, whether it was executed all the same (the reply was lost).  A transaction
  works on a copy of the tables that \<open>COMMIT\<close> puts in place; transactions of different processes
  are taken one after the other.  \<open>sv_row_locked\<close> are the rows that an open transaction of another
  process holds, \<open>sv_session_locks\<close> the session (connection) that holds a named lock, with the number
  of times it took it.
\<close>

subsection \<open>Tables and servers\<close>

record sql_tables =
  t_task :: "db_task list"
  t_worker :: "(string \<times> f64) list"
  t_scheduler_state :: "(string \<times> bytes) list"
  t_control_event :: "(f64 \<times> bytes) list"

definition no_tables :: sql_tables where
  "no_tables = \<lparr>t_task = [], t_worker = [], t_scheduler_state = [], t_control_event = []\<rparr>"

record 'k sql_server =
  sv_tables :: sql_tables
  sv_faults :: "nat \<Rightarrow> (string \<times> bool) option"
  sv_count :: nat
  sv_row_locked :: "string \<Rightarrow> bool"
  sv_session_locks :: "'k \<Rightarrow> (nat \<times> nat) option"

type_synonym 'a statement = "sql_tables \<Rightarrow> string + ('a \<times> sql_tables)"

definition on_connection :: "'a statement \<Rightarrow> ('k sql_server, 'a) on_pool" where
  "on_connection f sv =
     (let sv' = sv\<lparr>sv_count := Suc (sv_count sv)\<rparr>
      in case (sv_faults sv (sv_count sv), f (sv_tables sv)) of
           (None, Inl m) \<Rightarrow> (Inl (OperationFailed m), sv')
         | (None, Inr (a, t)) \<Rightarrow> (Inr a, sv'\<lparr>sv_tables := t\<rparr>)
         | (Some (m, True), Inr (a, t)) \<Rightarrow> (Inl (OperationFailed m), sv'\<lparr>sv_tables := t\<rparr>)
         | (Some (m, _), _) \<Rightarrow> (Inl (OperationFailed m), sv'))"

definition in_transaction :: "'a statement \<Rightarrow> ('k sql_server, sql_tables, 'a) in_tx" where
  "in_transaction f tx sv =
     (let sv' = sv\<lparr>sv_count := Suc (sv_count sv)\<rparr>
      in case (sv_faults sv (sv_count sv), f tx) of
           (None, Inl m) \<Rightarrow> (Inl (OperationFailed m), tx, sv')
         | (None, Inr (a, t)) \<Rightarrow> (Inr a, t, sv')
         | (Some (m, _), _) \<Rightarrow> (Inl (OperationFailed m), tx, sv'))"

definition tx_begin :: "('k sql_server, sql_tables) on_pool" where
  "tx_begin = on_connection (\<lambda>t. Inr (t, t))"

definition tx_commit :: "sql_tables \<Rightarrow> ('k sql_server, unit) on_pool" where
  "tx_commit tx = on_connection (\<lambda>_. Inr ((), tx))"

definition tx_rollback :: "sql_tables \<Rightarrow> 'k sql_server \<Rightarrow> 'k sql_server" where
  "tx_rollback tx sv = sv"

subsection \<open>Statement forms\<close>

text \<open>\<open>key\<close> maps a row to what its primary key is compared by.\<close>

definition fetch_optional :: "('r \<Rightarrow> bool) \<Rightarrow> 'r list \<Rightarrow> 'r option" where
  "fetch_optional P rows = find P rows"

definition select_ordered :: "('r \<Rightarrow> bool) \<Rightarrow> ('r \<Rightarrow> f64) \<Rightarrow> 'r list \<Rightarrow> 'r list" where
  "select_ordered P ord rows = sort_key ord (filter P rows)"

definition update_where :: "('r \<Rightarrow> bool) \<Rightarrow> ('r \<Rightarrow> 'r) \<Rightarrow> 'r list \<Rightarrow> 'r list" where
  "update_where P f rows = map (\<lambda>r. if P r then f r else r) rows"

definition delete_where :: "('r \<Rightarrow> bool) \<Rightarrow> 'r list \<Rightarrow> 'r list" where
  "delete_where P rows = filter (\<lambda>r. \<not> P r) rows"

definition insert_or_ignore :: "('r \<Rightarrow> 'k) \<Rightarrow> 'r \<Rightarrow> 'r list \<Rightarrow> 'r list" where
  "insert_or_ignore key r rows = (if key r \<in> key ` set rows then rows else rows @ [r])"

definition insert_or_set :: "('r \<Rightarrow> 'k) \<Rightarrow> ('r \<Rightarrow> 'r \<Rightarrow> 'r) \<Rightarrow> 'r \<Rightarrow> 'r list \<Rightarrow> 'r list" where
  "insert_or_set key upd r rows =
     (if key r \<in> key ` set rows then update_where (\<lambda>r'. key r' = key r) (upd r) rows else rows @ [r])"

definition insert_all_or_ignore :: "('r \<Rightarrow> 'k) \<Rightarrow> 'r list \<Rightarrow> 'r list \<Rightarrow> 'r list" where
  "insert_all_or_ignore key rs rows = fold (insert_or_ignore key) rs rows"

definition insert_all_or_set :: "('r \<Rightarrow> 'k) \<Rightarrow> ('r \<Rightarrow> 'r \<Rightarrow> 'r) \<Rightarrow> 'r list \<Rightarrow> 'r list \<Rightarrow> 'r list" where
  "insert_all_or_set key upd rs rows = fold (insert_or_set key upd) rs rows"

text \<open>\<open>LIMIT\<close> with a bound integer, which has to be nonnegative.\<close>

definition limit_rows :: "int \<Rightarrow> 'r list \<Rightarrow> string + 'r list" where
  "limit_rows n rows = (if n < 0 then Inl ''LIMIT must not be negative'' else Inr (take (nat n) rows))"

definition query_limited :: "int \<Rightarrow> (sql_tables \<Rightarrow> 'r list) \<Rightarrow> 'r list statement" where
  "query_limited n f t = (case limit_rows n (f t) of Inl m \<Rightarrow> Inl m | Inr rows \<Rightarrow> Inr (rows, t))"

text \<open>Two statements in a row on the pool, the second only when the first succeeds.\<close>

definition pool_then :: "('s, 'a) on_pool \<Rightarrow> ('s, 'b) on_pool \<Rightarrow> ('s, 'b) on_pool" where
  "pool_then p q s = (case p s of (Inl e, s) \<Rightarrow> (Inl e, s) | (Inr _, s) \<Rightarrow> q s)"

text \<open>
  Locks held by a session: both dialects let a session take a lock it holds again, and free what
  a session holds when it ends.
\<close>

definition session_lock :: "'k \<Rightarrow> nat \<Rightarrow> ('k \<Rightarrow> (nat \<times> nat) option) \<Rightarrow> bool \<times> ('k \<Rightarrow> (nat \<times> nat) option)" where
  "session_lock k c locks =
     (case locks k of
        None \<Rightarrow> (True, locks(k \<mapsto> (c, 1)))
      | Some (c', n) \<Rightarrow> if c' = c then (True, locks(k \<mapsto> (c, Suc n))) else (False, locks))"

definition session_unlock :: "'k \<Rightarrow> nat \<Rightarrow> ('k \<Rightarrow> (nat \<times> nat) option) \<Rightarrow> bool \<times> ('k \<Rightarrow> (nat \<times> nat) option)" where
  "session_unlock k c locks =
     (case locks k of
        None \<Rightarrow> (False, locks)
      | Some (c', n) \<Rightarrow>
          if c' = c then (True, locks(k := (if n \<le> 1 then None else Some (c, n - 1)))) else (False, locks))"

definition session_end :: "nat \<Rightarrow> 'k sql_server \<Rightarrow> 'k sql_server" where
  "session_end c sv =
     sv\<lparr>sv_session_locks := (\<lambda>k. case sv_session_locks sv k of
          None \<Rightarrow> None | Some (c', n) \<Rightarrow> if c' = c then None else Some (c', n))\<rparr>"

definition on_session ::
  "(('k \<Rightarrow> (nat \<times> nat) option) \<Rightarrow> 'a \<times> ('k \<Rightarrow> (nat \<times> nat) option)) \<Rightarrow> ('k sql_server, 'a) on_pool" where
  "on_session f sv =
     (let sv' = sv\<lparr>sv_count := Suc (sv_count sv)\<rparr>; (a, locks) = f (sv_session_locks sv)
      in case sv_faults sv (sv_count sv) of
           None \<Rightarrow> (Inr a, sv'\<lparr>sv_session_locks := locks\<rparr>)
         | Some (m, True) \<Rightarrow> (Inl (OperationFailed m), sv'\<lparr>sv_session_locks := locks\<rparr>)
         | Some (m, False) \<Rightarrow> (Inl (OperationFailed m), sv'))"

text \<open>The queries about staged tasks read two columns that may be NULL into fields that may not.\<close>

definition stage_info_from_row :: "db_task \<Rightarrow> string + db_stage_info" where
  "stage_info_from_row d =
     (case (d_assignee_worker_id d, d_began d) of
        (Some w, Some t) \<Rightarrow> Inr \<lparr>ds_worker_id = w, ds_task_id = d_id d, ds_assigned_at = t\<rparr>
      | _ \<Rightarrow> Inl ''unexpected null; try decoding as an Option'')"

fun decode_rows :: "('r \<Rightarrow> string + 'a) \<Rightarrow> 'r list \<Rightarrow> string + 'a list" where
  "decode_rows f [] = Inr []"
| "decode_rows f (r # rs) =
     (case f r of
        Inl m \<Rightarrow> Inl m
      | Inr a \<Rightarrow> (case decode_rows f rs of Inl m \<Rightarrow> Inl m | Inr as \<Rightarrow> Inr (a # as)))"

subsection \<open>Reading tables as maps\<close>

definition row_of :: "('r \<Rightarrow> 'k) \<Rightarrow> 'r list \<Rightarrow> 'k \<Rightarrow> 'r option" where
  "row_of key rows k = find (\<lambda>r. key r = k) rows"

lemma row_of_Nil [simp]: "row_of key [] k = None"
  by (simp add: row_of_def)

lemma row_of_Cons: "row_of key (r # rows) k = (if key r = k then Some r else row_of key rows k)"
  by (simp add: row_of_def)

lemma row_of_append:
  "row_of key (xs @ ys) k = (case row_of key xs k of Some r \<Rightarrow> Some r | None \<Rightarrow> row_of key ys k)"
  by (induction xs) (simp_all add: row_of_Cons)

lemma row_of_None_iff: "row_of key rows k = None \<longleftrightarrow> k \<notin> key ` set rows"
  by (induction rows) (auto simp: row_of_Cons)

lemma row_of_Some_iff:
  "distinct (map key rows) \<Longrightarrow> row_of key rows k = Some r \<longleftrightarrow> r \<in> set rows \<and> key r = k"
  by (induction rows) (auto simp: row_of_Cons)

lemma row_of_SomeD: "row_of key rows k = Some r \<Longrightarrow> r \<in> set rows \<and> key r = k"
  by (induction rows) (auto simp: row_of_Cons split: if_splits)

lemma row_of_insert_or_ignore:
  "row_of key (insert_or_ignore key r rows) =
     (if row_of key rows (key r) = None then (row_of key rows)(key r \<mapsto> r) else row_of key rows)"
proof -
  have "key r \<in> key ` set rows \<longleftrightarrow> row_of key rows (key r) \<noteq> None" by (simp add: row_of_None_iff)
  then show ?thesis
    by (auto simp: insert_or_ignore_def row_of_append row_of_Cons fun_eq_iff split: option.splits)
qed

lemma distinct_insert_or_ignore:
  "distinct (map key rows) \<Longrightarrow> distinct (map key (insert_or_ignore key r rows))"
  by (auto simp: insert_or_ignore_def)

lemma distinct_insert_all_or_ignore:
  "distinct (map key rows) \<Longrightarrow> distinct (map key (insert_all_or_ignore key rs rows))"
  unfolding insert_all_or_ignore_def
  by (induction rs arbitrary: rows) (simp_all add: distinct_insert_or_ignore)

lemma row_of_update_where:
  assumes "\<And>r. r \<in> set rows \<Longrightarrow> key (f r) = key r"
  shows "row_of key (update_where P f rows) k =
    (case row_of key rows k of None \<Rightarrow> None | Some r \<Rightarrow> Some (if P r then f r else r))"
  using assms by (induction rows) (auto simp: update_where_def row_of_Cons)

lemma map_key_update_where:
  "(\<And>r. r \<in> set rows \<Longrightarrow> key (f r) = key r) \<Longrightarrow> map key (update_where P f rows) = map key rows"
  by (induction rows) (auto simp: update_where_def)

lemma row_of_delete_where:
  "row_of key (delete_where (\<lambda>r. key r \<in> K) rows) = row_of key rows |` (- K)"
proof
  fix k show "row_of key (delete_where (\<lambda>r. key r \<in> K) rows) k = (row_of key rows |` (- K)) k"
    by (induction rows) (auto simp: delete_where_def row_of_Cons restrict_map_def)
qed

lemma distinct_delete_where: "distinct (map key rows) \<Longrightarrow> distinct (map key (delete_where P rows))"
  unfolding delete_where_def by (rule distinct_map_filter)

lemma row_of_insert_or_set:
  assumes "\<And>r'. key (upd r r') = key r'"
  shows "row_of key (insert_or_set key upd r rows) =
     (row_of key rows)(key r \<mapsto> (case row_of key rows (key r) of None \<Rightarrow> r | Some r' \<Rightarrow> upd r r'))"
proof
  fix k
  show "row_of key (insert_or_set key upd r rows) k =
      ((row_of key rows)(key r \<mapsto> (case row_of key rows (key r) of None \<Rightarrow> r | Some r' \<Rightarrow> upd r r'))) k"
  proof (cases "key r \<in> key ` set rows")
    case True
    then have "row_of key rows (key r) \<noteq> None" by (simp add: row_of_None_iff)
    with True assms show ?thesis
      by (auto simp: insert_or_set_def row_of_update_where dest: row_of_SomeD split: option.splits)
  next
    case False
    then have "row_of key rows (key r) = None" by (simp add: row_of_None_iff)
    with False show ?thesis
      by (auto simp: insert_or_set_def row_of_append row_of_Cons split: option.splits)
  qed
qed

lemma distinct_insert_or_set:
  assumes "\<And>r'. key (upd r r') = key r'" and "distinct (map key rows)"
  shows "distinct (map key (insert_or_set key upd r rows))"
proof (cases "key r \<in> key ` set rows")
  case True
  then show ?thesis using assms
    by (simp add: insert_or_set_def map_key_update_where)
next
  case False
  then show ?thesis using assms(2) by (auto simp: insert_or_set_def)
qed

lemma select_ordered_set [simp]: "set (select_ordered P ord rows) = {r \<in> set rows. P r}"
  by (auto simp: select_ordered_def)

lemma select_ordered_sorted: "sorted (map ord (select_ordered P ord rows))"
  by (simp add: select_ordered_def)

lemma select_ordered_distinct:
  "distinct (map key rows) \<Longrightarrow> distinct (map key (select_ordered P ord rows))"
  by (simp add: select_ordered_def distinct_map_sort_key distinct_map_filter)

lemma length_select_ordered: "length (select_ordered P ord rows) = length (filter P rows)"
  by (simp add: select_ordered_def)

lemma decode_rows_Inr:
  "decode_rows f rs = Inr as \<longleftrightarrow> list_all2 (\<lambda>r a. f r = Inr a) rs as"
proof (induction rs arbitrary: as)
  case (Cons r rs)
  have "decode_rows f (r # rs) = Inr as \<longleftrightarrow>
      (\<exists>a as'. f r = Inr a \<and> decode_rows f rs = Inr as' \<and> as = a # as')"
    by (cases "f r"; cases "decode_rows f rs") auto
  then show ?case unfolding list_all2_Cons1 Cons.IH by (simp add: conj_ac)
qed auto

end
