(* ===== verification/Mysql.thy ===== *)
theory Mysql imports Sql_Engine begin

section \<open>The MySQL dialect (src/src/impls/mysql.rs)\<close>

text \<open>
  Every query of \<open>MysqlQueries\<close>, each as the statement it sends, and \<open>MysqlLock\<close> on \<open>GET_LOCK\<close>.
  String columns compare under the collation of the tables, which the migration leaves to the
  server (its default collations ignore case): \<open>collate\<close> maps a string to what is compared.  A
  \<open>usize\<close> limit is bound as an \<open>i32\<close>; the \<open>retry_count\<close> column is unsigned.
\<close>

definition mysql_limit :: "nat \<Rightarrow> int" where
  "mysql_limit limit = sint (of_nat limit :: 32 word)"

subsection \<open>Transactions\<close>

definition mysql_begin :: "('k sql_server, sql_tables) on_pool" where
  "mysql_begin = tx_begin"

definition mysql_commit :: "sql_tables \<Rightarrow> ('k sql_server, unit) on_pool" where
  "mysql_commit = tx_commit"

subsection \<open>Statements inside a transaction\<close>

definition mysql_fetch_task_for_update ::
  "(string \<Rightarrow> string) \<Rightarrow> string \<Rightarrow> ('k sql_server, sql_tables, db_task option) in_tx" where
  "mysql_fetch_task_for_update collate task_id =
     in_transaction (\<lambda>t. Inr (fetch_optional (\<lambda>d. collate (d_id d) = collate task_id) (t_task t), t))"

definition mysql_fetch_task_for_assign ::
  "(string \<Rightarrow> string) \<Rightarrow> string \<Rightarrow> ('k sql_server, sql_tables, db_task option) in_tx" where
  "mysql_fetch_task_for_assign collate task_id tx sv =
     in_transaction
       (\<lambda>t. Inr (fetch_optional (\<lambda>d. collate (d_id d) = collate task_id \<and> \<not> sv_row_locked sv (d_id d)) (t_task t), t))
       tx sv"

definition mysql_update_task_assignment ::
  "(string \<Rightarrow> string) \<Rightarrow> string \<Rightarrow> string \<Rightarrow> f64 \<Rightarrow> ('k sql_server, sql_tables, unit) in_tx" where
  "mysql_update_task_assignment collate task_id worker_id began =
     in_transaction (\<lambda>t. Inr ((), t\<lparr>t_task := update_where (\<lambda>d. collate (d_id d) = collate task_id)
        (\<lambda>d. d\<lparr>d_assignee_worker_id := Some worker_id, d_began := Some began\<rparr>) (t_task t)\<rparr>))"

definition mysql_delete_tasks ::
  "(string \<Rightarrow> string) \<Rightarrow> task_id list \<Rightarrow> ('k sql_server, sql_tables, unit) in_tx" where
  "mysql_delete_tasks collate task_ids =
     (if task_ids = [] then tx_return ()
      else in_transaction (\<lambda>t. Inr ((), t\<lparr>t_task :=
        delete_where (\<lambda>d. collate (d_id d) \<in> collate ` set task_ids) (t_task t)\<rparr>)))"

definition mysql_upsert_tasks ::
  "(string \<Rightarrow> string) \<Rightarrow> db_task list \<Rightarrow> ('k sql_server, sql_tables, unit) in_tx" where
  "mysql_upsert_tasks collate tasks =
     (if tasks = [] then tx_return ()
      else in_transaction (\<lambda>t. Inr ((), t\<lparr>t_task :=
        insert_all_or_ignore (\<lambda>d. collate (d_id d)) tasks (t_task t)\<rparr>)))"

definition mysql_update_task_done ::
  "(string \<Rightarrow> string) \<Rightarrow> string \<Rightarrow> f64 \<Rightarrow> f64 \<Rightarrow> bytes option \<Rightarrow> string option \<Rightarrow> f64
   \<Rightarrow> ('k sql_server, sql_tables, unit) in_tx" where
  "mysql_update_task_done collate task_id began dn result error_message disposable =
     in_transaction (\<lambda>t. Inr ((), t\<lparr>t_task := update_where (\<lambda>d. collate (d_id d) = collate task_id)
        (\<lambda>d. d\<lparr>d_done := Some dn, d_began := Some began, d_result := result,
               d_error_message := error_message, d_disposable := Some disposable\<rparr>) (t_task t)\<rparr>))"

definition mysql_upsert_scheduler_state ::
  "(string \<Rightarrow> string) \<Rightarrow> string \<Rightarrow> bytes \<Rightarrow> ('k sql_server, sql_tables, unit) in_tx" where
  "mysql_upsert_scheduler_state collate name data =
     in_transaction (\<lambda>t. Inr ((), t\<lparr>t_scheduler_state :=
        insert_or_set (\<lambda>r. collate (fst r)) (\<lambda>new r. (fst r, snd new)) (name, data) (t_scheduler_state t)\<rparr>))"

definition mysql_discard_tasks ::
  "(string \<Rightarrow> string) \<Rightarrow> task_id list \<Rightarrow> ('k sql_server, sql_tables, unit) in_tx" where
  "mysql_discard_tasks collate task_ids =
     (if task_ids = [] then tx_return ()
      else in_transaction (\<lambda>t. Inr ((), t\<lparr>t_task :=
        delete_where (\<lambda>d. collate (d_id d) \<in> collate ` set task_ids) (t_task t)\<rparr>)))"

definition mysql_restore :: "(string \<Rightarrow> string) \<Rightarrow> string \<Rightarrow> ('k sql_server, sql_tables, unit) in_tx" where
  "mysql_restore collate task_id =
     in_transaction (\<lambda>t. Inr ((), t\<lparr>t_task := update_where (\<lambda>d. collate (d_id d) = collate task_id)
        (\<lambda>d. d\<lparr>d_began := None\<rparr>) (t_task t)\<rparr>))"

subsection \<open>Queries on the pool\<close>

definition mysql_get_queued_tasks ::
  "(string \<Rightarrow> string) \<Rightarrow> string \<Rightarrow> nat \<Rightarrow> ('k sql_server, db_task list) on_pool" where
  "mysql_get_queued_tasks collate grp limit =
     on_connection (query_limited (mysql_limit limit)
       (\<lambda>t. select_ordered (\<lambda>d. d_began d = None \<and> collate (d_group d) = collate grp) d_due (t_task t)))"

definition mysql_list_due_task_ids ::
  "(string \<Rightarrow> string) \<Rightarrow> string \<Rightarrow> f64 \<Rightarrow> nat \<Rightarrow> ('k sql_server, string list) on_pool" where
  "mysql_list_due_task_ids collate grp now limit =
     on_connection (query_limited (mysql_limit limit)
       (\<lambda>t. map d_id (select_ordered
          (\<lambda>d. d_began d = None \<and> collate (d_group d) = collate grp \<and> d_due d < now) d_due (t_task t))))"

text \<open>The rows are found under the collation, the \<open>HashMap\<close> made of them is keyed by the exact id.\<close>

definition mysql_lookup_tasks ::
  "(string \<Rightarrow> string) \<Rightarrow> task_id list \<Rightarrow> ('k sql_server, db_task option list) on_pool" where
  "mysql_lookup_tasks collate task_ids =
     on_connection (\<lambda>t.
       let found_tasks = filter (\<lambda>d. collate (d_id d) \<in> collate ` set task_ids) (t_task t);
           task_map = foldl (\<lambda>m d. m(d_id d \<mapsto> d)) Map.empty found_tasks
       in Inr (map task_map task_ids, t))"

definition mysql_get_result ::
  "(string \<Rightarrow> string) \<Rightarrow> task_id \<Rightarrow> ('k sql_server, db_task option) on_pool" where
  "mysql_get_result collate task_id =
     on_connection (\<lambda>t. Inr (fetch_optional (\<lambda>d. collate (d_id d) = collate task_id) (t_task t), t))"

definition mysql_get_done_task_ids :: "f64 \<Rightarrow> f64 \<Rightarrow> nat \<Rightarrow> ('k sql_server, task_id list) on_pool" where
  "mysql_get_done_task_ids since until limit =
     on_connection (query_limited (mysql_limit limit)
       (\<lambda>t. map d_id (select_ordered
          (\<lambda>d. case d_done d of None \<Rightarrow> False | Some dn \<Rightarrow> since \<le> dn \<and> dn \<le> until)
          (\<lambda>d. the (d_done d)) (t_task t))))"

definition mysql_get_disposable_task_ids :: "f64 \<Rightarrow> nat \<Rightarrow> ('k sql_server, task_id list) on_pool" where
  "mysql_get_disposable_task_ids now limit =
     on_connection (query_limited (mysql_limit limit)
       (\<lambda>t. map d_id (select_ordered
          (\<lambda>d. case d_disposable d of None \<Rightarrow> False | Some x \<Rightarrow> x < now)
          (\<lambda>d. the (d_disposable d)) (t_task t))))"

definition mysql_get_stage_info :: "nat \<Rightarrow> ('k sql_server, db_stage_info list) on_pool" where
  "mysql_get_stage_info limit =
     on_connection (\<lambda>t.
       case query_limited (mysql_limit limit)
              (\<lambda>t. select_ordered (\<lambda>d. d_done d = None \<and> d_began d \<noteq> None) (\<lambda>d. the (d_began d)) (t_task t)) t of
         Inl m \<Rightarrow> Inl m
       | Inr (rows, t) \<Rightarrow>
           (case decode_rows stage_info_from_row rows of Inl m \<Rightarrow> Inl m | Inr infos \<Rightarrow> Inr (infos, t)))"

definition mysql_get_scheduler_state ::
  "(string \<Rightarrow> string) \<Rightarrow> scheduler_name \<Rightarrow> ('k sql_server, bytes option) on_pool" where
  "mysql_get_scheduler_state collate name =
     on_connection (\<lambda>t. Inr (map_option snd (fetch_optional (\<lambda>r. collate (fst r) = collate name) (t_scheduler_state t)), t))"

definition mysql_set_worker_ttl ::
  "(string \<Rightarrow> string) \<Rightarrow> worker_id list \<Rightarrow> f64 \<Rightarrow> ('k sql_server, unit) on_pool" where
  "mysql_set_worker_ttl collate worker_ids expires_at =
     on_connection (\<lambda>t. Inr ((), t\<lparr>t_worker := insert_all_or_set (\<lambda>r. collate (fst r)) (\<lambda>new r. (fst r, snd new))
        (map (\<lambda>w. (w, expires_at)) worker_ids) (t_worker t)\<rparr>))"

definition mysql_get_workers :: "('k sql_server, (worker_id \<times> timestamp) list) on_pool" where
  "mysql_get_workers = on_connection (\<lambda>t. Inr (select_ordered (\<lambda>_. True) snd (t_worker t), t))"

definition mysql_purge_workers ::
  "(string \<Rightarrow> string) \<Rightarrow> worker_id list \<Rightarrow> ('k sql_server, unit) on_pool" where
  "mysql_purge_workers collate worker_ids =
     on_connection (\<lambda>t. Inr ((), t\<lparr>t_worker :=
       delete_where (\<lambda>r. collate (fst r) \<in> collate ` set worker_ids) (t_worker t)\<rparr>))"

definition mysql_fetch_events_since :: "f64 \<Rightarrow> ('k sql_server, (f64 \<times> bytes) list) on_pool" where
  "mysql_fetch_events_since offset =
     on_connection (\<lambda>t. Inr (select_ordered (\<lambda>e. offset < fst e) fst (t_control_event t), t))"

definition mysql_insert_event :: "f64 \<Rightarrow> bytes \<Rightarrow> ('k sql_server, unit) on_pool" where
  "mysql_insert_event now data =
     on_connection (\<lambda>t. Inr ((), t\<lparr>t_control_event := t_control_event t @ [(now, data)]\<rparr>))"

text \<open>
  \<open>TRUNCATE\<close> of the four tables between two statements that switch the foreign key checks; there
  are no foreign keys, so that these two change nothing.
\<close>

definition mysql_destroy_all :: "('k sql_server, unit) on_pool" where
  "mysql_destroy_all =
     pool_then (on_connection (\<lambda>t. Inr ((), t)))
      (pool_then (on_connection (\<lambda>t. Inr ((), t\<lparr>t_control_event := []\<rparr>)))
       (pool_then (on_connection (\<lambda>t. Inr ((), t\<lparr>t_task := []\<rparr>)))
        (pool_then (on_connection (\<lambda>t. Inr ((), t\<lparr>t_worker := []\<rparr>)))
         (pool_then (on_connection (\<lambda>t. Inr ((), t\<lparr>t_scheduler_state := []\<rparr>)))
          (on_connection (\<lambda>t. Inr ((), t)))))))"

subsection \<open>\<open>MysqlLock\<close>\<close>

record mysql_lock =
  ml_target :: string
  ml_conn :: "nat option"

definition mysql_lock_new :: "string \<Rightarrow> mysql_lock" where
  "mysql_lock_new target = \<lparr>ml_target = target, ml_conn = None\<rparr>"

definition mysql_get_lock :: "string \<Rightarrow> (string sql_server, mysql_lock) on_pool" where
  "mysql_get_lock target sv = (Inr (mysql_lock_new target), sv)"

definition mysql_lock_acquire ::
  "nat option \<Rightarrow> mysql_lock \<Rightarrow> string sql_server \<Rightarrow> bool \<times> mysql_lock \<times> string sql_server" where
  "mysql_lock_acquire pooled l sv =
     (if ml_conn l \<noteq> None then (True, l, sv)
      else case pooled of
             None \<Rightarrow> (False, l, sv)
           | Some c \<Rightarrow>
               (case on_session (session_lock (ml_target l) c) sv of
                  (Inr True, sv) \<Rightarrow> (True, l\<lparr>ml_conn := Some c\<rparr>, sv)
                | (_, sv) \<Rightarrow> (False, l, sv)))"

definition mysql_lock_release :: "mysql_lock \<Rightarrow> string sql_server \<Rightarrow> mysql_lock \<times> string sql_server" where
  "mysql_lock_release l sv =
     (case ml_conn l of
        None \<Rightarrow> (l, sv)
      | Some c \<Rightarrow> (l\<lparr>ml_conn := None\<rparr>, snd (on_session (session_unlock (ml_target l) c) sv)))"

definition mysql_lock_drop :: "mysql_lock \<Rightarrow> string sql_server \<Rightarrow> string sql_server" where
  "mysql_lock_drop l sv = (case ml_conn l of None \<Rightarrow> sv | Some c \<Rightarrow> session_end c sv)"

subsection \<open>The dialect\<close>

definition mysql :: "(string \<Rightarrow> string) \<Rightarrow> (string sql_server, sql_tables, mysql_lock) sql_queries" where
  "mysql collate =
     \<lparr>sq_begin = mysql_begin, sq_commit = mysql_commit, sq_drop = tx_rollback,
      sq_fetch_task_for_update = mysql_fetch_task_for_update collate,
      sq_fetch_task_for_assign = mysql_fetch_task_for_assign collate,
      sq_update_task_assignment = mysql_update_task_assignment collate,
      sq_delete_tasks = mysql_delete_tasks collate, sq_upsert_tasks = mysql_upsert_tasks collate,
      sq_update_task_done = mysql_update_task_done collate,
      sq_upsert_scheduler_state = mysql_upsert_scheduler_state collate,
      sq_get_queued_tasks = mysql_get_queued_tasks collate,
      sq_list_due_task_ids = mysql_list_due_task_ids collate,
      sq_lookup_tasks = mysql_lookup_tasks collate, sq_discard_tasks = mysql_discard_tasks collate,
      sq_get_result = mysql_get_result collate, sq_get_done_task_ids = mysql_get_done_task_ids,
      sq_get_disposable_task_ids = mysql_get_disposable_task_ids,
      sq_get_stage_info = mysql_get_stage_info, sq_restore = mysql_restore collate,
      sq_get_scheduler_state = mysql_get_scheduler_state collate,
      sq_set_worker_ttl = mysql_set_worker_ttl collate,
      sq_get_workers = mysql_get_workers, sq_purge_workers = mysql_purge_workers collate,
      sq_get_lock = mysql_get_lock, sq_fetch_events_since = mysql_fetch_events_since,
      sq_insert_event = mysql_insert_event, sq_destroy_all = mysql_destroy_all\<rparr>"

end
