(* ===== verification/Postgres.thy ===== *)
theory Postgres imports Sql_Engine begin

section \<open>The PostgreSQL dialect (src/src/impls/postgres.rs)\<close>

text \<open>
  Every query of \<open>PostgresQueries\<close>, each as the statement it sends, and \<open>PostgresLock\<close> on advisory
  locks.  Strings compare by their bytes.  A \<open>usize\<close> limit is bound as an \<open>i64\<close> and \<open>retry_count\<close> as
  an \<open>i32\<close>, which the column's CHECK wants nonnegative.
\<close>

unbundle bit_operations_syntax

subsection \<open>Bound values and hashes\<close>

definition pg_limit :: "nat \<Rightarrow> int" where
  "pg_limit limit = sint (of_nat limit :: 64 word)"

definition pg_bind_retry_count :: "32 word \<Rightarrow> int" where
  "pg_bind_retry_count n = sint n"

definition pg_read_retry_count :: "int \<Rightarrow> 32 word" where
  "pg_read_retry_count i = word_of_int i"

definition fnv1a_i64 :: "string \<Rightarrow> 64 word" where
  "fnv1a_i64 s =
     foldl (\<lambda>h b. (h XOR word_of_nat (of_char b)) * 1099511628211) 14695981039346656037 s"

subsection \<open>Transactions\<close>

definition pg_begin :: "('k sql_server, sql_tables) on_pool" where
  "pg_begin = tx_begin"

definition pg_commit :: "sql_tables \<Rightarrow> ('k sql_server, unit) on_pool" where
  "pg_commit = tx_commit"

subsection \<open>Statements inside a transaction\<close>

definition pg_fetch_task_for_update :: "string \<Rightarrow> ('k sql_server, sql_tables, db_task option) in_tx" where
  "pg_fetch_task_for_update task_id =
     in_transaction (\<lambda>t. Inr (fetch_optional (\<lambda>d. d_id d = task_id) (t_task t), t))"

definition pg_fetch_task_for_assign :: "string \<Rightarrow> ('k sql_server, sql_tables, db_task option) in_tx" where
  "pg_fetch_task_for_assign task_id tx sv =
     in_transaction
       (\<lambda>t. Inr (fetch_optional (\<lambda>d. d_id d = task_id \<and> \<not> sv_row_locked sv (d_id d)) (t_task t), t)) tx sv"

definition pg_update_task_assignment ::
  "string \<Rightarrow> string \<Rightarrow> f64 \<Rightarrow> ('k sql_server, sql_tables, unit) in_tx" where
  "pg_update_task_assignment task_id worker_id began =
     in_transaction (\<lambda>t. Inr ((), t\<lparr>t_task := update_where (\<lambda>d. d_id d = task_id)
        (\<lambda>d. d\<lparr>d_assignee_worker_id := Some worker_id, d_began := Some began\<rparr>) (t_task t)\<rparr>))"

definition pg_delete_tasks :: "task_id list \<Rightarrow> ('k sql_server, sql_tables, unit) in_tx" where
  "pg_delete_tasks task_ids =
     (if task_ids = [] then tx_return ()
      else in_transaction (\<lambda>t. Inr ((), t\<lparr>t_task := delete_where (\<lambda>d. d_id d \<in> set task_ids) (t_task t)\<rparr>)))"

definition pg_upsert_tasks :: "db_task list \<Rightarrow> ('k sql_server, sql_tables, unit) in_tx" where
  "pg_upsert_tasks tasks =
     (if tasks = [] then tx_return ()
      else in_transaction (\<lambda>t.
        if \<exists>d\<in>set tasks. pg_bind_retry_count (d_retry_count d) < 0
        then Inl ''new row for relation taskkit_task violates check constraint''
        else Inr ((), t\<lparr>t_task := insert_all_or_ignore d_id tasks (t_task t)\<rparr>)))"

definition pg_update_task_done ::
  "string \<Rightarrow> f64 \<Rightarrow> f64 \<Rightarrow> bytes option \<Rightarrow> string option \<Rightarrow> f64 \<Rightarrow> ('k sql_server, sql_tables, unit) in_tx" where
  "pg_update_task_done task_id began dn result error_message disposable =
     in_transaction (\<lambda>t. Inr ((), t\<lparr>t_task := update_where (\<lambda>d. d_id d = task_id)
        (\<lambda>d. d\<lparr>d_done := Some dn, d_began := Some began, d_result := result,
               d_error_message := error_message, d_disposable := Some disposable\<rparr>) (t_task t)\<rparr>))"

definition pg_upsert_scheduler_state :: "string \<Rightarrow> bytes \<Rightarrow> ('k sql_server, sql_tables, unit) in_tx" where
  "pg_upsert_scheduler_state name data =
     in_transaction (\<lambda>t. Inr ((), t\<lparr>t_scheduler_state :=
        insert_or_set fst (\<lambda>new r. (fst r, snd new)) (name, data) (t_scheduler_state t)\<rparr>))"

definition pg_discard_tasks :: "task_id list \<Rightarrow> ('k sql_server, sql_tables, unit) in_tx" where
  "pg_discard_tasks task_ids =
     (if task_ids = [] then tx_return ()
      else in_transaction (\<lambda>t. Inr ((), t\<lparr>t_task := delete_where (\<lambda>d. d_id d \<in> set task_ids) (t_task t)\<rparr>)))"

definition pg_restore :: "string \<Rightarrow> ('k sql_server, sql_tables, unit) in_tx" where
  "pg_restore task_id =
     in_transaction (\<lambda>t. Inr ((), t\<lparr>t_task := update_where (\<lambda>d. d_id d = task_id)
        (\<lambda>d. d\<lparr>d_began := None\<rparr>) (t_task t)\<rparr>))"

subsection \<open>Queries on the pool\<close>

text \<open>
  A lookup, a renewal and a purge of no ids at all would be the statements \<open>IN ()\<close> and
  \<open>VALUES\<close> with nothing after it, which the server does not parse.  Their only caller,
  \<open>sqlx.rs\<close>, returns before it issues them for the empty list (\<open>sqlx_lookup_tasks\<close>,
  \<open>sqlx_set_worker_ttl\<close>, \<open>sqlx_purge_workers\<close>), so what the definitions below give there is never
  read; MySQL is the same.
\<close>

definition pg_get_queued_tasks :: "string \<Rightarrow> nat \<Rightarrow> ('k sql_server, db_task list) on_pool" where
  "pg_get_queued_tasks grp limit =
     on_connection (query_limited (pg_limit limit)
       (\<lambda>t. select_ordered (\<lambda>d. d_began d = None \<and> d_group d = grp) d_due (t_task t)))"

definition pg_list_due_task_ids :: "string \<Rightarrow> f64 \<Rightarrow> nat \<Rightarrow> ('k sql_server, string list) on_pool" where
  "pg_list_due_task_ids grp now limit =
     on_connection (query_limited (pg_limit limit)
       (\<lambda>t. map d_id (select_ordered (\<lambda>d. d_began d = None \<and> d_group d = grp \<and> d_due d < now) d_due (t_task t))))"

definition pg_lookup_tasks :: "task_id list \<Rightarrow> ('k sql_server, db_task option list) on_pool" where
  "pg_lookup_tasks task_ids =
     on_connection (\<lambda>t.
       let found_tasks = filter (\<lambda>d. d_id d \<in> set task_ids) (t_task t);
           task_map = foldl (\<lambda>m d. m(d_id d \<mapsto> d)) Map.empty found_tasks
       in Inr (map task_map task_ids, t))"

definition pg_get_result :: "task_id \<Rightarrow> ('k sql_server, db_task option) on_pool" where
  "pg_get_result task_id =
     on_connection (\<lambda>t. Inr (fetch_optional (\<lambda>d. d_id d = task_id) (t_task t), t))"

definition pg_get_done_task_ids :: "f64 \<Rightarrow> f64 \<Rightarrow> nat \<Rightarrow> ('k sql_server, task_id list) on_pool" where
  "pg_get_done_task_ids since until limit =
     on_connection (query_limited (pg_limit limit)
       (\<lambda>t. map d_id (select_ordered
          (\<lambda>d. case d_done d of None \<Rightarrow> False | Some dn \<Rightarrow> since \<le> dn \<and> dn \<le> until)
          (\<lambda>d. the (d_done d)) (t_task t))))"

definition pg_get_disposable_task_ids :: "f64 \<Rightarrow> nat \<Rightarrow> ('k sql_server, task_id list) on_pool" where
  "pg_get_disposable_task_ids now limit =
     on_connection (query_limited (pg_limit limit)
       (\<lambda>t. map d_id (select_ordered
          (\<lambda>d. case d_disposable d of None \<Rightarrow> False | Some x \<Rightarrow> x < now)
          (\<lambda>d. the (d_disposable d)) (t_task t))))"

definition pg_get_stage_info :: "nat \<Rightarrow> ('k sql_server, db_stage_info list) on_pool" where
  "pg_get_stage_info limit =
     on_connection (\<lambda>t.
       case query_limited (pg_limit limit)
              (\<lambda>t. select_ordered (\<lambda>d. d_done d = None \<and> d_began d \<noteq> None) (\<lambda>d. the (d_began d)) (t_task t)) t of
         Inl m \<Rightarrow> Inl m
       | Inr (rows, t) \<Rightarrow>
           (case decode_rows stage_info_from_row rows of Inl m \<Rightarrow> Inl m | Inr infos \<Rightarrow> Inr (infos, t)))"

definition pg_get_scheduler_state :: "scheduler_name \<Rightarrow> ('k sql_server, bytes option) on_pool" where
  "pg_get_scheduler_state name =
     on_connection (\<lambda>t. Inr (map_option snd (fetch_optional (\<lambda>r. fst r = name) (t_scheduler_state t)), t))"

text \<open>The ids come from a \<open>HashSet\<close>: they are distinct.\<close>

definition pg_set_worker_ttl :: "worker_id list \<Rightarrow> f64 \<Rightarrow> ('k sql_server, unit) on_pool" where
  "pg_set_worker_ttl worker_ids expires_at =
     on_connection (\<lambda>t. Inr ((), t\<lparr>t_worker := insert_all_or_set fst (\<lambda>new r. (fst r, snd new))
        (map (\<lambda>w. (w, expires_at)) worker_ids) (t_worker t)\<rparr>))"

definition pg_get_workers :: "('k sql_server, (worker_id \<times> timestamp) list) on_pool" where
  "pg_get_workers = on_connection (\<lambda>t. Inr (select_ordered (\<lambda>_. True) snd (t_worker t), t))"

definition pg_purge_workers :: "worker_id list \<Rightarrow> ('k sql_server, unit) on_pool" where
  "pg_purge_workers worker_ids =
     on_connection (\<lambda>t. Inr ((), t\<lparr>t_worker := delete_where (\<lambda>r. fst r \<in> set worker_ids) (t_worker t)\<rparr>))"

definition pg_fetch_events_since :: "f64 \<Rightarrow> ('k sql_server, (f64 \<times> bytes) list) on_pool" where
  "pg_fetch_events_since offset =
     on_connection (\<lambda>t. Inr (select_ordered (\<lambda>e. offset < fst e) fst (t_control_event t), t))"

definition pg_insert_event :: "f64 \<Rightarrow> bytes \<Rightarrow> ('k sql_server, unit) on_pool" where
  "pg_insert_event now data =
     on_connection (\<lambda>t. Inr ((), t\<lparr>t_control_event := t_control_event t @ [(now, data)]\<rparr>))"

text \<open>\<open>TRUNCATE\<close> of the four tables, one statement each: an error leaves the later ones as they are.\<close>

definition pg_destroy_all :: "('k sql_server, unit) on_pool" where
  "pg_destroy_all =
     pool_then (on_connection (\<lambda>t. Inr ((), t\<lparr>t_control_event := []\<rparr>)))
      (pool_then (on_connection (\<lambda>t. Inr ((), t\<lparr>t_task := []\<rparr>)))
       (pool_then (on_connection (\<lambda>t. Inr ((), t\<lparr>t_worker := []\<rparr>)))
        (on_connection (\<lambda>t. Inr ((), t\<lparr>t_scheduler_state := []\<rparr>)))))"

subsection \<open>\<open>PostgresLock\<close>\<close>

text \<open>
  \<open>acquire\<close> takes the connection the pool hands out as an argument (\<^const>\<open>None\<close> when the pool
  fails).  A lock that was released gives its connection back to the pool; dropping a lock that
  still has one ends the session.
\<close>

record pg_lock =
  pl_lock_key :: "64 word"
  pl_conn :: "nat option"

definition pg_lock_new :: "string \<Rightarrow> pg_lock" where
  "pg_lock_new target = \<lparr>pl_lock_key = fnv1a_i64 target, pl_conn = None\<rparr>"

definition pg_get_lock :: "string \<Rightarrow> (64 word sql_server, pg_lock) on_pool" where
  "pg_get_lock target sv = (Inr (pg_lock_new target), sv)"

definition pg_lock_acquire ::
  "nat option \<Rightarrow> pg_lock \<Rightarrow> 64 word sql_server \<Rightarrow> bool \<times> pg_lock \<times> 64 word sql_server" where
  "pg_lock_acquire pooled l sv =
     (if pl_conn l \<noteq> None then (True, l, sv)
      else case pooled of
             None \<Rightarrow> (False, l, sv)
           | Some c \<Rightarrow>
               (case on_session (session_lock (pl_lock_key l) c) sv of
                  (Inr True, sv) \<Rightarrow> (True, l\<lparr>pl_conn := Some c\<rparr>, sv)
                | (_, sv) \<Rightarrow> (False, l, sv)))"

definition pg_lock_release :: "pg_lock \<Rightarrow> 64 word sql_server \<Rightarrow> pg_lock \<times> 64 word sql_server" where
  "pg_lock_release l sv =
     (case pl_conn l of
        None \<Rightarrow> (l, sv)
      | Some c \<Rightarrow> (l\<lparr>pl_conn := None\<rparr>, snd (on_session (session_unlock (pl_lock_key l) c) sv)))"

definition pg_lock_drop :: "pg_lock \<Rightarrow> 64 word sql_server \<Rightarrow> 64 word sql_server" where
  "pg_lock_drop l sv = (case pl_conn l of None \<Rightarrow> sv | Some c \<Rightarrow> session_end c sv)"

subsection \<open>The dialect\<close>

text \<open>All queries, over a lock of any kind; then with \<open>PostgresLock\<close>.\<close>

definition pg_queries :: "(string \<Rightarrow> ('k sql_server, 'l) on_pool) \<Rightarrow> ('k sql_server, sql_tables, 'l) sql_queries" where
  "pg_queries get_lock =
     \<lparr>sq_begin = pg_begin, sq_commit = pg_commit, sq_drop = tx_rollback,
      sq_fetch_task_for_update = pg_fetch_task_for_update,
      sq_fetch_task_for_assign = pg_fetch_task_for_assign,
      sq_update_task_assignment = pg_update_task_assignment,
      sq_delete_tasks = pg_delete_tasks, sq_upsert_tasks = pg_upsert_tasks,
      sq_update_task_done = pg_update_task_done,
      sq_upsert_scheduler_state = pg_upsert_scheduler_state,
      sq_get_queued_tasks = pg_get_queued_tasks, sq_list_due_task_ids = pg_list_due_task_ids,
      sq_lookup_tasks = pg_lookup_tasks, sq_discard_tasks = pg_discard_tasks,
      sq_get_result = pg_get_result, sq_get_done_task_ids = pg_get_done_task_ids,
      sq_get_disposable_task_ids = pg_get_disposable_task_ids,
      sq_get_stage_info = pg_get_stage_info, sq_restore = pg_restore,
      sq_get_scheduler_state = pg_get_scheduler_state, sq_set_worker_ttl = pg_set_worker_ttl,
      sq_get_workers = pg_get_workers, sq_purge_workers = pg_purge_workers,
      sq_get_lock = get_lock, sq_fetch_events_since = pg_fetch_events_since,
      sq_insert_event = pg_insert_event, sq_destroy_all = pg_destroy_all\<rparr>"

definition postgres :: "(64 word sql_server, sql_tables, pg_lock) sql_queries" where
  "postgres = pg_queries pg_get_lock"

end
