(* ===== verification/Sqlx_Contract.thy ===== *)
theory Sqlx_Contract imports Sqlx begin

section \<open>What \<open>SqlxBackend\<close> asks of a dialect, and what it gives\<close>

text \<open>
  The contract of the trait \<open>SqlQueries\<close> as a locale (a row limit below \<open>cap\<close> is honoured), over what the tables hold (\<open>sql_view\<close>), and
  the operations of \<open>SqlxBackend\<close> proved against it: each one is one atomic change of the view.
\<close>

subsection \<open>What the tables hold\<close>

record sql_view =
  v_tasks :: "string \<Rightarrow> db_task option"
  v_sched :: "string \<Rightarrow> bytes option"
  v_workers :: "string \<Rightarrow> f64 option"
  v_events :: "(f64 \<times> bytes) list"

record ('s, 't) sql_abs =
  a_inv :: "'s \<Rightarrow> bool"
  a_tinv :: "'t \<Rightarrow> bool"
  a_abs :: "'s \<Rightarrow> sql_view"
  a_tabs :: "'t \<Rightarrow> sql_view"
  a_locked :: "'s \<Rightarrow> string \<Rightarrow> bool"

definition unchanged :: "('s, 't) sql_abs \<Rightarrow> 's \<Rightarrow> 's \<Rightarrow> bool" where
  "unchanged A s s' \<longleftrightarrow> a_inv A s' \<and> a_abs A s' = a_abs A s \<and> a_locked A s' = a_locked A s"

text \<open>
  A statement in a transaction leaves the server alone and relates its result and the
  transaction's view before and after by \<open>eff\<close>; a query on the pool that only reads; one that
  writes (whose reply may be lost after it took effect).
\<close>

definition tx_spec ::
  "('s, 't) sql_abs \<Rightarrow> ('s, 't, 'a) in_tx \<Rightarrow> ((string \<Rightarrow> bool) \<Rightarrow> 'a \<Rightarrow> sql_view \<Rightarrow> sql_view \<Rightarrow> bool) \<Rightarrow> bool" where
  "tx_spec A m eff \<longleftrightarrow>
     (\<forall>s t res t' s'. a_inv A s \<longrightarrow> a_tinv A t \<longrightarrow> m t s = (res, t', s') \<longrightarrow>
        unchanged A s s' \<and> (\<forall>a. res = Inr a \<longrightarrow> a_tinv A t' \<and> eff (a_locked A s) a (a_tabs A t) (a_tabs A t')))"

definition read_spec :: "('s, 't) sql_abs \<Rightarrow> ('s, 'a) on_pool \<Rightarrow> ('a \<Rightarrow> sql_view \<Rightarrow> bool) \<Rightarrow> bool" where
  "read_spec A q P \<longleftrightarrow>
     (\<forall>s res s'. a_inv A s \<longrightarrow> q s = (res, s') \<longrightarrow>
        unchanged A s s' \<and> (\<forall>a. res = Inr a \<longrightarrow> P a (a_abs A s)))"

definition write_spec ::
  "('s, 't) sql_abs \<Rightarrow> ('s, 'a) on_pool \<Rightarrow> ((string \<Rightarrow> bool) \<Rightarrow> 'a \<Rightarrow> sql_view \<Rightarrow> sql_view \<Rightarrow> bool) \<Rightarrow> bool" where
  "write_spec A q eff \<longleftrightarrow>
     (\<forall>s res s'. a_inv A s \<longrightarrow> q s = (res, s') \<longrightarrow>
        a_inv A s' \<and> a_locked A s' = a_locked A s \<and>
        (case res of
           Inr a \<Rightarrow> eff (a_locked A s) a (a_abs A s) (a_abs A s')
         | Inl e \<Rightarrow> a_abs A s' = a_abs A s \<or> (\<exists>a. eff (a_locked A s) a (a_abs A s) (a_abs A s'))))"

lemma tx_specI:
  assumes "\<And>s t res t' s'. a_inv A s \<Longrightarrow> a_tinv A t \<Longrightarrow> m t s = (res, t', s') \<Longrightarrow> unchanged A s s'"
    and "\<And>s t a t' s'. a_inv A s \<Longrightarrow> a_tinv A t \<Longrightarrow> m t s = (Inr a, t', s') \<Longrightarrow>
      a_tinv A t' \<and> eff (a_locked A s) a (a_tabs A t) (a_tabs A t')"
  shows "tx_spec A m eff"
  using assms unfolding tx_spec_def by metis

lemma read_specD:
  "read_spec A q P \<Longrightarrow> a_inv A s \<Longrightarrow> q s = (res, s') \<Longrightarrow>
   unchanged A s s' \<and> (\<forall>a. res = Inr a \<longrightarrow> P a (a_abs A s))"
  unfolding read_spec_def by blast

lemma unchanged_refl [simp]: "unchanged A s s \<longleftrightarrow> a_inv A s"
  by (simp add: unchanged_def)

lemma unchanged_trans: "unchanged A s1 s2 \<Longrightarrow> unchanged A s2 s3 \<Longrightarrow> unchanged A s1 s3"
  by (simp add: unchanged_def)

lemma tx_spec_return: "tx_spec A (tx_return a) (\<lambda>l b v v'. b = a \<and> v' = v)"
  by (simp add: tx_spec_def tx_return_def)

lemma tx_spec_bind:
  assumes m: "tx_spec A m eff" and f: "\<And>a. tx_spec A (f a) (eff' a)"
  shows "tx_spec A (tx_bind m f) (\<lambda>l b v v''. \<exists>a v'. eff l a v v' \<and> eff' a l b v' v'')"
  unfolding tx_spec_def
proof clarify
  fix s t res t'' s'' assume s: "a_inv A s" and t: "a_tinv A t" and run: "tx_bind m f t s = (res, t'', s'')"
  obtain r1 t1 s1 where m1: "m t s = (r1, t1, s1)" by (cases "m t s")
  note M = m [unfolded tx_spec_def, rule_format, OF s t m1]
  show "unchanged A s s'' \<and> (\<forall>b. res = Inr b \<longrightarrow> a_tinv A t'' \<and>
      (\<exists>a v'. eff (a_locked A s) a (a_tabs A t) v' \<and> eff' a (a_locked A s) b v' (a_tabs A t'')))"
  proof (cases r1)
    case (Inl e)
    with run m1 M show ?thesis by (auto simp: tx_bind_def)
  next
    case (Inr a)
    with M have t1: "a_tinv A t1" and e1: "eff (a_locked A s) a (a_tabs A t) (a_tabs A t1)"
      and s1: "a_inv A s1" and l1: "a_locked A s1 = a_locked A s" by (auto simp: unchanged_def)
    from Inr run m1 have "f a t1 s1 = (res, t'', s'')" by (simp add: tx_bind_def)
    from f [of a, unfolded tx_spec_def, rule_format, OF s1 t1 this] M e1 show ?thesis
      unfolding l1 by (blast intro: unchanged_trans)
  qed
qed

lemma tx_spec_mono:
  assumes "tx_spec A m eff" and "\<And>l a v v'. eff l a v v' \<Longrightarrow> eff' l a v v'"
  shows "tx_spec A m eff'"
  using assms unfolding tx_spec_def by blast

subsection \<open>The effect of the statements\<close>

definition db_put :: "db_task \<Rightarrow> (string \<Rightarrow> db_task option) \<Rightarrow> (string \<Rightarrow> db_task option)" where
  "db_put d m = (if m (d_id d) = None then m(d_id d \<mapsto> d) else m)"

definition db_put_all :: "db_task list \<Rightarrow> (string \<Rightarrow> db_task option) \<Rightarrow> (string \<Rightarrow> db_task option)" where
  "db_put_all ds m = fold db_put ds m"

definition db_update ::
  "string \<Rightarrow> (db_task \<Rightarrow> db_task) \<Rightarrow> (string \<Rightarrow> db_task option) \<Rightarrow> (string \<Rightarrow> db_task option)" where
  "db_update i f m = m(i := map_option f (m i))"

text \<open>
  What a query with \<open>ORDER BY\<close> and \<open>LIMIT n\<close> returns, as the ids of the rows: at most \<open>n\<close> that
  satisfy the condition, in order, none above a row left out; all of them when fewer than \<open>n\<close>.
\<close>

definition top_rows ::
  "(db_task \<Rightarrow> bool) \<Rightarrow> (db_task \<Rightarrow> f64) \<Rightarrow> nat \<Rightarrow> (string \<Rightarrow> db_task option) \<Rightarrow> db_task list \<Rightarrow> bool" where
  "top_rows P ord n m ds \<longleftrightarrow>
     length ds \<le> n \<and> distinct (map d_id ds) \<and> sorted (map ord ds) \<and>
     (\<forall>d\<in>set ds. m (d_id d) = Some d \<and> P d) \<and>
     (\<forall>i d. m i = Some d \<longrightarrow> P d \<longrightarrow> d \<notin> set ds \<longrightarrow> length ds = n \<and> (\<forall>d'\<in>set ds. ord d' \<le> ord d))"

definition is_due :: "string \<Rightarrow> f64 \<Rightarrow> db_task \<Rightarrow> bool" where
  "is_due grp now d \<longleftrightarrow> d_began d = None \<and> d_group d = grp \<and> d_due d < now"

definition set_assignment :: "string \<Rightarrow> f64 \<Rightarrow> db_task \<Rightarrow> db_task" where
  "set_assignment worker began d = d\<lparr>d_assignee_worker_id := Some worker, d_began := Some began\<rparr>"

definition set_done ::
  "f64 \<Rightarrow> f64 \<Rightarrow> bytes option \<Rightarrow> string option \<Rightarrow> f64 \<Rightarrow> db_task \<Rightarrow> db_task" where
  "set_done began dn result message disposable d =
     d\<lparr>d_done := Some dn, d_began := Some began, d_result := result, d_error_message := message,
       d_disposable := Some disposable\<rparr>"

abbreviation on_tasks ::
  "((string \<Rightarrow> db_task option) \<Rightarrow> (string \<Rightarrow> db_task option)) \<Rightarrow> sql_view \<Rightarrow> sql_view" where
  "on_tasks f v \<equiv> v_tasks_update f v"

lemma set_assignment_sel [simp]:
  "d_id (set_assignment w b d) = d_id d" "d_began (set_assignment w b d) = Some b"
  "d_assignee_worker_id (set_assignment w b d) = Some w" "d_done (set_assignment w b d) = d_done d"
  "to_task_record (set_assignment w b d) = to_task_record d"
  by (simp_all add: set_assignment_def to_task_record_def cong: option.case_cong)

lemma set_done_sel [simp]:
  "d_id (set_done b t res m dt d) = d_id d" "d_began (set_done b t res m dt d) = Some b"
  "d_done (set_done b t res m dt d) = Some t" "d_result (set_done b t res m dt d) = res"
  "d_error_message (set_done b t res m dt d) = m" "d_disposable (set_done b t res m dt d) = Some dt"
  "to_task_record (set_done b t res m dt d) = to_task_record d"
  by (simp_all add: set_done_def to_task_record_def cong: option.case_cong)

lemma from_task_record_id [simp]: "d_id (from_task_record r) = tr_id r"
  by (simp add: from_task_record_def)

lemma on_tasks_same: "f (v_tasks v) = v_tasks v \<Longrightarrow> on_tasks f v = v"
  by (cases v) simp

lemma db_put_all_Nil [simp]: "db_put_all [] m = m"
  by (simp add: db_put_all_def)

lemma db_put_keeps: "m i = Some d \<Longrightarrow> db_put e m i = Some d"
  by (auto simp: db_put_def)

lemma db_put_all_keeps: "m i = Some d \<Longrightarrow> db_put_all ds m i = Some d"
  unfolding db_put_all_def by (induction ds arbitrary: m) (auto simp: db_put_keeps)

lemma db_put_all_new:
  "db_put_all ds m i = Some d \<Longrightarrow> m i = None \<Longrightarrow> d \<in> set ds \<and> d_id d = i"
proof (induction ds arbitrary: m)
  case (Cons e ds)
  show ?case
  proof (cases "d_id e = i")
    case True
    with Cons.prems(2) have "db_put e m i = Some e" by (auto simp: db_put_def)
    then have "db_put_all ds (db_put e m) i = Some e" by (rule db_put_all_keeps)
    with Cons.prems(1) True show ?thesis by (simp add: db_put_all_def)
  next
    case False
    with Cons.prems(2) have "db_put e m i = None" by (simp add: db_put_def)
    with Cons.IH [of "db_put e m"] Cons.prems(1) show ?thesis by (simp add: db_put_all_def)
  qed
qed (simp add: db_put_all_def)

lemma top_rows_all:
  "top_rows P ord n m ds \<Longrightarrow> length ds < n \<Longrightarrow> m i = Some d \<Longrightarrow> P d \<Longrightarrow> d \<in> set ds"
  unfolding top_rows_def by (metis less_irrefl)

lemma top_rows_in: "top_rows P ord n m ds \<Longrightarrow> d \<in> set ds \<Longrightarrow> m (d_id d) = Some d \<and> P d"
  by (simp add: top_rows_def)

lemma top_rows_distinct: "top_rows P ord n m ds \<Longrightarrow> distinct ds \<and> distinct (map d_id ds)"
  by (simp add: top_rows_def distinct_map)

subsection \<open>The contract\<close>

locale sql_backend =
  fixes Q :: "('s, 't, 'l) sql_queries" and A :: "('s, 't) sql_abs" and cap :: nat
  assumes begin_law: "a_inv A s \<Longrightarrow> sq_begin Q s = (out, s') \<Longrightarrow>
      unchanged A s s' \<and> (\<forall>tx. out = Inr tx \<longrightarrow> a_tinv A tx \<and> a_tabs A tx = a_abs A s)"
    and commit_law: "a_inv A s \<Longrightarrow> a_tinv A tx \<Longrightarrow> sq_commit Q tx s = (res, s') \<Longrightarrow>
      a_inv A s' \<and> a_locked A s' = a_locked A s \<and>
      (a_abs A s' = a_tabs A tx \<or> (\<exists>e. res = Inl e) \<and> a_abs A s' = a_abs A s)"
    and drop_law: "a_inv A s \<Longrightarrow> unchanged A s (sq_drop Q tx s)"
    and fetch_for_update_law:
      "tx_spec A (sq_fetch_task_for_update Q i) (\<lambda>l d v v'. v' = v \<and> d = v_tasks v i)"
    and fetch_for_assign_law:
      "tx_spec A (sq_fetch_task_for_assign Q i) (\<lambda>l d v v'. v' = v \<and> d = (if l i then None else v_tasks v i))"
    and update_assignment_law: "tx_spec A (sq_update_task_assignment Q i w b)
      (\<lambda>l _ v v'. v' = on_tasks (db_update i (set_assignment w b)) v)"
    and delete_law: "tx_spec A (sq_delete_tasks Q ids) (\<lambda>l _ v v'. v' = on_tasks (\<lambda>m. m |` (- set ids)) v)"
    and discard_law: "tx_spec A (sq_discard_tasks Q ids) (\<lambda>l _ v v'. v' = on_tasks (\<lambda>m. m |` (- set ids)) v)"
    and upsert_law: "tx_spec A (sq_upsert_tasks Q ds) (\<lambda>l _ v v'. v' = on_tasks (db_put_all ds) v)"
    and update_done_law: "tx_spec A (sq_update_task_done Q i b t r m dt)
      (\<lambda>l _ v v'. v' = on_tasks (db_update i (set_done b t r m dt)) v)"
    and upsert_sched_law: "tx_spec A (sq_upsert_scheduler_state Q name data)
      (\<lambda>l _ v v'. v' = v\<lparr>v_sched := (v_sched v)(name \<mapsto> data)\<rparr>)"
    and restore_law: "tx_spec A (sq_restore Q i)
      (\<lambda>l _ v v'. v' = on_tasks (db_update i (d_began_update (\<lambda>_. None))) v)"
    and list_due_law: "n < cap \<Longrightarrow> read_spec A (sq_list_due_task_ids Q grp now n)
      (\<lambda>ids v. \<exists>ds. ids = map d_id ds \<and> top_rows (is_due grp now) d_due n (v_tasks v) ds)"
    and queued_law: "n < cap \<Longrightarrow> read_spec A (sq_get_queued_tasks Q grp n)
      (\<lambda>ds v. top_rows (\<lambda>d. d_began d = None \<and> d_group d = grp) d_due n (v_tasks v) ds)"
    and lookup_law: "read_spec A (sq_lookup_tasks Q ids) (\<lambda>os v. os = map (v_tasks v) ids)"
    and get_result_law: "read_spec A (sq_get_result Q i) (\<lambda>d v. d = v_tasks v i)"
    and done_law: "n < cap \<Longrightarrow> read_spec A (sq_get_done_task_ids Q since til n)
      (\<lambda>ids v. \<exists>ds. ids = map d_id ds \<and>
        top_rows (\<lambda>d. \<exists>t. d_done d = Some t \<and> since \<le> t \<and> t \<le> til) (\<lambda>d. the (d_done d)) n (v_tasks v) ds)"
    and disposable_law: "n < cap \<Longrightarrow> read_spec A (sq_get_disposable_task_ids Q now n)
      (\<lambda>ids v. \<exists>ds. ids = map d_id ds \<and>
        top_rows (\<lambda>d. \<exists>t. d_disposable d = Some t \<and> t < now) (\<lambda>d. the (d_disposable d)) n (v_tasks v) ds)"
    and stage_law: "n < cap \<Longrightarrow> read_spec A (sq_get_stage_info Q n)
      (\<lambda>sis v. \<exists>ds. top_rows (\<lambda>d. d_done d = None \<and> d_began d \<noteq> None) (\<lambda>d. the (d_began d)) n (v_tasks v) ds \<and>
        list_all2 (\<lambda>d si. ds_task_id si = d_id d \<and> d_assignee_worker_id d = Some (ds_worker_id si) \<and>
          d_began d = Some (ds_assigned_at si)) ds sis)"
    and get_sched_law: "read_spec A (sq_get_scheduler_state Q name) (\<lambda>d v. d = v_sched v name)"
    and set_ttl_law: "distinct ws \<Longrightarrow> write_spec A (sq_set_worker_ttl Q ws t)
      (\<lambda>l _ v v'. v' = v\<lparr>v_workers := (\<lambda>w. if w \<in> set ws then Some t else v_workers v w)\<rparr>)"
    and get_workers_law: "read_spec A (sq_get_workers Q)
      (\<lambda>ws v. distinct (map fst ws) \<and> map_of ws = v_workers v \<and> sorted (map snd ws))"
    and purge_law: "write_spec A (sq_purge_workers Q ws) (\<lambda>l _ v v'. v' = v\<lparr>v_workers := v_workers v |` (- set ws)\<rparr>)"
    and fetch_events_law: "read_spec A (sq_fetch_events_since Q offset)
      (\<lambda>es v. es = sort_key fst (filter (\<lambda>e. offset < fst e) (v_events v)))"
    and insert_event_law: "write_spec A (sq_insert_event Q now data)
      (\<lambda>l _ v v'. v' = v\<lparr>v_events := v_events v @ [(now, data)]\<rparr>)"
begin

text \<open>All or nothing: whatever fails, and wherever, a transaction takes full effect or none.\<close>

lemma transaction_law:
  assumes "tx_spec A body eff"
  shows "write_spec A (transaction Q body) eff"
  unfolding write_spec_def
proof clarify
  fix s res s' assume s: "a_inv A s" and run: "transaction Q body s = (res, s')"
  obtain r1 s1 where b: "sq_begin Q s = (r1, s1)" by fastforce
  note B = begin_law [OF s b]
  show "a_inv A s' \<and> a_locked A s' = a_locked A s \<and>
      (case res of Inl e \<Rightarrow> a_abs A s' = a_abs A s \<or> (\<exists>a. eff (a_locked A s) a (a_abs A s) (a_abs A s'))
       | Inr a \<Rightarrow> eff (a_locked A s) a (a_abs A s) (a_abs A s'))"
  proof (cases r1)
    case (Inl e)
    with run b B show ?thesis by (auto simp: transaction_def unchanged_def)
  next
    case (Inr t)
    from B Inr have s1: "a_inv A s1" "a_abs A s1 = a_abs A s" "a_locked A s1 = a_locked A s"
      and t: "a_tinv A t" "a_tabs A t = a_abs A s" by (auto simp: unchanged_def)
    obtain r2 t2 s2 where m: "body t s1 = (r2, t2, s2)" by (cases "body t s1")
    note M = assms [unfolded tx_spec_def, rule_format, OF s1(1) t(1) m]
    then have s2: "a_inv A s2" "a_abs A s2 = a_abs A s" "a_locked A s2 = a_locked A s"
      using s1 by (auto simp: unchanged_def)
    show ?thesis
    proof (cases r2)
      case (Inl e)
      with run b Inr m have "res = Inl e" and "s' = sq_drop Q t2 s2" by (auto simp: transaction_def)
      with drop_law [OF s2(1), of t2] s2 show ?thesis by (auto simp: unchanged_def)
    next
      case Inr2: (Inr a)
      obtain r3 s3 where c: "sq_commit Q t2 s2 = (r3, s3)" by fastforce
      from M Inr2 t s1 have t2: "a_tinv A t2" and e: "eff (a_locked A s) a (a_abs A s) (a_tabs A t2)" by auto
      from commit_law [OF s2(1) t2 c] s2 e Inr2 run b Inr m c show ?thesis
        by (cases r3) (auto simp: transaction_def)
    qed
  qed
qed

text \<open>A call that writes through one transaction.\<close>

lemma transactionD:
  assumes "tx_spec A body (\<lambda>l a v v'. v' = eff v)" and "a_inv A s" and "transaction Q body s = (res, s')"
  shows "a_inv A s' \<and> a_locked A s' = a_locked A s \<and>
    (a_abs A s' = eff (a_abs A s) \<or> (\<exists>e. res = Inl e) \<and> a_abs A s' = a_abs A s)"
  using transaction_law [OF assms(1), unfolded write_spec_def, rule_format, OF assms(2,3)]
  by (auto split: sum.splits)

lemma put_effect:
  assumes "a_inv A s" and "sqlx_put_tasks Q rs s = (res, s')"
  shows "a_inv A s' \<and> a_locked A s' = a_locked A s \<and>
    (a_abs A s' = on_tasks (db_put_all (map from_task_record rs)) (a_abs A s) \<or>
     (\<exists>e. res = Inl e) \<and> a_abs A s' = a_abs A s)"
proof (cases "rs = []")
  case True
  with assms show ?thesis by (simp add: sqlx_put_tasks_def on_tasks_same)
next
  case False
  with assms(2) have "transaction Q (sq_upsert_tasks Q (map from_task_record rs)) s = (res, s')"
    by (simp add: sqlx_put_tasks_def)
  from transactionD [OF upsert_law assms(1) this] show ?thesis .
qed

lemma retry_effect:
  assumes "a_inv A s" and "sqlx_retry_task Q r s = (res, s')"
  shows "a_inv A s' \<and> a_locked A s' = a_locked A s \<and>
    (a_abs A s' = on_tasks (\<lambda>m. m(tr_id r \<mapsto> from_task_record r)) (a_abs A s) \<or>
     (\<exists>e. res = Inl e) \<and> a_abs A s' = a_abs A s)"
proof -
  have "db_put_all [from_task_record r] (m |` (- {tr_id r})) = m(tr_id r \<mapsto> from_task_record r)" for m
    by (auto simp: db_put_all_def db_put_def restrict_map_def)
  then have "tx_spec A (tx_bind (sq_delete_tasks Q [tr_id r]) (\<lambda>_. sq_upsert_tasks Q [from_task_record r]))
      (\<lambda>l a v v'. v' = on_tasks (\<lambda>m. m(tr_id r \<mapsto> from_task_record r)) v)"
    by (intro tx_spec_mono [OF tx_spec_bind [OF delete_law upsert_law]]) simp
  from transactionD [OF this assms(1) assms(2) [unfolded sqlx_retry_task_def]] show ?thesis .
qed

lemma discard_effect:
  assumes "a_inv A s" and "sqlx_discard_tasks Q ids s = (res, s')"
  shows "a_inv A s' \<and> a_locked A s' = a_locked A s \<and>
    (a_abs A s' = on_tasks (\<lambda>m. m |` (- set ids)) (a_abs A s) \<or> (\<exists>e. res = Inl e) \<and> a_abs A s' = a_abs A s)"
proof (cases "ids = []")
  case True
  moreover have "(m :: string \<Rightarrow> db_task option) |` (- set []) = m" for m by (simp add: restrict_map_def)
  ultimately show ?thesis using assms by (simp add: sqlx_discard_tasks_def on_tasks_same)
next
  case False
  with assms(2) have "transaction Q (sq_discard_tasks Q ids) s = (res, s')"
    by (simp add: sqlx_discard_tasks_def)
  from transactionD [OF discard_law assms(1) this] show ?thesis .
qed

lemma persist_effect:
  assumes "a_inv A s" and "sqlx_persist_scheduler_state_and_put_tasks Q name data rs s = (res, s')"
  shows "a_inv A s' \<and> a_locked A s' = a_locked A s \<and>
    (a_abs A s' = (on_tasks (db_put_all (map from_task_record rs)) (a_abs A s))
        \<lparr>v_sched := (v_sched (a_abs A s))(name \<mapsto> data)\<rparr> \<or>
     (\<exists>e. res = Inl e) \<and> a_abs A s' = a_abs A s)"
proof -
  have "tx_spec A (if rs \<noteq> [] then let db = map from_task_record rs in sq_upsert_tasks Q db else tx_return ())
      (\<lambda>l a v v'. v' = on_tasks (db_put_all (map from_task_record rs)) v)"
  proof (cases "rs = []")
    case True
    then show ?thesis by (simp add: on_tasks_same) (rule tx_spec_mono [OF tx_spec_return], simp)
  next
    case False
    then show ?thesis using upsert_law by simp
  qed
  from tx_spec_bind [OF upsert_sched_law this]
  have "tx_spec A (tx_bind (sq_upsert_scheduler_state Q name data)
      (\<lambda>_. if rs \<noteq> [] then let db = map from_task_record rs in sq_upsert_tasks Q db else tx_return ()))
    (\<lambda>l a v v'. v' = (on_tasks (db_put_all (map from_task_record rs)) v)\<lparr>v_sched := (v_sched v)(name \<mapsto> data)\<rparr>)"
    by (rule tx_spec_mono) auto
  from transactionD [OF this assms(1) assms(2) [unfolded sqlx_persist_scheduler_state_and_put_tasks_def]]
  show ?thesis .
qed

text \<open>Finishing keeps the time the task began, or the time of finishing when it has none.\<close>

lemma finish_effect:
  assumes "a_inv A s"
    and "transaction Q (tx_bind (sq_fetch_task_for_update Q i)
      (\<lambda>existing. let began = (case Option.bind existing d_began of Some b \<Rightarrow> b | None \<Rightarrow> now)
         in sq_update_task_done Q i began now r m dt)) s = (res, s')"
  shows "a_inv A s' \<and> a_locked A s' = a_locked A s \<and>
    (a_abs A s' = on_tasks (db_update i (\<lambda>d. set_done (case d_began d of Some b \<Rightarrow> b | None \<Rightarrow> now) now r m dt d))
        (a_abs A s) \<or> (\<exists>e. res = Inl e) \<and> a_abs A s' = a_abs A s)"
proof -
  have "db_update i (set_done (case Option.bind (v i) d_began of Some b \<Rightarrow> b | None \<Rightarrow> now) now r m dt) v =
      db_update i (\<lambda>d. set_done (case d_began d of Some b \<Rightarrow> b | None \<Rightarrow> now) now r m dt d) v" for v
    by (cases "v i") (simp_all add: db_update_def)
  then have "tx_spec A (tx_bind (sq_fetch_task_for_update Q i)
      (\<lambda>existing. let began = (case Option.bind existing d_began of Some b \<Rightarrow> b | None \<Rightarrow> now)
         in sq_update_task_done Q i began now r m dt))
    (\<lambda>l a v v'. v' = on_tasks (db_update i (\<lambda>d. set_done (case d_began d of Some b \<Rightarrow> b | None \<Rightarrow> now) now r m dt d)) v)"
    unfolding Let_def
    by (intro tx_spec_mono [OF tx_spec_bind [OF fetch_for_update_law update_done_law]]) (elim exE conjE, simp)
  from transactionD [OF this assms] show ?thesis .
qed

lemma succeed_effect:
  assumes "a_inv A s" and "sqlx_succeed Q now r b s = (res, s')"
  shows "a_inv A s' \<and> a_locked A s' = a_locked A s \<and>
    (a_abs A s' = on_tasks (db_update (tr_id r) (\<lambda>d. set_done (case d_began d of Some b \<Rightarrow> b | None \<Rightarrow> now)
        now (Some b) None (fadd now (ttl_as_secs_f64 (ti_ttl (tr_info r)))) d)) (a_abs A s) \<or>
     (\<exists>e. res = Inl e) \<and> a_abs A s' = a_abs A s)"
  using finish_effect [OF assms(1)] assms(2) unfolding sqlx_succeed_def Let_def by blast

lemma fail_effect:
  assumes "a_inv A s" and "sqlx_fail Q now r b s = (res, s')"
  shows "a_inv A s' \<and> a_locked A s' = a_locked A s \<and>
    (a_abs A s' = on_tasks (db_update (tr_id r) (\<lambda>d. set_done (case d_began d of Some b \<Rightarrow> b | None \<Rightarrow> now)
        now None (Some (from_utf8_lossy b)) (fadd now (ttl_as_secs_f64 (ti_ttl (tr_info r)))) d)) (a_abs A s) \<or>
     (\<exists>e. res = Inl e) \<and> a_abs A s' = a_abs A s)"
  using finish_effect [OF assms(1)] assms(2) unfolding sqlx_fail_def Let_def by blast

lemma restore_effect:
  assumes "a_inv A s" and "sqlx_restore Q si s = (res, s')"
  shows "a_inv A s' \<and> a_locked A s' = a_locked A s \<and>
    (a_abs A s' = on_tasks (db_update (si_task_id si) (d_began_update (\<lambda>_. None))) (a_abs A s) \<or>
     (\<exists>e. res = Inl e) \<and> a_abs A s' = a_abs A s)"
  using transactionD [OF restore_law assms(1) assms(2) [unfolded sqlx_restore_def]] .

end

end
