(* ===== verification/Sql_Facts.thy ===== *)
theory Sql_Facts imports Sql_Engine Sqlx_Contract begin

section \<open>The statements meet the contract\<close>

text \<open>
  The tables seen as maps, and for each statement form of \<open>Sql_Engine\<close> the effect the contract of
  \<open>Sqlx_Contract\<close> asks for.  The dialects use these lemmas query by query.
\<close>

definition tables_ok :: "sql_tables \<Rightarrow> bool" where
  "tables_ok t \<longleftrightarrow> distinct (map d_id (t_task t)) \<and> distinct (map fst (t_worker t)) \<and>
     distinct (map fst (t_scheduler_state t))"

definition tables_view :: "sql_tables \<Rightarrow> sql_view" where
  "tables_view t =
     \<lparr>v_tasks = row_of d_id (t_task t),
      v_sched = (\<lambda>i. map_option snd (row_of fst (t_scheduler_state t) i)),
      v_workers = (\<lambda>i. map_option snd (row_of fst (t_worker t) i)),
      v_events = t_control_event t\<rparr>"

definition server_abs :: "('k sql_server, sql_tables) sql_abs" where
  "server_abs =
     \<lparr>a_inv = (\<lambda>sv. tables_ok (sv_tables sv)), a_tinv = tables_ok,
      a_abs = (\<lambda>sv. tables_view (sv_tables sv)), a_tabs = tables_view, a_locked = sv_row_locked\<rparr>"

lemma server_abs_sel [simp]:
  "a_inv server_abs sv = tables_ok (sv_tables sv)" "a_tinv server_abs = tables_ok"
  "a_abs server_abs sv = tables_view (sv_tables sv)" "a_tabs server_abs = tables_view"
  "a_locked server_abs = sv_row_locked"
  by (simp_all add: server_abs_def)

lemma tables_view_sel [simp]:
  "v_tasks (tables_view t) = row_of d_id (t_task t)"
  "v_sched (tables_view t) = (\<lambda>i. map_option snd (row_of fst (t_scheduler_state t) i))"
  "v_workers (tables_view t) = (\<lambda>i. map_option snd (row_of fst (t_worker t) i))"
  "v_events (tables_view t) = t_control_event t"
  by (simp_all add: tables_view_def)

lemma in_transaction_spec:
  assumes "\<And>t a t'. tables_ok t \<Longrightarrow> f t = Inr (a, t') \<Longrightarrow> tables_ok t' \<and> eff a (tables_view t) (tables_view t')"
  shows "tx_spec server_abs (in_transaction f) (\<lambda>l. eff)"
  unfolding tx_spec_def
proof clarify
  fix sv tx res tx' sv'
  assume inv: "a_inv server_abs sv" "a_tinv server_abs tx"
    and run: "in_transaction f tx sv = (res, tx', sv')"
  from run have "sv' = sv\<lparr>sv_count := Suc (sv_count sv)\<rparr>" and "\<forall>a. res = Inr a \<longrightarrow> f tx = Inr (a, tx')"
    by (auto simp: in_transaction_def Let_def split: option.splits sum.splits prod.splits)
  with inv assms [of tx] show "unchanged server_abs sv sv' \<and> (\<forall>a. res = Inr a \<longrightarrow>
      a_tinv server_abs tx' \<and> eff a (a_tabs server_abs tx) (a_tabs server_abs tx'))"
    by (auto simp: unchanged_def)
qed

lemma on_connection_cases:
  assumes "on_connection f sv = (res, sv')"
  shows "sv_row_locked sv' = sv_row_locked sv \<and>
    (case res of
       Inr a \<Rightarrow> f (sv_tables sv) = Inr (a, sv_tables sv')
     | Inl e \<Rightarrow> sv_tables sv' = sv_tables sv \<or> (\<exists>a. f (sv_tables sv) = Inr (a, sv_tables sv')))"
  using assms
  by (auto simp: on_connection_def Let_def split: option.splits sum.splits prod.splits bool.splits)

lemma read_specI:
  assumes "\<And>t a t'. tables_ok t \<Longrightarrow> f t = Inr (a, t') \<Longrightarrow> t' = t \<and> P a (tables_view t)"
  shows "read_spec server_abs (on_connection f) P"
  unfolding read_spec_def
proof clarify
  fix sv res sv' assume inv: "a_inv server_abs sv" and run: "on_connection f sv = (res, sv')"
  note C = on_connection_cases [OF run]
  show "unchanged server_abs sv sv' \<and> (\<forall>a. res = Inr a \<longrightarrow> P a (a_abs server_abs sv))"
  proof (cases res)
    case (Inl e)
    with C assms [of "sv_tables sv"] inv show ?thesis by (auto simp: unchanged_def)
  next
    case (Inr a)
    with C assms [of "sv_tables sv"] inv show ?thesis by (auto simp: unchanged_def)
  qed
qed

lemma write_specI:
  assumes "\<And>t a t'. tables_ok t \<Longrightarrow> f t = Inr (a, t') \<Longrightarrow> tables_ok t' \<and> eff a (tables_view t) (tables_view t')"
  shows "write_spec server_abs (on_connection f) (\<lambda>l. eff)"
  unfolding write_spec_def
proof clarify
  fix sv res sv' assume inv: "a_inv server_abs sv" and run: "on_connection f sv = (res, sv')"
  note C = on_connection_cases [OF run]
  show "a_inv server_abs sv' \<and> a_locked server_abs sv' = a_locked server_abs sv \<and>
    (case res of Inl e \<Rightarrow> a_abs server_abs sv' = a_abs server_abs sv \<or>
        (\<exists>a. eff a (a_abs server_abs sv) (a_abs server_abs sv'))
     | Inr a \<Rightarrow> eff a (a_abs server_abs sv) (a_abs server_abs sv'))"
  proof (cases res)
    case (Inl e)
    with C assms [of "sv_tables sv"] inv show ?thesis by auto
  next
    case (Inr a)
    with C assms [of "sv_tables sv"] inv show ?thesis by auto
  qed
qed

subsection \<open>Statements on the task table\<close>

lemma find_row_of: "find (\<lambda>r. key r = k) rows = row_of key rows k"
  by (simp add: row_of_def)

lemma tasks_update_where:
  assumes "tables_ok t" and "\<And>d. d_id (f d) = d_id d"
  shows "tables_ok (t\<lparr>t_task := update_where (\<lambda>d. d_id d = i) f (t_task t)\<rparr>) \<and>
    tables_view (t\<lparr>t_task := update_where (\<lambda>d. d_id d = i) f (t_task t)\<rparr>) =
      on_tasks (db_update i f) (tables_view t)"
proof
  from assms show "tables_ok (t\<lparr>t_task := update_where (\<lambda>d. d_id d = i) f (t_task t)\<rparr>)"
    by (simp add: tables_ok_def map_key_update_where)
  have "row_of d_id (update_where (\<lambda>d. d_id d = i) f (t_task t)) = db_update i f (row_of d_id (t_task t))"
    using assms(2)
    by (auto simp: row_of_update_where db_update_def fun_eq_iff dest: row_of_SomeD split: option.splits)
  then show "tables_view (t\<lparr>t_task := update_where (\<lambda>d. d_id d = i) f (t_task t)\<rparr>) =
      on_tasks (db_update i f) (tables_view t)" by (simp add: tables_view_def)
qed

lemma tasks_delete_where:
  "tables_ok t \<Longrightarrow> tables_ok (t\<lparr>t_task := delete_where (\<lambda>d. d_id d \<in> K) (t_task t)\<rparr>) \<and>
    tables_view (t\<lparr>t_task := delete_where (\<lambda>d. d_id d \<in> K) (t_task t)\<rparr>) =
      on_tasks (\<lambda>m. m |` (- K)) (tables_view t)"
  by (simp add: tables_ok_def distinct_delete_where row_of_delete_where tables_view_def)

lemma row_of_insert_all_or_ignore:
  "row_of d_id (insert_all_or_ignore d_id ds rows) = db_put_all ds (row_of d_id rows)"
  unfolding insert_all_or_ignore_def db_put_all_def
  by (induction ds arbitrary: rows) (simp_all add: row_of_insert_or_ignore db_put_def)

lemma tasks_insert:
  "tables_ok t \<Longrightarrow> tables_ok (t\<lparr>t_task := insert_all_or_ignore d_id ds (t_task t)\<rparr>) \<and>
    tables_view (t\<lparr>t_task := insert_all_or_ignore d_id ds (t_task t)\<rparr>) =
      on_tasks (db_put_all ds) (tables_view t)"
  by (simp add: tables_ok_def distinct_insert_all_or_ignore row_of_insert_all_or_ignore tables_view_def)

subsection \<open>Ordered queries\<close>

lemma take_select_top_rows:
  assumes "distinct (map d_id rows)"
  shows "top_rows P ord n (row_of d_id rows) (take n (select_ordered P ord rows))"
  unfolding top_rows_def
proof (intro conjI)
  let ?xs = "select_ordered P ord rows"
  have set_take: "set (take n ?xs) \<subseteq> set ?xs" by (rule set_take_subset)
  show "distinct (map d_id (take n ?xs))"
    using select_ordered_distinct [OF assms] by (metis distinct_take take_map)
  show "sorted (map ord (take n ?xs))"
    using select_ordered_sorted by (metis sorted_wrt_take take_map)
  show "\<forall>d\<in>set (take n ?xs). row_of d_id rows (d_id d) = Some d \<and> P d"
    using set_take by (auto simp: row_of_Some_iff [OF assms])
  show "\<forall>i d. row_of d_id rows i = Some d \<longrightarrow> P d \<longrightarrow> d \<notin> set (take n ?xs) \<longrightarrow>
      length (take n ?xs) = n \<and> (\<forall>d'\<in>set (take n ?xs). ord d' \<le> ord d)"
  proof (intro allI impI)
    fix i d assume "row_of d_id rows i = Some d" and "P d" and nin: "d \<notin> set (take n ?xs)"
    then have "d \<in> set ?xs" by (simp add: row_of_Some_iff [OF assms])
    with nin have d: "d \<in> set (drop n ?xs)"
      by (metis Un_iff append_take_drop_id set_append)
    then have "length (take n ?xs) = n" by (auto simp: min_def)
    moreover have "ord d' \<le> ord d" if "d' \<in> set (take n ?xs)" for d'
      using take_sorted_least [OF select_ordered_sorted that d] .
    ultimately show "length (take n ?xs) = n \<and> (\<forall>d'\<in>set (take n ?xs). ord d' \<le> ord d)" by blast
  qed
qed simp

lemma query_limited_Inr:
  "query_limited n f t = Inr (rows, t') \<longleftrightarrow> 0 \<le> n \<and> rows = take (nat n) (f t) \<and> t' = t"
  by (auto simp: query_limited_def limit_rows_def split: if_splits)

text \<open>A query for rows, and one for their ids, under a limit that the bound integer represents.\<close>

lemma rows_query:
  assumes "\<And>n. 0 \<le> L n \<Longrightarrow> n < cap \<Longrightarrow> nat (L n) = n" and "n < cap"
  shows "read_spec server_abs (on_connection (query_limited (L n) (\<lambda>t. select_ordered P ord (t_task t))))
    (\<lambda>ds v. top_rows P ord n (v_tasks v) ds)"
  using assms by (intro read_specI) (auto simp: query_limited_Inr tables_ok_def take_select_top_rows)

lemma ids_query:
  assumes "\<And>n. 0 \<le> L n \<Longrightarrow> n < cap \<Longrightarrow> nat (L n) = n" and "n < cap"
  shows "read_spec server_abs (on_connection (query_limited (L n) (\<lambda>t. map d_id (select_ordered P ord (t_task t)))))
    (\<lambda>ids v. \<exists>ds. ids = map d_id ds \<and> top_rows P ord n (v_tasks v) ds)"
  using assms
  by (intro read_specI) (auto simp: query_limited_Inr tables_ok_def take_map intro!: exI take_select_top_rows)

lemma stage_query:
  assumes "\<And>n. 0 \<le> L n \<Longrightarrow> n < cap \<Longrightarrow> nat (L n) = n" and "n < cap"
  shows "read_spec server_abs (on_connection (\<lambda>t.
       case query_limited (L n) (\<lambda>t. select_ordered (\<lambda>d. d_done d = None \<and> d_began d \<noteq> None)
              (\<lambda>d. the (d_began d)) (t_task t)) t of
         Inl m \<Rightarrow> Inl m
       | Inr (rows, t) \<Rightarrow>
           (case decode_rows stage_info_from_row rows of Inl m \<Rightarrow> Inl m | Inr infos \<Rightarrow> Inr (infos, t))))
    (\<lambda>sis v. \<exists>ds. top_rows (\<lambda>d. d_done d = None \<and> d_began d \<noteq> None) (\<lambda>d. the (d_began d)) n (v_tasks v) ds \<and>
        list_all2 (\<lambda>d si. ds_task_id si = d_id d \<and> d_assignee_worker_id d = Some (ds_worker_id si) \<and>
          d_began d = Some (ds_assigned_at si)) ds sis)"
proof (rule read_specI)
  fix t sis t'
  let ?f = "\<lambda>t. select_ordered (\<lambda>d. d_done d = None \<and> d_began d \<noteq> None) (\<lambda>d. the (d_began d)) (t_task t)"
  assume ok: "tables_ok t" and "(case query_limited (L n) ?f t of
         Inl m \<Rightarrow> Inl m
       | Inr (rows, t) \<Rightarrow>
           (case decode_rows stage_info_from_row rows of Inl m \<Rightarrow> Inl m | Inr infos \<Rightarrow> Inr (infos, t))) =
      Inr (sis, t')"
  then obtain rows where q: "query_limited (L n) ?f t = Inr (rows, t')"
    and dec: "decode_rows stage_info_from_row rows = Inr sis"
    by (auto split: sum.splits)
  from q assms have "t' = t" and rows: "rows = take n (?f t)" by (auto simp: query_limited_Inr)
  have "list_all2 (\<lambda>d si. ds_task_id si = d_id d \<and> d_assignee_worker_id d = Some (ds_worker_id si) \<and>
          d_began d = Some (ds_assigned_at si)) rows sis"
    using dec unfolding decode_rows_Inr
    by (rule list_all2_mono) (auto simp: stage_info_from_row_def split: option.splits)
  moreover have "top_rows (\<lambda>d. d_done d = None \<and> d_began d \<noteq> None) (\<lambda>d. the (d_began d)) n
      (row_of d_id (t_task t)) rows"
    unfolding rows using ok by (intro take_select_top_rows) (simp add: tables_ok_def)
  ultimately show "t' = t \<and> (\<exists>ds. top_rows (\<lambda>d. d_done d = None \<and> d_began d \<noteq> None) (\<lambda>d. the (d_began d)) n
        (v_tasks (tables_view t)) ds \<and>
        list_all2 (\<lambda>d si. ds_task_id si = d_id d \<and> d_assignee_worker_id d = Some (ds_worker_id si) \<and>
          d_began d = Some (ds_assigned_at si)) ds sis)"
    using \<open>t' = t\<close> by auto
qed

subsection \<open>Looking up, and the other tables\<close>

text \<open>Collecting the rows found into a \<open>HashMap\<close> by id finds each row again.\<close>

lemma foldl_map_rows:
  assumes "distinct (map d_id ds)"
  shows "foldl (\<lambda>m d. m(d_id d \<mapsto> d)) m0 ds i = (case row_of d_id ds i of Some d \<Rightarrow> Some d | None \<Rightarrow> m0 i)"
  using assms
proof (induction ds arbitrary: m0)
  case (Cons d ds)
  then have "row_of d_id ds (d_id d) = None" by (simp add: row_of_None_iff)
  with Cons show ?case by (auto simp: row_of_Cons split: option.splits)
qed simp

lemma row_of_filter:
  "distinct (map key rows) \<Longrightarrow>
   row_of key (filter P rows) k = (case row_of key rows k of Some r \<Rightarrow> (if P r then Some r else None) | None \<Rightarrow> None)"
proof (induction rows)
  case (Cons r rows)
  then have "row_of key rows (key r) = None" by (simp add: row_of_None_iff)
  with Cons show ?case by (auto simp: row_of_Cons split: option.splits)
qed simp

lemma lookup_rows:
  assumes "distinct (map d_id rows)"
  shows "map (foldl (\<lambda>m d. m(d_id d \<mapsto> d)) Map.empty (filter (\<lambda>d. d_id d \<in> set ids) rows)) ids =
    map (row_of d_id rows) ids"
proof (rule map_cong [OF refl])
  fix i assume i: "i \<in> set ids"
  have "distinct (map d_id (filter (\<lambda>d. d_id d \<in> set ids) rows))" using assms by (rule distinct_map_filter)
  from foldl_map_rows [OF this] row_of_filter [OF assms, of "\<lambda>d. d_id d \<in> set ids" i] i
  show "foldl (\<lambda>m d. m(d_id d \<mapsto> d)) Map.empty (filter (\<lambda>d. d_id d \<in> set ids) rows) i = row_of d_id rows i"
    by (auto dest: row_of_SomeD split: option.splits)
qed

lemma fst_update [simp]: "fst (case_prod (\<lambda>a b. (a, c)) r) = fst r"
  by (cases r) simp

lemma row_of_set_worker:
  "map_option snd (row_of fst (insert_or_set fst (\<lambda>new r. (fst r, snd new)) (w, x) rows) i) =
     (if i = w then Some x else map_option snd (row_of fst rows i))"
  by (simp add: row_of_insert_or_set split: option.splits)

lemma workers_set:
  assumes "tables_ok t" and "distinct ws"
  shows "tables_ok (t\<lparr>t_worker := insert_all_or_set fst (\<lambda>new r. (fst r, snd new)) (map (\<lambda>w. (w, x)) ws) (t_worker t)\<rparr>) \<and>
    tables_view (t\<lparr>t_worker := insert_all_or_set fst (\<lambda>new r. (fst r, snd new)) (map (\<lambda>w. (w, x)) ws) (t_worker t)\<rparr>) =
      (tables_view t)\<lparr>v_workers := (\<lambda>w. if w \<in> set ws then Some x else v_workers (tables_view t) w)\<rparr>"
proof -
  have "distinct (map fst (insert_all_or_set fst (\<lambda>new r. (fst r, snd new)) (map (\<lambda>w. (w, x)) ws) rows)) \<and>
      (\<forall>i. map_option snd (row_of fst (insert_all_or_set fst (\<lambda>new r. (fst r, snd new)) (map (\<lambda>w. (w, x)) ws) rows) i) =
        (if i \<in> set ws then Some x else map_option snd (row_of fst rows i)))"
    if "distinct (map fst rows)" for rows :: "(string \<times> f64) list"
    using that unfolding insert_all_or_set_def
  proof (induction ws arbitrary: rows)
    case (Cons w ws)
    have "distinct (map fst (insert_or_set fst (\<lambda>new r. (fst r, snd new)) (w, x) rows))"
      using Cons.prems by (intro distinct_insert_or_set) simp_all
    from Cons.IH [OF this] show ?case by (simp add: row_of_set_worker)
  qed simp
  with assms(1) show ?thesis by (auto simp: tables_ok_def tables_view_def fun_eq_iff)
qed

lemma workers_purge:
  "tables_ok t \<Longrightarrow> tables_ok (t\<lparr>t_worker := delete_where (\<lambda>r. fst r \<in> K) (t_worker t)\<rparr>) \<and>
    tables_view (t\<lparr>t_worker := delete_where (\<lambda>r. fst r \<in> K) (t_worker t)\<rparr>) =
      (tables_view t)\<lparr>v_workers := v_workers (tables_view t) |` (- K)\<rparr>"
  by (auto simp: tables_ok_def distinct_delete_where row_of_delete_where tables_view_def fun_eq_iff restrict_map_def)

lemma sched_set:
  "tables_ok t \<Longrightarrow> tables_ok (t\<lparr>t_scheduler_state :=
        insert_or_set fst (\<lambda>new r. (fst r, snd new)) (name, data) (t_scheduler_state t)\<rparr>) \<and>
    tables_view (t\<lparr>t_scheduler_state :=
        insert_or_set fst (\<lambda>new r. (fst r, snd new)) (name, data) (t_scheduler_state t)\<rparr>) =
      (tables_view t)\<lparr>v_sched := (v_sched (tables_view t))(name \<mapsto> data)\<rparr>"
  by (auto simp: tables_ok_def distinct_insert_or_set row_of_insert_or_set tables_view_def fun_eq_iff
      split: option.splits)

lemma map_of_row_of: "map_of xs i = map_option snd (row_of fst xs i)"
  by (induction xs) (auto simp: row_of_Cons)

lemma workers_query:
  assumes "distinct (map fst rows)"
  shows "distinct (map fst (select_ordered (\<lambda>_. True) snd rows)) \<and>
    map_of (select_ordered (\<lambda>_. True) snd rows) = (\<lambda>i. map_option snd (row_of fst rows i)) \<and>
    sorted (map snd (select_ordered (\<lambda>_. True) snd rows))"
proof (intro conjI)
  show d: "distinct (map fst (select_ordered (\<lambda>_. True) snd rows))"
    using assms by (rule select_ordered_distinct)
  have "set (select_ordered (\<lambda>_. True) snd rows) = set rows" by simp
  with d assms have "map_of (select_ordered (\<lambda>_. True) snd rows) = map_of rows"
    by (simp only: map_of_inject_set)
  then show "map_of (select_ordered (\<lambda>_. True) snd rows) = (\<lambda>i. map_option snd (row_of fst rows i))"
    by (simp add: fun_eq_iff map_of_row_of)
  show "sorted (map snd (select_ordered (\<lambda>_. True) snd rows))" by (rule select_ordered_sorted)
qed

end
