(* ===== verification/Sqlx_View.thy ===== *)
theory Sqlx_View imports Sqlx_Contract begin

section \<open>The SQL backend as an abstract store\<close>

text \<open>
  A table of rows read as the abstract store of \<open>Backend_Api\<close>, and the operations of \<open>SqlxBackend\<close>
  as operations on it.  Two of them differ from the in-process backend: finishing a task that is
  gone does not save it, and restoring takes no notice of whether the task has finished.
\<close>

definition db_status :: "db_task \<Rightarrow> status" where
  "db_status d =
     (case d_done d of
        None \<Rightarrow>
          (case d_began d of
             None \<Rightarrow> Queued
           | Some t \<Rightarrow> Staged (case d_assignee_worker_id d of Some w \<Rightarrow> w | None \<Rightarrow> []) t)
      | Some _ \<Rightarrow>
          (case d_result d of
             Some b \<Rightarrow> Succeeded b
           | None \<Rightarrow> Failed (case d_error_message d of Some m \<Rightarrow> m | None \<Rightarrow> [])))"

definition task_view :: "(string \<Rightarrow> db_task option) \<Rightarrow> tview" where
  "task_view m i = Option.bind (m i) (\<lambda>d. map_option (\<lambda>r. (r, db_status d)) (to_task_record d))"

text \<open>Every row is found under its id, and its \<open>ttl\<close> is a duration.\<close>

definition rows_ok :: "(string \<Rightarrow> db_task option) \<Rightarrow> bool" where
  "rows_ok m \<longleftrightarrow> (\<forall>i d. m i = Some d \<longrightarrow> d_id d = i \<and> to_task_record d \<noteq> None)"

definition storable :: "task_record \<Rightarrow> bool" where
  "storable r \<longleftrightarrow> to_task_record (from_task_record r) = Some r"

lemma to_from_task_record:
  "to_task_record (from_task_record r) =
     map_option (\<lambda>t. r\<lparr>tr_info := (tr_info r)\<lparr>ti_ttl := t\<rparr>\<rparr>) (ttl_from_secs_f64 (ttl_as_secs_f64 (ti_ttl (tr_info r))))"
  by (simp add: to_task_record_def from_task_record_def split: option.splits)

lemma storable_ttl: "ti_ttl (tr_info r) \<le> 2 ^ 51 \<Longrightarrow> storable r"
  by (simp add: storable_def to_from_task_record ttl_roundtrip)

lemma db_status_new [simp]: "db_status (from_task_record r) = Queued"
  by (simp add: db_status_def from_task_record_def)

lemma to_task_record_id: "to_task_record d = Some r \<Longrightarrow> tr_id r = d_id d"
  by (auto simp: to_task_record_def split: option.splits)

lemma task_view_Some:
  "rows_ok m \<Longrightarrow> task_view m i = Some (r, st) \<longleftrightarrow> (\<exists>d. m i = Some d \<and> to_task_record d = Some r \<and> st = db_status d)"
  by (auto simp: task_view_def split: bind_splits)

lemma task_view_None: "rows_ok m \<Longrightarrow> task_view m i = None \<longleftrightarrow> m i = None"
  by (cases "m i") (auto simp: task_view_def rows_ok_def)

lemma task_view_upd [simp]:
  "task_view (m(i := x)) = (task_view m)(i := Option.bind x (\<lambda>d. map_option (\<lambda>r. (r, db_status d)) (to_task_record d)))"
  by (auto simp: task_view_def fun_eq_iff)

lemma rows_ok_upd:
  "rows_ok m \<Longrightarrow> (\<And>d. x = Some d \<Longrightarrow> d_id d = i \<and> to_task_record d \<noteq> None) \<Longrightarrow> rows_ok (m(i := x))"
  by (auto simp: rows_ok_def)

lemma rows_ok_put:
  assumes "rows_ok m" and "storable r"
  shows "rows_ok (db_put (from_task_record r) m) \<and>
    task_view (db_put (from_task_record r) m) = spec_put r (task_view m)"
  using assms
  by (auto simp: db_put_def spec_put_def storable_def task_view_None intro!: rows_ok_upd)

lemma rows_ok_put_all:
  assumes "rows_ok m" and "list_all storable rs"
  shows "rows_ok (db_put_all (map from_task_record rs) m) \<and>
    task_view (db_put_all (map from_task_record rs) m) = spec_put_all rs (task_view m)"
  using assms
proof (induction rs arbitrary: m)
  case (Cons r rs)
  then have "rows_ok (db_put (from_task_record r) m)"
    and "task_view (db_put (from_task_record r) m) = spec_put r (task_view m)"
    using rows_ok_put [of m r] by simp_all
  with Cons show ?case by (simp add: db_put_all_def spec_put_all_def)
qed (simp add: db_put_all_def spec_put_all_def)

lemma rows_ok_retry:
  assumes "rows_ok m" and "storable r"
  shows "rows_ok (m(tr_id r \<mapsto> from_task_record r)) \<and>
    task_view (m(tr_id r \<mapsto> from_task_record r)) = spec_retry r (task_view m)"
  using assms by (auto simp: storable_def spec_retry_def intro!: rows_ok_upd)

lemma rows_ok_discard:
  assumes "rows_ok m"
  shows "rows_ok (m |` (- set ids)) \<and> task_view (m |` (- set ids)) = spec_discard ids (task_view m)"
  using assms by (auto simp: rows_ok_def spec_discard_def task_view_def restrict_map_def fun_eq_iff)

lemma rows_ok_update:
  assumes "rows_ok m" and "\<And>d. d_id (f d) = d_id d" and "\<And>d. to_task_record (f d) = to_task_record d"
  shows "rows_ok (db_update i f m)"
  using assms by (auto simp: rows_ok_def db_update_def)

text \<open>Finishing: the outcome of a stored task, and nothing for a task that is gone.\<close>

definition spec_finish_stored :: "task_id \<Rightarrow> status \<Rightarrow> tview \<Rightarrow> tview" where
  "spec_finish_stored i st v = (case v i of None \<Rightarrow> v | Some (r0, _) \<Rightarrow> v(i \<mapsto> (r0, st)))"

lemma rows_ok_finish:
  assumes "rows_ok m"
    and "st = (case res of Some b \<Rightarrow> Succeeded b | None \<Rightarrow> Failed (case msg of Some x \<Rightarrow> x | None \<Rightarrow> []))"
  shows "rows_ok (db_update i (\<lambda>d. set_done (B d) now res msg dt d) m) \<and>
    task_view (db_update i (\<lambda>d. set_done (B d) now res msg dt d) m) = spec_finish_stored i st (task_view m)"
proof (intro conjI rows_ok_update assms(1))
  show "task_view (db_update i (\<lambda>d. set_done (B d) now res msg dt d) m) = spec_finish_stored i st (task_view m)"
  proof (cases "m i")
    case None
    then have "task_view m i = None" and "db_update i (\<lambda>d. set_done (B d) now res msg dt d) m = m"
      by (auto simp: task_view_def db_update_def fun_eq_iff)
    then show ?thesis by (simp add: spec_finish_stored_def)
  next
    case (Some d)
    with assms(1) obtain r where "to_task_record d = Some r" by (auto simp: rows_ok_def)
    with Some assms(2) show ?thesis
      by (cases res) (simp_all add: spec_finish_stored_def db_update_def task_view_def [of m i] db_status_def)
  qed
qed simp_all

lemma began_None_sel [simp]:
  "d_id (d_began_update (\<lambda>_. None) d) = d_id d"
  "to_task_record (d_began_update (\<lambda>_. None) d) = to_task_record d"
  by (simp_all add: to_task_record_def cong: option.case_cong)

text \<open>Restoring a task that has not finished.\<close>

lemma rows_ok_restore:
  assumes "rows_ok m"
  shows "rows_ok (db_update i (d_began_update (\<lambda>_. None)) m) \<and>
    ((\<forall>d. m i = Some d \<longrightarrow> d_done d = None) \<longrightarrow>
      task_view (db_update i (d_began_update (\<lambda>_. None)) m) = spec_restore i (task_view m))"
proof (intro conjI impI rows_ok_update assms)
  assume undone: "\<forall>d. m i = Some d \<longrightarrow> d_done d = None"
  show "task_view (db_update i (d_began_update (\<lambda>_. None)) m) = spec_restore i (task_view m)"
  proof (cases "m i")
    case None
    then have "task_view m i = None" and "db_update i (d_began_update (\<lambda>_. None)) m = m"
      by (auto simp: task_view_def db_update_def fun_eq_iff)
    then show ?thesis by (simp add: spec_restore_def)
  next
    case (Some d)
    with assms obtain r where r: "to_task_record d = Some r" by (auto simp: rows_ok_def)
    from Some undone have dn: "d_done d = None" by simp
    have v: "task_view m i = Some (r, db_status d)" using Some r by (simp add: task_view_def)
    have "db_status (d\<lparr>d_began := None\<rparr>) = Queued" using dn by (simp add: db_status_def)
    then have "task_view (db_update i (d_began_update (\<lambda>_. None)) m) = (task_view m)(i \<mapsto> (r, Queued))"
      using Some r by (simp add: db_update_def)
    moreover have "spec_restore i (task_view m) = (task_view m)(i \<mapsto> (r, Queued))"
      using v dn by (cases "d_began d") (auto simp: spec_restore_def db_status_def fun_eq_iff)
    ultimately show ?thesis by simp
  qed
qed simp_all

context sql_backend begin

lemma refine_put:
  assumes "a_inv A s" and "sqlx_put_tasks Q rs s = (res, s')"
    and "rows_ok (v_tasks (a_abs A s))" and "list_all storable rs"
  shows "rows_ok (v_tasks (a_abs A s')) \<and> v_sched (a_abs A s') = v_sched (a_abs A s) \<and>
    (task_view (v_tasks (a_abs A s')) = spec_put_all rs (task_view (v_tasks (a_abs A s))) \<or>
     (\<exists>e. res = Inl e) \<and> a_abs A s' = a_abs A s)"
  using put_effect [OF assms(1,2)] rows_ok_put_all [OF assms(3,4)] assms(3) by auto

lemma refine_persist:
  assumes "a_inv A s" and "sqlx_persist_scheduler_state_and_put_tasks Q name data rs s = (res, s')"
    and "rows_ok (v_tasks (a_abs A s))" and "list_all storable rs"
  shows "rows_ok (v_tasks (a_abs A s')) \<and>
    (task_view (v_tasks (a_abs A s')) = spec_put_all rs (task_view (v_tasks (a_abs A s))) \<and>
       v_sched (a_abs A s') = (v_sched (a_abs A s))(name \<mapsto> data) \<or>
     (\<exists>e. res = Inl e) \<and> a_abs A s' = a_abs A s)"
  using persist_effect [OF assms(1,2)] rows_ok_put_all [OF assms(3,4)] assms(3) by auto

lemma refine_retry:
  assumes "a_inv A s" and "sqlx_retry_task Q r s = (res, s')"
    and "rows_ok (v_tasks (a_abs A s))" and "storable r"
  shows "rows_ok (v_tasks (a_abs A s')) \<and> v_sched (a_abs A s') = v_sched (a_abs A s) \<and>
    (task_view (v_tasks (a_abs A s')) = spec_retry r (task_view (v_tasks (a_abs A s))) \<or>
     (\<exists>e. res = Inl e) \<and> a_abs A s' = a_abs A s)"
  using retry_effect [OF assms(1,2)] rows_ok_retry [OF assms(3,4)] assms(3) by auto

lemma refine_discard:
  assumes "a_inv A s" and "sqlx_discard_tasks Q ids s = (res, s')" and "rows_ok (v_tasks (a_abs A s))"
  shows "rows_ok (v_tasks (a_abs A s')) \<and> v_sched (a_abs A s') = v_sched (a_abs A s) \<and>
    (task_view (v_tasks (a_abs A s')) = spec_discard ids (task_view (v_tasks (a_abs A s))) \<or>
     (\<exists>e. res = Inl e) \<and> a_abs A s' = a_abs A s)"
  using discard_effect [OF assms(1,2)] rows_ok_discard [OF assms(3)] assms(3) by auto

lemma refine_succeed:
  assumes "a_inv A s" and "sqlx_succeed Q now r b s = (res, s')" and "rows_ok (v_tasks (a_abs A s))"
  shows "rows_ok (v_tasks (a_abs A s')) \<and> v_sched (a_abs A s') = v_sched (a_abs A s) \<and>
    (task_view (v_tasks (a_abs A s')) =
       spec_finish_stored (tr_id r) (Succeeded b) (task_view (v_tasks (a_abs A s))) \<or>
     (\<exists>e. res = Inl e) \<and> a_abs A s' = a_abs A s)"
proof -
  have "Succeeded b = (case Some b of Some b \<Rightarrow> Succeeded b
      | None \<Rightarrow> Failed (case None of Some x \<Rightarrow> x | None \<Rightarrow> []))" by simp
  from rows_ok_finish [OF assms(3) this, of "tr_id r"
      "\<lambda>d. case d_began d of Some b \<Rightarrow> b | None \<Rightarrow> now" now "fadd now (ttl_as_secs_f64 (ti_ttl (tr_info r)))"]
    succeed_effect [OF assms(1,2)] assms(3)
  show ?thesis by auto
qed

lemma refine_fail:
  assumes "a_inv A s" and "sqlx_fail Q now r b s = (res, s')" and "rows_ok (v_tasks (a_abs A s))"
  shows "rows_ok (v_tasks (a_abs A s')) \<and> v_sched (a_abs A s') = v_sched (a_abs A s) \<and>
    (task_view (v_tasks (a_abs A s')) =
       spec_finish_stored (tr_id r) (Failed (from_utf8_lossy b)) (task_view (v_tasks (a_abs A s))) \<or>
     (\<exists>e. res = Inl e) \<and> a_abs A s' = a_abs A s)"
proof -
  have "Failed (from_utf8_lossy b) = (case None of Some b \<Rightarrow> Succeeded b
      | None \<Rightarrow> Failed (case Some (from_utf8_lossy b) of Some x \<Rightarrow> x | None \<Rightarrow> []))"
    by (simp del: from_utf8_lossy.simps)
  from rows_ok_finish [OF assms(3) this, of "tr_id r"
      "\<lambda>d. case d_began d of Some b \<Rightarrow> b | None \<Rightarrow> now" now "fadd now (ttl_as_secs_f64 (ti_ttl (tr_info r)))"]
    fail_effect [OF assms(1,2)] assms(3)
  show ?thesis by (auto simp del: from_utf8_lossy.simps)
qed

lemma refine_restore:
  assumes "a_inv A s" and "sqlx_restore Q si s = (res, s')" and "rows_ok (v_tasks (a_abs A s))"
  shows "rows_ok (v_tasks (a_abs A s')) \<and> v_sched (a_abs A s') = v_sched (a_abs A s) \<and>
    ((\<forall>d. v_tasks (a_abs A s) (si_task_id si) = Some d \<longrightarrow> d_done d = None) \<longrightarrow>
     task_view (v_tasks (a_abs A s')) = spec_restore (si_task_id si) (task_view (v_tasks (a_abs A s))) \<or>
     (\<exists>e. res = Inl e) \<and> a_abs A s' = a_abs A s)"
  using restore_effect [OF assms(1,2)] rows_ok_restore [OF assms(3), of "si_task_id si"] assms(3) by auto

lemma refine_result:
  assumes "a_inv A s" and "sqlx_get_result Q i s = (out, s')" and "rows_ok (v_tasks (a_abs A s))"
  shows "unchanged A s s' \<and>
    (out = Some (spec_result (task_view (v_tasks (a_abs A s))) i) \<or> (\<exists>e. out = Some (Inl (GR_Backend e))))"
proof -
  obtain r s1 where q: "sq_get_result Q i s = (r, s1)" by fastforce
  note L = read_specD [OF get_result_law assms(1) q]
  show ?thesis
  proof (cases r)
    case (Inl e)
    with L q assms(2) show ?thesis by (auto simp: sqlx_get_result_def)
  next
    case (Inr o')
    show ?thesis
    proof (cases o')
      case None
      with L q assms(2) Inr show ?thesis
        by (auto simp: sqlx_get_result_def spec_result_def task_view_def)
    next
      case (Some d)
      with L Inr have d: "v_tasks (a_abs A s) i = Some d" by simp
      with assms(3) obtain x where x: "to_task_record d = Some x" by (auto simp: rows_ok_def)
      from d x have "task_view (v_tasks (a_abs A s)) i = Some (x, db_status d)" by (simp add: task_view_def)
      with L q assms(2) Inr Some x show ?thesis
        by (auto simp: sqlx_get_result_def spec_result_def db_status_def split: option.splits)
    qed
  qed
qed

lemma refine_lookup:
  assumes "a_inv A s" and "sqlx_lookup_tasks Q ids s = (out, s')" and "rows_ok (v_tasks (a_abs A s))"
  shows "unchanged A s s' \<and>
    (out = Some (Inr (map (\<lambda>i. map_option fst (task_view (v_tasks (a_abs A s)) i)) ids)) \<or> (\<exists>e. out = Some (Inl e)))"
proof (cases "ids = []")
  case True
  with assms show ?thesis by (auto simp: sqlx_lookup_tasks_def)
next
  case False
  obtain r s1 where q: "sq_lookup_tasks Q ids s = (r, s1)" by fastforce
  note L = read_specD [OF lookup_law assms(1) q]
  have conv: "those (map (\<lambda>opt. case opt of None \<Rightarrow> Some None | Some t \<Rightarrow> map_option Some (to_task_record t))
      (map m is)) = Some (map (\<lambda>i. map_option fst (task_view m i)) is)" if "rows_ok m" for m "is"
  proof (induction "is")
    case (Cons i "is")
    show ?case
    proof (cases "m i")
      case (Some d)
      with that obtain x where "to_task_record d = Some x" by (auto simp: rows_ok_def)
      with Some Cons show ?thesis by (simp add: task_view_def)
    qed (use Cons in \<open>simp add: task_view_def\<close>)
  qed simp
  from q assms(2) False L conv [OF assms(3)] show ?thesis
    by (cases r) (auto simp: sqlx_lookup_tasks_def)
qed

end

end
