(* ===== verification/Sqlx_Assign.thy ===== *)
theory Sqlx_Assign imports Sqlx_View begin

section \<open>Claiming tasks on the SQL backend\<close>

text \<open>
  \<open>assign_tasks\<close> of \<open>SqlxBackend\<close>: what one claim does, what interleaved claims of several workers
  can do, and the whole loop when other workers only hold row locks: it returns the earliest due
  tasks that are not locked, and it widens its scan until it has found them.
\<close>

definition stage_rows ::
  "string \<Rightarrow> f64 \<Rightarrow> string set \<Rightarrow> (string \<Rightarrow> db_task option) \<Rightarrow> (string \<Rightarrow> db_task option)" where
  "stage_rows w now I m = (\<lambda>i. if i \<in> I then map_option (set_assignment w now) (m i) else m i)"

definition claim_effect ::
  "string \<Rightarrow> string \<Rightarrow> f64 \<Rightarrow> (string \<Rightarrow> bool) \<Rightarrow> db_task option \<Rightarrow> sql_view \<Rightarrow> sql_view \<Rightarrow> bool" where
  "claim_effect w pk now l out v v' \<longleftrightarrow>
     (case (if l pk then None else v_tasks v pk) of
        Some d \<Rightarrow>
          if d_began d = None
          then out = Some (set_assignment w now d) \<and> v' = on_tasks (stage_rows w now {pk}) v
          else out = None \<and> v' = v
      | None \<Rightarrow> out = None \<and> v' = v)"

lemma stage_rows_empty [simp]: "stage_rows w now {} m = m"
  by (simp add: stage_rows_def)

lemma stage_rows_stage:
  "pk \<notin> I \<Longrightarrow> stage_rows w now {pk} (stage_rows w now I m) = stage_rows w now (insert pk I) m"
  by (auto simp: stage_rows_def fun_eq_iff)

lemma db_update_stage: "db_update i (set_assignment w now) m = stage_rows w now {i} m"
  by (auto simp: db_update_def stage_rows_def fun_eq_iff)

lemma rows_ok_stage: "rows_ok m \<Longrightarrow> rows_ok (stage_rows w now I m)"
  by (auto simp: rows_ok_def stage_rows_def)

text \<open>The rows that satisfy \<open>P\<close> with the least keys: what a batch is at every moment of the loop.\<close>

definition least_rows ::
  "(db_task \<Rightarrow> bool) \<Rightarrow> (db_task \<Rightarrow> f64) \<Rightarrow> (string \<Rightarrow> db_task option) \<Rightarrow> db_task list \<Rightarrow> bool" where
  "least_rows P ord m ds \<longleftrightarrow>
     distinct (map d_id ds) \<and> sorted (map ord ds) \<and> (\<forall>d\<in>set ds. m (d_id d) = Some d \<and> P d) \<and>
     (\<forall>i d. m i = Some d \<longrightarrow> P d \<longrightarrow> d \<notin> set ds \<longrightarrow> (\<forall>d'\<in>set ds. ord d' \<le> ord d))"

lemma least_rows_Nil [simp]: "least_rows P ord m []"
  by (simp add: least_rows_def)

lemma top_rows_least:
  "top_rows P ord n m ds \<longleftrightarrow>
     least_rows P ord m ds \<and> length ds \<le> n \<and>
     ((\<exists>i d. m i = Some d \<and> P d \<and> d \<notin> set ds) \<longrightarrow> length ds = n)"
  by (auto simp: top_rows_def least_rows_def)

lemma least_rows_append:
  assumes ds: "least_rows P ord m ds" and es: "sorted (map ord es)" "distinct (map d_id es)"
    and new: "\<And>e. e \<in> set es \<Longrightarrow> m (d_id e) = Some e \<and> P e \<and> e \<notin> set ds"
    and rest: "\<And>i d e. m i = Some d \<Longrightarrow> P d \<Longrightarrow> d \<notin> set ds \<Longrightarrow> d \<notin> set es \<Longrightarrow> e \<in> set es \<Longrightarrow> ord e \<le> ord d"
  shows "least_rows P ord m (ds @ es)"
  unfolding least_rows_def
proof (intro conjI)
  have below: "ord d \<le> ord e" if "d \<in> set ds" "e \<in> set es" for d e
    using ds new [OF that(2)] that(1) by (auto simp: least_rows_def)
  then show "sorted (map ord (ds @ es))" using ds es(1) by (auto simp: least_rows_def sorted_append)
  have "d_id d \<noteq> d_id e" if "d \<in> set ds" "e \<in> set es" for d e
  proof
    assume "d_id d = d_id e"
    moreover have "m (d_id d) = Some d" using ds that(1) by (simp add: least_rows_def)
    moreover have "m (d_id e) = Some e" "e \<notin> set ds" using new [OF that(2)] by simp_all
    ultimately have "Some d = Some e" by (metis (no_types))
    then show False using that(1) \<open>e \<notin> set ds\<close> by simp
  qed
  then show "distinct (map d_id (ds @ es))" using ds es(2) by (auto simp: least_rows_def)
  show "\<forall>d\<in>set (ds @ es). m (d_id d) = Some d \<and> P d" using ds new by (auto simp: least_rows_def)
  show "\<forall>i d. m i = Some d \<longrightarrow> P d \<longrightarrow> d \<notin> set (ds @ es) \<longrightarrow> (\<forall>d'\<in>set (ds @ es). ord d' \<le> ord d)"
    using ds rest by (auto simp: least_rows_def)
qed

text \<open>The records of a batch.\<close>

abbreviation records_of :: "db_task list \<Rightarrow> task_record list" where
  "records_of ds \<equiv> map (\<lambda>d. the (to_task_record d)) ds"

context sql_backend begin

lemma claim_one_law: "write_spec A (claim_one Q w pk now) (claim_effect w pk now)"
proof -
  let ?f = "\<lambda>opt. case opt of
      Some db \<Rightarrow> if d_began db = None
        then tx_bind (sq_update_task_assignment Q pk w now)
          (\<lambda>_. tx_return (Some (db\<lparr>d_assignee_worker_id := Some w, d_began := Some now\<rparr>)))
        else tx_return None
    | None \<Rightarrow> tx_return None"
  let ?eff = "\<lambda>opt (l :: string \<Rightarrow> bool) out v v'.
      case opt of
        Some d \<Rightarrow> if d_began d = None
          then out = Some (set_assignment w now d) \<and> v' = on_tasks (stage_rows w now {pk}) v
          else out = None \<and> v' = v
      | None \<Rightarrow> out = None \<and> v' = v"
  have f: "tx_spec A (?f opt) (?eff opt)" for opt
  proof (cases opt)
    case None
    then show ?thesis by (simp add: tx_spec_return)
  next
    case (Some d)
    note U = tx_spec_bind [OF update_assignment_law [of pk w now] tx_spec_return [of A "Some (set_assignment w now d)"]]
    show ?thesis
    proof (cases "d_began d = None")
      case True
      then show ?thesis unfolding Some
        by (simp add: set_assignment_def [symmetric])
          (rule tx_spec_mono [OF U], simp add: db_update_stage [abs_def])
    next
      case False
      show ?thesis unfolding Some option.case if_not_P [OF False] by (rule tx_spec_return)
    qed
  qed
  have "tx_spec A (tx_bind (sq_fetch_task_for_assign Q pk) ?f) (claim_effect w pk now)"
    by (rule tx_spec_mono [OF tx_spec_bind [OF fetch_for_assign_law f]])
      (auto simp: claim_effect_def split: option.splits if_splits)
  then show ?thesis unfolding claim_one_def by (rule transaction_law)
qed

lemma claim_oneD:
  assumes "a_inv A s" and "claim_one Q w pk now s = (res, s')"
  shows "a_inv A s' \<and> a_locked A s' = a_locked A s \<and>
    (case res of
       Inr out \<Rightarrow> claim_effect w pk now (a_locked A s) out (a_abs A s) (a_abs A s')
     | Inl e \<Rightarrow> a_abs A s' = a_abs A s \<or> (\<exists>out. claim_effect w pk now (a_locked A s) out (a_abs A s) (a_abs A s')))"
  using claim_one_law assms unfolding write_spec_def by blast

text \<open>
  A pass over candidates \<open>W\<close>, rows of the table \<open>m\<close> the batch \<open>ds\<close> was claimed from: it claims the
  unlocked ones in order until the batch is full or a statement fails.
\<close>

definition pass_result where
  "pass_result s0 s w now limit ds free res s' \<longleftrightarrow>
     a_inv A s' \<and> a_locked A s' = a_locked A s \<and>
     (\<exists>F1 F2. free = F1 @ F2 \<and> length (ds @ F1) \<le> limit \<and>
        a_abs A s' = on_tasks (stage_rows w now (d_id ` set (ds @ F1))) (a_abs A s0) \<and>
        (case res of
           None \<Rightarrow> False
         | Some (Inl e) \<Rightarrow> True
         | Some (Inr (full, rs)) \<Rightarrow> rs = records_of (ds @ F1) \<and>
             (if full then length rs = limit else F2 = [] \<and> length rs < limit)))"

lemma on_tasks_twice: "on_tasks f (on_tasks g v) = on_tasks (\<lambda>m. f (g m)) v"
  by (cases v) simp

lemma pass_result_first:
  assumes "pass_result s0 s1 w now limit (ds @ [d]) W res s'" and l: "a_locked A s1 = a_locked A s"
  shows "pass_result s0 s w now limit ds (d # W) res s'"
proof -
  from assms obtain F1 F2 where F: "W = F1 @ F2" "length ((ds @ [d]) @ F1) \<le> limit"
    and s': "a_inv A s'" "a_locked A s' = a_locked A s"
      "a_abs A s' = on_tasks (stage_rows w now (d_id ` set ((ds @ [d]) @ F1))) (a_abs A s0)"
    and res: "case res of None \<Rightarrow> False | Some (Inl e) \<Rightarrow> True
      | Some (Inr (full, rs)) \<Rightarrow> rs = records_of ((ds @ [d]) @ F1) \<and>
         (if full then length rs = limit else F2 = [] \<and> length rs < limit)"
    unfolding pass_result_def l by blast
  have app: "(ds @ [d]) @ F1 = ds @ (d # F1)" by simp
  show ?thesis unfolding pass_result_def
    by (intro conjI exI [of _ "d # F1"] exI [of _ F2]) (use F s' res in \<open>simp_all only: app, simp_all\<close>)
qed

lemma pass_result_error:
  assumes "a_inv A s'" and "a_locked A s' = a_locked A s" and "length (ds @ F1) \<le> limit"
    and "a_abs A s' = on_tasks (stage_rows w now (d_id ` set (ds @ F1))) (a_abs A s0)"
  shows "pass_result s0 s w now limit ds (F1 @ F2) (Some (Inl e)) s'"
  unfolding pass_result_def using assms by (intro conjI exI [of _ F1] exI [of _ F2]) simp_all

text \<open>One claim: nothing happens to a locked row; a free one is staged, unless the statement fails.\<close>

lemma claim_locked:
  assumes "a_inv A s" and "claim_one Q w pk now s = (r, s')" and "a_locked A s pk"
  shows "a_abs A s' = a_abs A s \<and> (r = Inr None \<or> (\<exists>e. r = Inl e))"
  using claim_oneD [OF assms(1,2)] assms(3) by (auto simp: claim_effect_def split: sum.splits)

lemma claim_free:
  assumes "a_inv A s" and "claim_one Q w pk now s = (r, s')" and "\<not> a_locked A s pk"
    and "v_tasks (a_abs A s) pk = Some d" and "d_began d = None"
  shows "case r of
      Inr out \<Rightarrow> out = Some (set_assignment w now d) \<and> a_abs A s' = on_tasks (stage_rows w now {pk}) (a_abs A s)
    | Inl e \<Rightarrow> a_abs A s' = a_abs A s \<or> a_abs A s' = on_tasks (stage_rows w now {pk}) (a_abs A s)"
  using claim_oneD [OF assms(1,2)] assms(3-) by (auto simp: claim_effect_def split: sum.splits)

text \<open>The state in which a pass goes on with the candidates \<open>W\<close>, the batch being \<open>ds\<close>.\<close>

definition passing where
  "passing s0 w now limit s ds W \<longleftrightarrow>
     a_inv A s \<and> a_abs A s = on_tasks (stage_rows w now (d_id ` set ds)) (a_abs A s0) \<and>
     length ds < limit \<and> distinct (map d_id (ds @ W)) \<and>
     (\<forall>d\<in>set W. v_tasks (a_abs A s0) (d_id d) = Some d \<and> d_began d = None)"

lemma passing_head:
  assumes "passing s0 w now limit s ds (d # W)"
  shows "v_tasks (a_abs A s) (d_id d) = Some d" and "d_began d = None"
    and "a_abs A s' = on_tasks (stage_rows w now {d_id d}) (a_abs A s) \<Longrightarrow>
      a_abs A s' = on_tasks (stage_rows w now (d_id ` set (ds @ [d]))) (a_abs A s0)"
proof -
  from assms have nin: "d_id d \<notin> d_id ` set ds" by (auto simp: passing_def)
  with assms show "v_tasks (a_abs A s) (d_id d) = Some d" and "d_began d = None"
    by (simp_all add: passing_def stage_rows_def)
  show "a_abs A s' = on_tasks (stage_rows w now {d_id d}) (a_abs A s) \<Longrightarrow>
      a_abs A s' = on_tasks (stage_rows w now (d_id ` set (ds @ [d]))) (a_abs A s0)"
    using assms nin by (simp add: passing_def on_tasks_twice stage_rows_stage [OF nin])
qed

lemma pass_failed:
  assumes P: "passing s0 w now limit s ds (d # W)" and c: "claim_one Q w (d_id d) now s = (Inl e, s1)"
  shows "pass_result s0 s w now limit ds (filter (\<lambda>d. \<not> a_locked A s (d_id d)) (d # W)) (Some (Inl e)) s1"
proof -
  let ?free = "\<lambda>W. filter (\<lambda>d. \<not> a_locked A s (d_id d)) W"
  from P have s: "a_inv A s" "a_abs A s = on_tasks (stage_rows w now (d_id ` set ds)) (a_abs A s0)" "length ds < limit"
    by (simp_all add: passing_def)
  from claim_oneD [OF s(1) c] have s1: "a_inv A s1" "a_locked A s1 = a_locked A s" by auto
  show ?thesis
  proof (cases "a_abs A s1 = a_abs A s")
    case True
    with s s1 pass_result_error [of s1 s ds "[]" limit w now s0 "?free (d # W)" e] show ?thesis by simp
  next
    case False
    with claim_locked [OF s(1) c] have free: "\<not> a_locked A s (d_id d)" by blast
    with claim_free [OF s(1) c _ passing_head(1,2) [OF P]] False passing_head(3) [OF P, of s1]
    have "a_abs A s1 = on_tasks (stage_rows w now (d_id ` set (ds @ [d]))) (a_abs A s0)" by simp
    with s s1 free pass_result_error [of s1 s ds "[d]" limit w now s0 "?free W" e] show ?thesis by simp
  qed
qed

lemma claim_candidates_pass:
  assumes ok: "rows_ok (v_tasks (a_abs A s0))" and "passing s0 w now limit s ds W"
    and "claim_candidates Q w limit (\<lambda>_. now) (\<lambda>_ s. s) k (map d_id W) (records_of ds) s = (res, k', s')"
  shows "pass_result s0 s w now limit ds (filter (\<lambda>d. \<not> a_locked A s (d_id d)) W) res s'"
  using assms(2-)
proof (induction W arbitrary: ds k s)
  case Nil
  then show ?case by (auto simp: pass_result_def passing_def)
next
  case (Cons d W)
  obtain r1 s1 where c: "claim_one Q w (d_id d) now s = (r1, s1)" by fastforce
  from Cons.prems(1) have i: "a_inv A s" by (simp add: passing_def)
  from claim_oneD [OF i c] have s1: "a_inv A s1" and l1: "a_locked A s1 = a_locked A s" by auto
  from Cons.prems(1) have "v_tasks (a_abs A s0) (d_id d) = Some d" by (simp add: passing_def)
  with ok obtain r where r: "to_task_record d = Some r" by (force simp: rows_ok_def)
  note head = passing_head [OF Cons.prems(1)]
  consider (failed) e where "r1 = Inl e" | (locked) "a_locked A s (d_id d)" "r1 = Inr None"
    | (claimed) "\<not> a_locked A s (d_id d)" "r1 = Inr (Some (set_assignment w now d))"
        "a_abs A s1 = on_tasks (stage_rows w now {d_id d}) (a_abs A s)"
    using claim_locked [OF i c] claim_free [OF i c _ head(1,2)] by (cases r1) auto
  then show ?case
  proof cases
    case failed
    with Cons.prems(2) c have "res = Some (Inl e)" and "s' = s1" by simp_all
    with pass_failed [OF Cons.prems(1) c [unfolded failed]] show ?thesis by simp
  next
    case locked
    with claim_locked [OF i c] Cons.prems(1) s1 have "passing s0 w now limit s1 ds W" by (simp add: passing_def)
    from Cons.IH [OF this] Cons.prems(2) c locked l1 show ?thesis by (simp add: pass_result_def)
  next
    case claimed
    note v = head(3) [OF claimed(3)]
    show ?thesis
    proof (cases "length (ds @ [d]) = limit")
      case True
      with Cons.prems(2) c claimed(2) r have "res = Some (Inr (True, records_of (ds @ [d])))" and "s' = s1"
        by simp_all
      with v s1 l1 True claimed(1) show ?thesis unfolding pass_result_def
        by (intro conjI exI [of _ "[d]"] exI [of _ "filter (\<lambda>d. \<not> a_locked A s (d_id d)) W"]) simp_all
    next
      case False
      with Cons.prems(1) s1 v have "passing s0 w now limit s1 (ds @ [d]) W" by (simp add: passing_def)
      with Cons.IH [OF this] Cons.prems(2) c claimed(2) r False
      have "pass_result s0 s1 w now limit (ds @ [d]) (filter (\<lambda>d. \<not> a_locked A s1 (d_id d)) W) res s'" by simp
      from pass_result_first [OF this l1] l1 claimed(1) show ?thesis by simp
    qed
  qed
qed

subsection \<open>The whole loop\<close>

definition assign_result where
  "assign_result s0 grp w now limit out s' \<longleftrightarrow>
     a_inv A s' \<and> a_locked A s' = a_locked A s0 \<and>
     (\<exists>ds. a_abs A s' = on_tasks (stage_rows w now (d_id ` set ds)) (a_abs A s0) \<and>
        (case out of
           None \<Rightarrow> False
         | Some (Inl e) \<Rightarrow> length ds \<le> limit \<and>
             least_rows (\<lambda>d. is_due grp now d \<and> \<not> a_locked A s0 (d_id d)) d_due (v_tasks (a_abs A s0)) ds
         | Some (Inr rs) \<Rightarrow> rs = records_of ds \<and>
             top_rows (\<lambda>d. is_due grp now d \<and> \<not> a_locked A s0 (d_id d)) d_due limit (v_tasks (a_abs A s0)) ds))"

text \<open>The candidates of a pass, seen from the table the call began with.\<close>

lemma scan_from_start:
  assumes ok: "rows_ok m" and ds: "least_rows (\<lambda>d. is_due grp now d \<and> \<not> l (d_id d)) d_due m ds"
    and W: "top_rows (is_due grp now) d_due scan (stage_rows w now (d_id ` set ds) m) W"
  shows "\<forall>d\<in>set W. m (d_id d) = Some d \<and> is_due grp now d"
    and "distinct (map d_id (ds @ W))"
    and "\<And>i d. m i = Some d \<Longrightarrow> is_due grp now d \<Longrightarrow> d \<notin> set ds \<Longrightarrow> d \<notin> set W \<Longrightarrow>
      length W = scan \<and> (\<forall>e\<in>set W. d_due e \<le> d_due d)"
proof -
  have new: "d_id d \<notin> d_id ` set ds" if "d \<in> set W" for d
    using top_rows_in [OF W that] by (auto simp: stage_rows_def is_due_def split: if_splits)
  then show W0: "\<forall>d\<in>set W. m (d_id d) = Some d \<and> is_due grp now d"
    using top_rows_in [OF W] by (auto simp: stage_rows_def)
  have "\<forall>i\<in>d_id ` set W. i \<notin> d_id ` set ds" using new by (simp only: ball_simps) blast
  then have "d_id ` set ds \<inter> d_id ` set W = {}" by blast
  then show "distinct (map d_id (ds @ W))"
    using ds top_rows_distinct [OF W] by (simp add: least_rows_def)
  fix i d assume d: "m i = Some d" "is_due grp now d" "d \<notin> set ds" "d \<notin> set W"
  have "i \<notin> d_id ` set ds"
  proof
    assume "i \<in> d_id ` set ds"
    then obtain e where e: "e \<in> set ds" "i = d_id e" by blast
    with ds have "m i = Some e" by (simp add: least_rows_def)
    with d(1,3) e(1) show False by simp
  qed
  with d(1) have "stage_rows w now (d_id ` set ds) m i = Some d" by (simp add: stage_rows_def)
  with W d show "length W = scan \<and> (\<forall>e\<in>set W. d_due e \<le> d_due d)" unfolding top_rows_def by blast
qed

lemma least_rows_pass:
  assumes ok: "rows_ok m" and ds: "least_rows (\<lambda>d. is_due grp now d \<and> \<not> l (d_id d)) d_due m ds"
    and W: "top_rows (is_due grp now) d_due scan (stage_rows w now (d_id ` set ds) m) W"
    and F: "filter (\<lambda>d. \<not> l (d_id d)) W = F1 @ F2"
  shows "least_rows (\<lambda>d. is_due grp now d \<and> \<not> l (d_id d)) d_due m (ds @ F1)"
proof (rule least_rows_append [OF ds])
  note S = scan_from_start [OF ok ds W]
  have sW: "sorted (map d_due (F1 @ F2))" and dW: "distinct (map d_id (F1 @ F2))"
    using W unfolding F [symmetric] top_rows_def by (auto intro: sorted_filter distinct_map_filter)
  show "sorted (map d_due F1)" using sW by (simp add: sorted_append)
  show "distinct (map d_id F1)" using dW by simp
  have mem: "e \<in> set W \<and> \<not> l (d_id e)" if "e \<in> set (F1 @ F2)" for e
    using that unfolding F [symmetric] by simp
  show "m (d_id e) = Some e \<and> (is_due grp now e \<and> \<not> l (d_id e)) \<and> e \<notin> set ds" if "e \<in> set F1" for e
  proof -
    have "e \<in> set W" and "\<not> l (d_id e)" using mem [of e] that by simp_all
    moreover from this S(2) have "e \<notin> set ds" by auto
    ultimately show ?thesis using S(1) by blast
  qed
  fix i d e assume d: "m i = Some d" "is_due grp now d \<and> \<not> l (d_id d)" "d \<notin> set ds" "d \<notin> set F1"
    and e: "e \<in> set F1"
  show "d_due e \<le> d_due d"
  proof (cases "d \<in> set W")
    case True
    with d(2) have "d \<in> set (F1 @ F2)" unfolding F [symmetric] by simp
    with d(4) have "d \<in> set F2" by simp
    with sW e show ?thesis by (auto simp: sorted_append)
  next
    case False
    have "e \<in> set W" using mem [of e] e by simp
    with S(3) [OF d(1) _ d(3) False] d(2) show ?thesis by blast
  qed
qed

definition assign_inv where
  "assign_inv s0 grp w now limit s ds \<longleftrightarrow>
     a_inv A s \<and> a_locked A s = a_locked A s0 \<and>
     a_abs A s = on_tasks (stage_rows w now (d_id ` set ds)) (a_abs A s0) \<and>
     least_rows (\<lambda>d. is_due grp now d \<and> \<not> a_locked A s0 (d_id d)) d_due (v_tasks (a_abs A s0)) ds \<and>
     length ds < limit"

text \<open>What a pass that was not cut short means: the batch is complete, or the scan fell short.\<close>

lemma assign_result_batch:
  assumes "a_inv A s'" and "a_locked A s' = a_locked A s0"
    and "a_abs A s' = on_tasks (stage_rows w now (d_id ` set ds)) (a_abs A s0)"
  shows "least_rows (\<lambda>d. is_due grp now d \<and> \<not> a_locked A s0 (d_id d)) d_due (v_tasks (a_abs A s0)) ds \<Longrightarrow>
      length ds \<le> limit \<Longrightarrow> assign_result s0 grp w now limit (Some (Inl e)) s'"
    and "top_rows (\<lambda>d. is_due grp now d \<and> \<not> a_locked A s0 (d_id d)) d_due limit (v_tasks (a_abs A s0)) ds \<Longrightarrow>
      assign_result s0 grp w now limit (Some (Inr (records_of ds))) s'"
  unfolding assign_result_def using assms by - (intro conjI exI [of _ ds]; simp)+

lemma scan_bounded:
  assumes "finite (dom m)" and "d_id ` set W \<subseteq> dom m" and "distinct (map d_id W)" and "\<not> length W < scan"
  shows "scan \<le> card (dom m)"
proof -
  have "card (d_id ` set W) = length W" using assms(3) by (metis distinct_card length_map set_map)
  with card_mono [OF assms(1,2)] assms(4) show ?thesis by simp
qed

text \<open>The batch \<open>ds\<close> after a pass over \<open>W\<close> that ended with \<open>r\<close>.\<close>

definition pass_batch where
  "pass_batch s0 grp w now limit W r s ds \<longleftrightarrow>
     a_inv A s \<and> a_locked A s = a_locked A s0 \<and>
     a_abs A s = on_tasks (stage_rows w now (d_id ` set ds)) (a_abs A s0) \<and>
     least_rows (\<lambda>d. is_due grp now d \<and> \<not> a_locked A s0 (d_id d)) d_due (v_tasks (a_abs A s0)) ds \<and>
     length ds \<le> limit \<and>
     ((\<exists>e. r = Some (Inl e)) \<or>
      r = Some (Inr (True, records_of ds)) \<and> length ds = limit \<or>
      r = Some (Inr (False, records_of ds)) \<and> length ds < limit \<and>
        (\<forall>d\<in>set W. \<not> a_locked A s0 (d_id d) \<longrightarrow> d \<in> set ds))"

lemma pass_extends:
  assumes ok: "rows_ok (v_tasks (a_abs A s0))" and I: "assign_inv s0 grp w now limit s1 ds"
    and W: "top_rows (is_due grp now) d_due scan (stage_rows w now (d_id ` set ds) (v_tasks (a_abs A s0))) W"
    and c: "claim_candidates Q w limit (\<lambda>_. now) (\<lambda>_ s. s) k (map d_id W) (records_of ds) s1 = (r, k', s2)"
  obtains ds' where "pass_batch s0 grp w now limit W r s2 ds'" and "set ds \<subseteq> set ds'"
proof -
  let ?l = "a_locked A s0"
  from I have l: "a_locked A s1 = ?l"
    and ds: "least_rows (\<lambda>d. is_due grp now d \<and> \<not> ?l (d_id d)) d_due (v_tasks (a_abs A s0)) ds"
    by (simp_all add: assign_inv_def)
  note S = scan_from_start [OF ok ds W]
  have "passing s0 w now limit s1 ds W"
    using I S(1,2) by (auto simp: passing_def assign_inv_def is_due_def)
  from claim_candidates_pass [OF ok this c]
  obtain F1 F2 where F: "filter (\<lambda>d. \<not> ?l (d_id d)) W = F1 @ F2"
    and s2: "a_inv A s2" "a_locked A s2 = ?l"
      "a_abs A s2 = on_tasks (stage_rows w now (d_id ` set (ds @ F1))) (a_abs A s0)"
    and len: "length (ds @ F1) \<le> limit"
    and r: "case r of None \<Rightarrow> False | Some (Inl e) \<Rightarrow> True
       | Some (Inr (full, rs)) \<Rightarrow> rs = records_of (ds @ F1) \<and>
           (if full then length rs = limit else F2 = [] \<and> length rs < limit)"
    unfolding pass_result_def l by blast
  have all: "\<forall>d\<in>set W. \<not> ?l (d_id d) \<longrightarrow> d \<in> set (ds @ F1)" if "F2 = []"
  proof (intro ballI impI)
    fix d assume "d \<in> set W" "\<not> ?l (d_id d)"
    then have "d \<in> set (filter (\<lambda>d. \<not> ?l (d_id d)) W)" by simp
    then show "d \<in> set (ds @ F1)" unfolding F that by simp
  qed
  have "(\<exists>e. r = Some (Inl e)) \<or>
      r = Some (Inr (True, records_of (ds @ F1))) \<and> length (ds @ F1) = limit \<or>
      r = Some (Inr (False, records_of (ds @ F1))) \<and> length (ds @ F1) < limit \<and> F2 = []"
    using r by (auto split: option.splits sum.splits prod.splits if_splits)
  with least_rows_pass [OF ok ds W F] s2 len all have "pass_batch s0 grp w now limit W r s2 (ds @ F1)"
    unfolding pass_batch_def by blast
  then show thesis by (rule that) simp
qed

text \<open>One iteration either ends the call or finds as many due tasks as it asked for.\<close>

lemma scan_exhausted:
  assumes ok: "rows_ok (v_tasks (a_abs A s0))" and I: "assign_inv s0 grp w now limit s ds"
    and W: "top_rows (is_due grp now) d_due scan (stage_rows w now (d_id ` set ds) (v_tasks (a_abs A s0))) W"
    and B: "pass_batch s0 grp w now limit W (Some (Inr (False, rs))) s2 ds'" and short: "length W < scan"
    and sub: "set ds \<subseteq> set ds'"
  shows "assign_result s0 grp w now limit (Some (Inr (records_of ds'))) s2"
proof -
  let ?m = "v_tasks (a_abs A s0)" and ?l = "a_locked A s0"
  have ds: "least_rows (\<lambda>d. is_due grp now d \<and> \<not> ?l (d_id d)) d_due ?m ds"
    using I by (simp add: assign_inv_def)
  have "d \<in> set ds'" if "?m i = Some d" "is_due grp now d \<and> \<not> ?l (d_id d)" for i d
  proof (cases "d \<in> set ds")
    case False
    with scan_from_start(3) [OF ok ds W that(1) _ False] that(2) short have "d \<in> set W" by blast
    with B that(2) show ?thesis by (simp add: pass_batch_def)
  qed (use sub in blast)
  with B have "top_rows (\<lambda>d. is_due grp now d \<and> \<not> ?l (d_id d)) d_due limit ?m ds'"
    unfolding top_rows_least pass_batch_def by blast
  with assign_result_batch(2) [of s2 s0 w now ds'] B show ?thesis by (simp add: pass_batch_def)
qed

lemma assign_iteration:
  assumes ok: "rows_ok (v_tasks (a_abs A s0))" and fin: "finite (dom (v_tasks (a_abs A s0)))"
    and I: "assign_inv s0 grp w now limit s ds" and scan: "scan < cap"
  defines "loop \<equiv> \<lambda>f. assign_loop f Q grp w limit (\<lambda>_. now) (\<lambda>_ s. s)"
  shows "(\<exists>out s'. loop (Suc f) scan k (records_of ds) s = Some (out, s') \<and> assign_result s0 grp w now limit out s') \<or>
    (\<exists>ds' k' s'. loop (Suc f) scan k (records_of ds) s = loop f (scan * 2) k' (records_of ds') s' \<and>
       assign_inv s0 grp w now limit s' ds' \<and> scan \<le> card (dom (v_tasks (a_abs A s0))))"
proof -
  let ?m = "v_tasks (a_abs A s0)"
  from I have s: "a_inv A s" and abs: "a_abs A s = on_tasks (stage_rows w now (d_id ` set ds)) (a_abs A s0)"
    and ds: "least_rows (\<lambda>d. is_due grp now d \<and> \<not> a_locked A s0 (d_id d)) d_due ?m ds"
    by (simp_all add: assign_inv_def)
  obtain r1 s1 where q: "sq_list_due_task_ids Q grp now scan s = (r1, s1)" by fastforce
  note R = read_specD [OF list_due_law [OF scan] s q]
  then have I1: "assign_inv s0 grp w now limit s1 ds" using I by (simp add: assign_inv_def unchanged_def)
  show ?thesis
  proof (cases r1)
    case (Inl e)
    with q have "loop (Suc f) scan k (records_of ds) s = Some (Some (Inl e), s1)" by (simp add: loop_def)
    moreover have "assign_result s0 grp w now limit (Some (Inl e)) s1"
      using assign_result_batch(1) [of s1 s0 w now ds grp limit e] I1 by (simp add: assign_inv_def)
    ultimately show ?thesis by blast
  next
    case (Inr pks)
    with R abs obtain W where pks: "pks = map d_id W"
      and W: "top_rows (is_due grp now) d_due scan (stage_rows w now (d_id ` set ds) ?m) W" by auto
    obtain r2 k2 s2 where c: "claim_candidates Q w limit (\<lambda>_. now) (\<lambda>_ s. s) (Suc k) (map d_id W) (records_of ds) s1 = (r2, k2, s2)"
      by (cases "claim_candidates Q w limit (\<lambda>_. now) (\<lambda>_ s. s) (Suc k) (map d_id W) (records_of ds) s1")
    obtain ds' where B: "pass_batch s0 grp w now limit W r2 s2 ds'" and sub: "set ds \<subseteq> set ds'"
      using pass_extends [OF ok I1 W c] by blast
    note step = q Inr pks c
    from B consider (err) e where "r2 = Some (Inl e)" | (full) "r2 = Some (Inr (True, records_of ds'))" "length ds' = limit"
      | (more) "r2 = Some (Inr (False, records_of ds'))" "length ds' < limit" by (auto simp: pass_batch_def)
    then show ?thesis
    proof cases
      case err
      with step have "loop (Suc f) scan k (records_of ds) s = Some (Some (Inl e), s2)" by (simp add: loop_def)
      with assign_result_batch(1) [of s2 s0 w now ds' grp limit e] B show ?thesis by (auto simp: pass_batch_def)
    next
      case full
      with step have "loop (Suc f) scan k (records_of ds) s = Some (Some (Inr (records_of ds')), s2)"
        by (simp add: loop_def)
      with assign_result_batch(2) [of s2 s0 w now ds'] B full(2) show ?thesis
        by (auto simp: pass_batch_def top_rows_least)
    next
      case more
      show ?thesis
      proof (cases "length W < scan")
        case True
        with step more(1) have "loop (Suc f) scan k (records_of ds) s = Some (Some (Inr (records_of ds')), s2)"
          by (simp add: loop_def)
        with scan_exhausted [OF ok I W B [unfolded more(1)] True sub] show ?thesis by blast
      next
        case False
        with step more(1) have "loop (Suc f) scan k (records_of ds) s = loop f (scan * 2) k2 (records_of ds') s2"
          by (simp add: loop_def)
        moreover have "assign_inv s0 grp w now limit s2 ds'" using B more(2) by (simp add: assign_inv_def pass_batch_def)
        moreover have "scan \<le> card (dom ?m)"
          by (rule scan_bounded [OF fin _ conjunct2 [OF top_rows_distinct [OF W]] False])
            (use scan_from_start(1) [OF ok ds W] in blast)
        ultimately show ?thesis by blast
      qed
    qed
  qed
qed

lemma assign_loop_law:
  assumes ok: "rows_ok (v_tasks (a_abs A s0))" and fin: "finite (dom (v_tasks (a_abs A s0)))"
    and N: "2 * card (dom (v_tasks (a_abs A s0))) < cap"
    and "assign_inv s0 grp w now limit s ds" and "scan < cap"
    and "card (dom (v_tasks (a_abs A s0))) < scan * 2 ^ fuel"
  shows "\<exists>out s'. assign_loop (Suc fuel) Q grp w limit (\<lambda>_. now) (\<lambda>_ s. s) scan k (records_of ds) s = Some (out, s') \<and>
    assign_result s0 grp w now limit out s'"
  using assms(4-)
proof (induction fuel arbitrary: s ds scan k)
  case 0
  from assign_iteration [OF ok fin 0(1,2), of 0 k] 0(3) show ?case by auto
next
  case (Suc fuel)
  from assign_iteration [OF ok fin Suc.prems(1,2), of "Suc fuel" k] show ?case
  proof (elim disjE exE conjE)
    fix ds' k' s'
    assume eq: "assign_loop (Suc (Suc fuel)) Q grp w limit (\<lambda>_. now) (\<lambda>_ s. s) scan k (records_of ds) s =
        assign_loop (Suc fuel) Q grp w limit (\<lambda>_. now) (\<lambda>_ s. s) (scan * 2) k' (records_of ds') s'"
      and I: "assign_inv s0 grp w now limit s' ds'" and le: "scan \<le> card (dom (v_tasks (a_abs A s0)))"
    from le N have "scan * 2 < cap" by simp
    moreover have "card (dom (v_tasks (a_abs A s0))) < scan * 2 * 2 ^ fuel"
      using Suc.prems(3) by (simp add: mult.assoc)
    ultimately show ?thesis unfolding eq using Suc.IH [OF I] by blast
  qed blast
qed

text \<open>
  \<open>assign_tasks\<close> with \<open>fuel\<close> for all its passes: it returns, and what it returns is a batch of the
  earliest due tasks that no other worker has locked.
\<close>

lemma assign_law:
  assumes "a_inv A s" and "rows_ok (v_tasks (a_abs A s))" and "finite (dom (v_tasks (a_abs A s)))"
    and "2 * card (dom (v_tasks (a_abs A s))) < cap" and "limit < cap" and "8 < cap"
    and "card (dom (v_tasks (a_abs A s))) < 8 * 2 ^ fuel"
  shows "\<exists>out s'. sqlx_assign_tasks (Suc fuel) Q (\<lambda>_. now) (\<lambda>_ s. s) grp w limit s = Some (out, s') \<and>
    assign_result s grp w now limit out s'"
proof (cases "limit = 0")
  case True
  have "on_tasks (stage_rows w now (d_id ` set [])) (a_abs A s) = a_abs A s" by (rule on_tasks_same) simp
  then have "assign_result s grp w now 0 (Some (Inr [])) s"
    unfolding assign_result_def using assms(1) by (intro conjI exI [of _ "[]"]) (simp_all add: top_rows_def)
  with True show ?thesis by (simp add: sqlx_assign_tasks_def)
next
  case False
  have "on_tasks (stage_rows w now (d_id ` set [])) (a_abs A s) = a_abs A s" by (rule on_tasks_same) simp
  then have "assign_inv s grp w now limit s []"
    using False assms(1) by (simp add: assign_inv_def)
  moreover have "max limit 8 < cap" using assms(5,6) by simp
  moreover have "8 * 2 ^ fuel \<le> max limit 8 * 2 ^ fuel" by (intro mult_right_mono) simp_all
  then have "card (dom (v_tasks (a_abs A s))) < max limit 8 * 2 ^ fuel" using assms(7) by (rule less_le_trans [rotated])
  ultimately show ?thesis
    using assign_loop_law [OF assms(2-4), of grp w now limit s "[]" "max limit 8" fuel 0] False
    by (simp add: sqlx_assign_tasks_def)
qed

end

end
