(* ===== verification/Sqlx_Steps.thy ===== *)
theory Sqlx_Steps imports Sqlx_Assign begin

section \<open>Interleaved steps of several processes, and the event stream\<close>

subsection \<open>Claims of several workers\<close>

text \<open>
  What the processes of a cluster do to the task table while workers claim: each step is one
  transaction.  \<open>run_sql_steps\<close> runs a sequence of them and collects the ids that were handed out.
\<close>

datatype sql_step =
    ClaimStep worker_id task_id timestamp
  | SubmitStep "task_record list"
  | ScheduleStep scheduler_name bytes "task_record list"
  | SucceedStep timestamp task_record bytes
  | FailStep timestamp task_record bytes

fun run_sql_step :: "('s, 't, 'l) sql_queries \<Rightarrow> sql_step \<Rightarrow> 's \<Rightarrow> task_id list \<times> 's" where
  "run_sql_step Q (ClaimStep w pk now) s =
     (case claim_one Q w pk now s of (Inr (Some d), s) \<Rightarrow> ([pk], s) | (_, s) \<Rightarrow> ([], s))"
| "run_sql_step Q (SubmitStep rs) s = ([], snd (sqlx_put_tasks Q rs s))"
| "run_sql_step Q (ScheduleStep n d rs) s = ([], snd (sqlx_persist_scheduler_state_and_put_tasks Q n d rs s))"
| "run_sql_step Q (SucceedStep now r b) s = ([], snd (sqlx_succeed Q now r b s))"
| "run_sql_step Q (FailStep now r b) s = ([], snd (sqlx_fail Q now r b s))"

fun run_sql_steps :: "('s, 't, 'l) sql_queries \<Rightarrow> sql_step list \<Rightarrow> 's \<Rightarrow> task_id list \<times> 's" where
  "run_sql_steps Q [] s = ([], s)"
| "run_sql_steps Q (st # sts) s =
     (case run_sql_step Q st s of (ids, s) \<Rightarrow>
        (case run_sql_steps Q sts s of (ids', s) \<Rightarrow> (ids @ ids', s)))"

definition begun :: "(string \<Rightarrow> db_task option) \<Rightarrow> string set" where
  "begun m = {i. \<exists>d. m i = Some d \<and> d_began d \<noteq> None}"

lemma begun_put_all: "begun m \<subseteq> begun (db_put_all ds m)"
  by (auto simp: begun_def dest: db_put_all_keeps)

lemma begun_finish: "begun m \<subseteq> begun (db_update i (\<lambda>d. set_done (B d) now r msg dt d) m)"
  by (auto simp: begun_def db_update_def)

lemma begun_stage: "begun m \<subseteq> begun (stage_rows w now I m)"
  by (auto simp: begun_def stage_rows_def)

context sql_backend begin

lemma claim_begun:
  assumes "a_inv A s" and "claim_one Q w pk now s = (res, s')"
  shows "a_inv A s' \<and> begun (v_tasks (a_abs A s)) \<subseteq> begun (v_tasks (a_abs A s')) \<and>
    (\<forall>d. res = Inr (Some d) \<longrightarrow> pk \<notin> begun (v_tasks (a_abs A s)) \<and> pk \<in> begun (v_tasks (a_abs A s')))"
proof -
  note C = claim_oneD [OF assms]
  have sub: "begun (v_tasks (a_abs A s)) \<subseteq> begun (v_tasks v)"
    if "claim_effect w pk now l out (a_abs A s) v" for l out v
    using that begun_stage by (auto simp: claim_effect_def split: option.splits if_splits)
  have won: "pk \<notin> begun (v_tasks (a_abs A s)) \<and> pk \<in> begun (v_tasks v)"
    if "claim_effect w pk now l (Some d) (a_abs A s) v" for l d v
    using that by (auto simp: claim_effect_def begun_def stage_rows_def split: option.splits if_splits)
  show ?thesis
  proof (cases res)
    case (Inl e)
    with C sub show ?thesis by auto
  next
    case (Inr out)
    with C have "claim_effect w pk now (a_locked A s) out (a_abs A s) (a_abs A s')" by simp
    from sub [OF this] won this Inr C show ?thesis by blast
  qed
qed

lemma step_begun:
  assumes "a_inv A s" and "run_sql_step Q st s = (ids, s')"
  shows "a_inv A s' \<and> begun (v_tasks (a_abs A s)) \<subseteq> begun (v_tasks (a_abs A s')) \<and>
    set ids \<inter> begun (v_tasks (a_abs A s)) = {} \<and> set ids \<subseteq> begun (v_tasks (a_abs A s')) \<and> distinct ids"
proof (cases st)
  case (ClaimStep w pk now)
  obtain r s1 where c: "claim_one Q w pk now s = (r, s1)" by fastforce
  from claim_begun [OF assms(1) c] ClaimStep assms(2) c show ?thesis
    by (auto split: sum.splits option.splits)
next
  case (SubmitStep rs)
  obtain r s1 where c: "sqlx_put_tasks Q rs s = (r, s1)" by fastforce
  from put_effect [OF assms(1) c] SubmitStep assms(2) c show ?thesis
    by (auto intro: subsetD [OF begun_put_all])
next
  case (ScheduleStep n d rs)
  obtain r s1 where c: "sqlx_persist_scheduler_state_and_put_tasks Q n d rs s = (r, s1)" by fastforce
  from persist_effect [OF assms(1) c] ScheduleStep assms(2) c show ?thesis
    by (auto intro: subsetD [OF begun_put_all])
next
  case (SucceedStep now r b)
  obtain x s1 where c: "sqlx_succeed Q now r b s = (x, s1)" by fastforce
  from succeed_effect [OF assms(1) c] SucceedStep assms(2) c show ?thesis
    by (auto intro: subsetD [OF begun_finish])
next
  case (FailStep now r b)
  obtain x s1 where c: "sqlx_fail Q now r b s = (x, s1)" by fastforce
  from fail_effect [OF assms(1) c] FailStep assms(2) c show ?thesis
    by (auto simp del: from_utf8_lossy.simps intro: subsetD [OF begun_finish])
qed

lemma steps_begun:
  assumes "a_inv A s" and "run_sql_steps Q sts s = (ids, s')"
  shows "a_inv A s' \<and> begun (v_tasks (a_abs A s)) \<subseteq> begun (v_tasks (a_abs A s')) \<and>
    set ids \<inter> begun (v_tasks (a_abs A s)) = {} \<and> set ids \<subseteq> begun (v_tasks (a_abs A s')) \<and> distinct ids"
  using assms
proof (induction sts arbitrary: s ids)
  case (Cons st sts)
  obtain i1 s1 where c1: "run_sql_step Q st s = (i1, s1)" by fastforce
  obtain i2 s2 where c2: "run_sql_steps Q sts s1 = (i2, s2)" by fastforce
  from Cons.prems(2) c1 c2 have ids: "ids = i1 @ i2" and s': "s' = s2" by simp_all
  note S1 = step_begun [OF Cons.prems(1) c1]
  from S1 have "a_inv A s1" by simp
  from Cons.IH [OF this] c2 s' have S2: "a_inv A s' \<and> begun (v_tasks (a_abs A s1)) \<subseteq> begun (v_tasks (a_abs A s')) \<and>
    set i2 \<inter> begun (v_tasks (a_abs A s1)) = {} \<and> set i2 \<subseteq> begun (v_tasks (a_abs A s')) \<and> distinct i2" by simp
  have "set i1 \<inter> set i2 = {}" using S1 S2 by blast
  with S1 S2 show ?case unfolding ids by (intro conjI) (auto simp: disjoint_iff)
qed auto

end

subsection \<open>The event stream\<close>

text \<open>The events that polls deliver, one poll after the other, in a quiet cluster.\<close>

fun receive_events ::
  "nat \<Rightarrow> ('s, 't, 'l) sql_queries \<Rightarrow> (bytes \<Rightarrow> control_event option) \<Rightarrow> f64 \<Rightarrow> 's \<Rightarrow> control_event list" where
  "receive_events 0 Q decode offset s = []"
| "receive_events (Suc n) Q decode offset s =
     (case poll_events Q decode offset s of
        ((Some event, offset), s) \<Rightarrow> event # receive_events n Q decode offset s
      | ((None, offset), s) \<Rightarrow> receive_events n Q decode offset s)"

definition pending_events :: "f64 \<Rightarrow> (f64 \<times> bytes) list \<Rightarrow> (f64 \<times> bytes) list" where
  "pending_events offset es = sort_key fst (filter (\<lambda>e. offset < fst e) es)"

definition decoded :: "(bytes \<Rightarrow> control_event option) \<Rightarrow> (f64 \<times> bytes) list \<Rightarrow> control_event list" where
  "decoded decode es = List.map_filter (\<lambda>e. decode (snd e)) es"

lemma decoded_Nil [simp]: "decoded decode [] = []"
  by (simp add: decoded_def)

lemma decoded_Cons: "decoded decode (e # es) =
    (case decode (snd e) of Some ev \<Rightarrow> ev # decoded decode es | None \<Rightarrow> decoded decode es)"
  by (cases "decode (snd e)") (simp_all add: decoded_def List.map_filter_def)

lemma decoded_append [simp]: "decoded decode (xs @ ys) = decoded decode xs @ decoded decode ys"
  by (induction xs) (auto simp: decoded_Cons split: option.splits)

text \<open>A scan passes over the events that do not decode and stops after the first that does.\<close>

lemma scan_events_split:
  "\<exists>xs ys. es = xs @ ys \<and> snd (scan_events decode es offset) = (if xs = [] then offset else fst (last xs)) \<and>
     (case fst (scan_events decode es offset) of
        Some ev \<Rightarrow> xs \<noteq> [] \<and> decoded decode xs = [ev]
      | None \<Rightarrow> ys = [] \<and> decoded decode xs = [])"
proof (induction es arbitrary: offset)
  case (Cons e es)
  obtain sent data where e: "e = (sent, data)" by (cases e)
  show ?case
  proof (cases "decode data")
    case (Some ev)
    with e show ?thesis by (intro exI [of _ "[e]"] exI [of _ es]) (simp add: decoded_Cons)
  next
    case None
    from Cons.IH [of sent] obtain xs ys where
      "es = xs @ ys \<and> snd (scan_events decode es sent) = (if xs = [] then sent else fst (last xs)) \<and>
       (case fst (scan_events decode es sent) of
          Some ev \<Rightarrow> xs \<noteq> [] \<and> decoded decode xs = [ev]
        | None \<Rightarrow> ys = [] \<and> decoded decode xs = [])" by blast
    with e None show ?thesis
      by (intro exI [of _ "e # xs"] exI [of _ ys]) (auto simp: decoded_Cons split: option.splits)
  qed
qed simp

text \<open>With distinct sending times, moving the offset to an event drops exactly the events up to it.\<close>

lemma pending_split:
  assumes "distinct (map fst es)" and "pending_events offset es = xs @ ys" and "xs \<noteq> []"
  shows "pending_events (fst (last xs)) es = ys"
proof -
  let ?p = "pending_events offset es"
  have so: "sorted (map fst (xs @ ys))" unfolding assms(2) [symmetric] pending_events_def by simp
  have di: "distinct (map fst (xs @ ys))"
    unfolding assms(2) [symmetric] pending_events_def
    using assms(1) by (simp add: distinct_map_sort_key distinct_map_filter)
  have mem: "set (xs @ ys) = {e \<in> set es. offset < fst e}" unfolding assms(2) [symmetric] pending_events_def by simp
  have l: "last xs \<in> set xs" using assms(3) by simp
  have pre: "fst x \<le> fst (last xs)" if "x \<in> set xs" for x
    using so that assms(3) by (induction xs rule: rev_induct) (auto simp: sorted_append)
  have post: "fst (last xs) < fst y" if "y \<in> set ys" for y
  proof -
    have "fst (last xs) \<le> fst y" using so l that by (auto simp: sorted_append)
    moreover have "fst (last xs) \<noteq> fst y" using di l that by (auto simp: image_iff)
    ultimately show ?thesis by simp
  qed
  have "offset < fst (last xs)" using mem l by auto
  then have set_eq: "{e \<in> set es. fst (last xs) < fst e} = set ys"
  proof (intro set_eqI iffI)
    fix e assume e: "e \<in> {e \<in> set es. fst (last xs) < fst e}"
    with \<open>offset < fst (last xs)\<close> have "e \<in> {e \<in> set es. offset < fst e}" by auto
    then have "e \<in> set (xs @ ys)" unfolding mem .
    moreover have "e \<notin> set xs" using pre [of e] e by auto
    ultimately show "e \<in> set ys" by simp
  next
    fix e assume e: "e \<in> set ys"
    then have "e \<in> set (xs @ ys)" by simp
    then have "e \<in> set es" unfolding mem by simp
    with post [OF e] show "e \<in> {e \<in> set es. fst (last xs) < fst e}" by simp
  qed
  have inj: "inj_on fst (set es)" and de: "distinct es" using assms(1) by (simp_all add: distinct_map)
  have "mset (filter (\<lambda>e. fst (last xs) < fst e) es) = mset ys"
  proof (rule set_eq_iff_mset_eq_distinct [THEN iffD1])
    show "distinct (filter (\<lambda>e. fst (last xs) < fst e) es)" using de by simp
    show "distinct ys" using di by (simp add: distinct_map)
    show "set (filter (\<lambda>e. fst (last xs) < fst e) es) = set ys" using set_eq by auto
  qed
  then have "sort_key fst (filter (\<lambda>e. fst (last xs) < fst e) es) = sort_key fst ys"
    by (rule sort_key_unique) (use inj de in \<open>auto intro: inj_on_subset\<close>)
  moreover have "sort_key fst ys = ys" using so by (intro sort_key_id_if_sorted) (simp add: sorted_append)
  ultimately show ?thesis by (simp add: pending_events_def)
qed

context sql_backend begin

text \<open>What arrives is always an initial part of what was sent, each event once and in order.\<close>

lemma poll_law:
  assumes "a_inv A s" and "distinct (map fst (v_events (a_abs A s)))"
    and "poll_events Q decode offset s = ((out, offset'), s')"
  shows "unchanged A s s' \<and>
    decoded decode (pending_events offset (v_events (a_abs A s))) =
      (case out of Some ev \<Rightarrow> [ev] | None \<Rightarrow> []) @ decoded decode (pending_events offset' (v_events (a_abs A s))) \<and>
    (\<forall>es. fst (sq_fetch_events_since Q offset s) = Inr es \<longrightarrow> out = None \<longrightarrow>
      decoded decode (pending_events offset (v_events (a_abs A s))) = [])"
proof -
  obtain r s1 where q: "sq_fetch_events_since Q offset s = (r, s1)" by fastforce
  note R = read_specD [OF fetch_events_law assms(1) q]
  let ?es = "v_events (a_abs A s)"
  show ?thesis
  proof (cases r)
    case (Inl e)
    with q assms(3) R show ?thesis by (auto simp: poll_events_def)
  next
    case (Inr es)
    with R have es: "es = pending_events offset ?es" by (simp add: pending_events_def)
    from Inr q assms(3) have sc: "scan_events decode es offset = (out, offset')" and s': "s' = s1"
      by (simp_all add: poll_events_def)
    from scan_events_split [of es decode offset] sc obtain xs ys where
      split: "es = xs @ ys" and off: "offset' = (if xs = [] then offset else fst (last xs))"
      and out: "case out of Some ev \<Rightarrow> xs \<noteq> [] \<and> decoded decode xs = [ev] | None \<Rightarrow> ys = [] \<and> decoded decode xs = []"
      by auto
    have pend: "pending_events offset' ?es = ys"
    proof (cases "xs = []")
      case True
      with off split es show ?thesis by simp
    next
      case False
      with pending_split [OF assms(2), of offset xs ys] off split es show ?thesis by simp
    qed
    show ?thesis
    proof (cases out)
      case None
      with out split es pend R s' show ?thesis by simp
    next
      case (Some ev)
      with out split have d: "decoded decode es = [ev] @ decoded decode ys" by simp
      show ?thesis unfolding es [symmetric] pend Some using R [THEN conjunct1] s' d by simp
    qed
  qed
qed

lemma receive_prefix:
  assumes "a_inv A s" and "distinct (map fst (v_events (a_abs A s)))"
  shows "\<exists>rest. decoded decode (pending_events offset (v_events (a_abs A s))) =
    receive_events n Q decode offset s @ rest"
  using assms
proof (induction n arbitrary: offset s)
  case (Suc n)
  obtain out offset' s' where p: "poll_events Q decode offset s = ((out, offset'), s')"
    by (cases "poll_events Q decode offset s") auto
  note P = poll_law [OF Suc.prems p]
  then have s': "a_inv A s'" "a_abs A s' = a_abs A s" by (simp_all add: unchanged_def)
  from Suc.IH [OF s'(1), of offset'] Suc.prems(2) s'(2) P p show ?case
    by (cases out) auto
qed simp

text \<open>With enough polls that the server answers, everything that was sent arrives.\<close>

lemma receive_all:
  assumes "a_inv A s" and "distinct (map fst (v_events (a_abs A s)))" and "answers s"
    and ans: "\<And>s o'. answers s \<Longrightarrow>
      (\<exists>es. fst (sq_fetch_events_since Q o' s) = Inr es) \<and> answers (snd (sq_fetch_events_since Q o' s))"
    and "length (decoded decode (pending_events offset (v_events (a_abs A s)))) \<le> n"
  shows "receive_events n Q decode offset s = decoded decode (pending_events offset (v_events (a_abs A s)))"
  using assms(1,2,3,5)
proof (induction n arbitrary: offset s)
  case (Suc n)
  obtain out offset' s' where p: "poll_events Q decode offset s = ((out, offset'), s')"
    by (cases "poll_events Q decode offset s") auto
  note P = poll_law [OF Suc.prems(1,2) p]
  then have s': "a_inv A s'" "a_abs A s' = a_abs A s" by (simp_all add: unchanged_def)
  from ans [OF Suc.prems(3), of offset] p have a': "answers s'"
    by (auto simp: poll_events_def split: prod.splits sum.splits)
  have "length (decoded decode (pending_events offset' (v_events (a_abs A s)))) \<le> n"
  proof (cases out)
    case None
    with P ans [OF Suc.prems(3), of offset] show ?thesis by auto
  next
    case (Some ev)
    with P Suc.prems(4) show ?thesis by simp
  qed
  with Suc.IH [OF s'(1) _ a', of offset'] Suc.prems(2) s'(2) P p show ?case
    by (cases out) auto
qed simp

end

end
