(* ===== verification/Postgres_Contract.thy ===== *)
theory Postgres_Contract imports Postgres Sql_Facts Sqlx_Steps begin

section \<open>PostgreSQL meets the contract of the SQL backend\<close>

text \<open>
  The interpretation of the contract of \<open>SqlQueries\<close> on the dialect of postgres.rs, law by law from the
  facts on statement forms in \<open>Sql_Facts\<close>; with it the facts of the client theories \<open>Sqlx_View\<close>,
  \<open>Sqlx_Assign\<close> and \<open>Sqlx_Steps\<close> hold of it.
\<close>

lemma pg_limit_ok:
  assumes "0 \<le> pg_limit n" and "n < 2 ^ 64" shows "nat (pg_limit n) = n"
proof -
  define w where "w = (of_nat n :: 64 word)"
  have w: "uint w = int n"
    using assms(2) by (simp add: w_def unsigned_of_nat take_bit_nat_eq_self)
  have "sint w = uint w - 2 ^ 64 * of_bool (bit (uint w) 63)"
    using w assms(2) by (simp add: sint_uint signed_take_bit_eq_take_bit_minus take_bit_int_eq_self)
  then have "sint w = uint w"
    using assms w unfolding pg_limit_def w_def [symmetric] by (cases "bit (uint w) 63") simp_all
  with w show ?thesis by (simp add: pg_limit_def w_def)
qed

lemma retry_count_roundtrip: "pg_read_retry_count (pg_bind_retry_count n) = n"
  by (simp add: pg_read_retry_count_def pg_bind_retry_count_def)

lemma pg_fetch_for_assign_spec:
  "tx_spec server_abs (pg_fetch_task_for_assign i) (\<lambda>l d v v'. v' = v \<and> d = (if l i then None else v_tasks v i))"
proof (rule tx_specI)
  fix sv tx res tx' sv'
  assume "a_inv server_abs sv" and "pg_fetch_task_for_assign i tx sv = (res, tx', sv')"
  then show "unchanged server_abs sv sv'"
    by (auto simp: pg_fetch_task_for_assign_def in_transaction_def Let_def unchanged_def
        split: option.splits prod.splits)
next
  fix sv tx d tx' sv'
  assume "a_inv server_abs sv" and "a_tinv server_abs tx"
    and "pg_fetch_task_for_assign i tx sv = (Inr d, tx', sv')"
  moreover have "find (\<lambda>d. d_id d = i \<and> \<not> sv_row_locked sv (d_id d)) rows =
      (if sv_row_locked sv i then None else row_of d_id rows i)" for rows
    by (induction rows) (auto simp: row_of_Cons)
  ultimately show "a_tinv server_abs tx' \<and> a_tabs server_abs tx' = a_tabs server_abs tx \<and>
      d = (if a_locked server_abs sv i then None else v_tasks (a_tabs server_abs tx) i)"
    by (auto simp: pg_fetch_task_for_assign_def in_transaction_def fetch_optional_def Let_def
        split: option.splits prod.splits)
qed

lemma tx_return_spec: "tx_spec A (tx_return ()) (\<lambda>l _ v v'. v' = v)"
  by (rule tx_spec_mono [OF tx_spec_return]) simp

lemma pg_delete_spec:
  "tx_spec server_abs (pg_delete_tasks ids) (\<lambda>l _ v v'. v' = on_tasks (\<lambda>m. m |` (- set ids)) v)"
proof (cases "ids = []")
  case True
  have "on_tasks (\<lambda>m. m |` (- set [])) v = v" for v by (rule on_tasks_same) (simp add: restrict_map_def)
  with True show ?thesis using tx_return_spec by (simp add: pg_delete_tasks_def)
next
  case False
  have "tx_spec server_abs (in_transaction (\<lambda>t. Inr ((), t\<lparr>t_task := delete_where (\<lambda>d. d_id d \<in> set ids) (t_task t)\<rparr>)))
      (\<lambda>l _ v v'. v' = on_tasks (\<lambda>m. m |` (- set ids)) v)"
    using tasks_delete_where by (intro in_transaction_spec) auto
  with False show ?thesis by (simp add: pg_delete_tasks_def)
qed

lemma pg_upsert_spec:
  "tx_spec server_abs (pg_upsert_tasks ds) (\<lambda>l _ v v'. v' = on_tasks (db_put_all ds) v)"
proof (cases "ds = []")
  case True
  have "on_tasks (db_put_all []) v = v" for v by (rule on_tasks_same) simp
  then show ?thesis by (simp only: pg_upsert_tasks_def True if_True refl tx_return_spec)
next
  case False
  have "tx_spec server_abs (in_transaction (\<lambda>t.
        if \<exists>d\<in>set ds. pg_bind_retry_count (d_retry_count d) < 0
        then Inl ''new row for relation taskkit_task violates check constraint''
        else Inr ((), t\<lparr>t_task := insert_all_or_ignore d_id ds (t_task t)\<rparr>)))
      (\<lambda>l _ v v'. v' = on_tasks (db_put_all ds) v)"
    using tasks_insert by (intro in_transaction_spec) (auto split: if_splits)
  with False show ?thesis by (simp add: pg_upsert_tasks_def)
qed

lemma pg_contract: "sql_backend (pg_queries gl) server_abs (2 ^ 64)"
proof (unfold_locales, goal_cases)
  case (1 s out s')
  then show ?case using on_connection_cases [of "\<lambda>t. Inr (t, t)" s out s']
    by (auto simp: pg_queries_def pg_begin_def tx_begin_def unchanged_def split: sum.splits)
next
  case (2 s tx res s')
  then show ?case using on_connection_cases [of "\<lambda>_. Inr ((), tx)" s res s']
    by (auto simp: pg_queries_def pg_commit_def tx_commit_def split: sum.splits)
next
  case (3 s tx)
  then show ?case by (simp add: pg_queries_def tx_rollback_def)
next
  case (4 i)
  show ?case unfolding pg_queries_def pg_fetch_task_for_update_def sql_queries.simps
    by (rule in_transaction_spec) (auto simp: fetch_optional_def find_row_of)
next
  case (5 i)
  show ?case using pg_fetch_for_assign_spec by (simp add: pg_queries_def)
next
  case (6 i w b)
  show ?case unfolding pg_queries_def pg_update_task_assignment_def sql_queries.simps
    using tasks_update_where [where f = "set_assignment w b"]
    by (intro in_transaction_spec) (auto simp: set_assignment_def [abs_def])
next
  case (7 ids)
  show ?case using pg_delete_spec by (simp add: pg_queries_def)
next
  case (8 ids)
  show ?case using pg_delete_spec [of ids]
    by (simp add: pg_queries_def pg_discard_tasks_def pg_delete_tasks_def)
next
  case (9 ds)
  show ?case using pg_upsert_spec by (simp add: pg_queries_def)
next
  case (10 i b t r m dt)
  show ?case unfolding pg_queries_def pg_update_task_done_def sql_queries.simps
    using tasks_update_where [where f = "set_done b t r m dt"]
    by (intro in_transaction_spec) (auto simp: set_done_def [abs_def])
next
  case (11 name data)
  show ?case unfolding pg_queries_def pg_upsert_scheduler_state_def sql_queries.simps
    using sched_set by (intro in_transaction_spec) auto
next
  case (12 i)
  show ?case unfolding pg_queries_def pg_restore_def sql_queries.simps
    using tasks_update_where [where f = "d_began_update (\<lambda>_. None)"]
    by (intro in_transaction_spec) auto
next
  case (13 n grp now)
  then show ?case unfolding pg_queries_def pg_list_due_task_ids_def sql_queries.simps is_due_def
    by (intro ids_query [OF pg_limit_ok])
next
  case (14 n grp)
  then show ?case unfolding pg_queries_def pg_get_queued_tasks_def sql_queries.simps
    by (intro rows_query [OF pg_limit_ok])
next
  case (15 ids)
  show ?case unfolding pg_queries_def pg_lookup_tasks_def sql_queries.simps Let_def
    by (rule read_specI) (auto simp: lookup_rows tables_ok_def)
next
  case (16 i)
  show ?case unfolding pg_queries_def pg_get_result_def sql_queries.simps
    by (rule read_specI) (auto simp: fetch_optional_def find_row_of)
next
  case (17 n since til)
  have eq: "(\<lambda>d. case d_done d of None \<Rightarrow> False | Some dn \<Rightarrow> since \<le> dn \<and> dn \<le> til) =
      (\<lambda>d. \<exists>t. d_done d = Some t \<and> since \<le> t \<and> t \<le> til)" by (auto split: option.splits)
  show ?case unfolding pg_queries_def pg_get_done_task_ids_def sql_queries.simps eq
    by (intro ids_query [OF pg_limit_ok]) (use 17 in simp_all)
next
  case (18 n now)
  have eq: "(\<lambda>d. case d_disposable d of None \<Rightarrow> False | Some x \<Rightarrow> x < now) =
      (\<lambda>d. \<exists>t. d_disposable d = Some t \<and> t < now)" by (auto split: option.splits)
  show ?case unfolding pg_queries_def pg_get_disposable_task_ids_def sql_queries.simps eq
    by (intro ids_query [OF pg_limit_ok]) (use 18 in simp_all)
next
  case (19 n)
  then show ?case unfolding pg_queries_def pg_get_stage_info_def sql_queries.simps
    by (intro stage_query [OF pg_limit_ok])
next
  case (20 name)
  show ?case unfolding pg_queries_def pg_get_scheduler_state_def sql_queries.simps
    by (rule read_specI) (auto simp: fetch_optional_def find_row_of)
next
  case (21 ws t)
  then show ?case unfolding pg_queries_def pg_set_worker_ttl_def sql_queries.simps
    using workers_set by (intro write_specI) auto
next
  case 22
  show ?case unfolding pg_queries_def pg_get_workers_def sql_queries.simps
    by (rule read_specI) (auto simp: tables_ok_def workers_query)
next
  case (23 ws)
  show ?case unfolding pg_queries_def pg_purge_workers_def sql_queries.simps
    using workers_purge by (intro write_specI) auto
next
  case (24 offset)
  show ?case unfolding pg_queries_def pg_fetch_events_since_def sql_queries.simps
    by (rule read_specI) (auto simp: select_ordered_def)
next
  case (25 now data)
  show ?case unfolding pg_queries_def pg_insert_event_def sql_queries.simps
    by (rule write_specI) (auto simp: tables_ok_def tables_view_def)
qed

interpretation pg: sql_backend postgres server_abs "2 ^ 64"
  unfolding postgres_def by (rule pg_contract)

end
