(* ===== verification/Mysql_Contract.thy ===== *)
theory Mysql_Contract imports Mysql Postgres_Contract begin

section \<open>MySQL meets the contract when its collation tells ids apart\<close>

text \<open>
  Under a collation that compares strings exactly, every query of the MySQL dialect is the one of
  the PostgreSQL dialect, but for the width of the bound limit and the missing CHECK.  Under a
  collation that ignores case the contract fails, as \<open>Sql_Runs\<close> shows.
\<close>

lemma mysql_limit_ok:
  assumes "0 \<le> mysql_limit n" and "n < 2 ^ 32" shows "nat (mysql_limit n) = n"
proof -
  define w where "w = (of_nat n :: 32 word)"
  have w: "uint w = int n"
    using assms(2) by (simp add: w_def unsigned_of_nat take_bit_nat_eq_self)
  have "sint w = uint w - 2 ^ 32 * of_bool (bit (uint w) 31)"
    using w assms(2) by (simp add: sint_uint signed_take_bit_eq_take_bit_minus take_bit_int_eq_self)
  then have "sint w = uint w"
    using assms w unfolding mysql_limit_def w_def [symmetric] by (cases "bit (uint w) 31") simp_all
  with w show ?thesis by (simp add: mysql_limit_def w_def)
qed

lemma insert_or_ignore_inj:
  "inj f \<Longrightarrow> insert_or_ignore (\<lambda>r. f (key r)) r rows = insert_or_ignore key r rows"
  by (auto simp: insert_or_ignore_def inj_eq)

lemma insert_or_set_inj:
  "inj f \<Longrightarrow> insert_or_set (\<lambda>r. f (key r)) upd r rows = insert_or_set key upd r rows"
  by (auto simp: insert_or_set_def inj_eq)

lemma insert_all_or_ignore_inj:
  "inj f \<Longrightarrow> insert_all_or_ignore (\<lambda>r. f (key r)) rs rows = insert_all_or_ignore key rs rows"
  unfolding insert_all_or_ignore_def by (induction rs arbitrary: rows) (simp_all add: insert_or_ignore_inj)

lemma insert_all_or_set_inj:
  "inj f \<Longrightarrow> insert_all_or_set (\<lambda>r. f (key r)) upd rs rows = insert_all_or_set key upd rs rows"
  unfolding insert_all_or_set_def by (induction rs arbitrary: rows) (simp_all add: insert_or_set_inj)

lemma mysql_queries_pg:
  assumes "inj collate"
  shows "mysql_fetch_task_for_update collate = pg_fetch_task_for_update"
    "mysql_fetch_task_for_assign collate = pg_fetch_task_for_assign"
    "mysql_update_task_assignment collate = pg_update_task_assignment"
    "mysql_delete_tasks collate = pg_delete_tasks"
    "mysql_discard_tasks collate = pg_discard_tasks"
    "mysql_update_task_done collate = pg_update_task_done"
    "mysql_upsert_scheduler_state collate = pg_upsert_scheduler_state"
    "mysql_restore collate = pg_restore"
    "mysql_lookup_tasks collate = pg_lookup_tasks"
    "mysql_get_result collate = pg_get_result"
    "mysql_get_scheduler_state collate = pg_get_scheduler_state"
    "mysql_set_worker_ttl collate = pg_set_worker_ttl"
    "mysql_purge_workers collate = pg_purge_workers"
  using assms
  by (simp_all add: fun_eq_iff inj_eq inj_image_mem_iff insert_or_set_inj [where f = collate and key = fst]
      insert_all_or_set_inj [where f = collate and key = fst]
      mysql_fetch_task_for_update_def pg_fetch_task_for_update_def
      mysql_fetch_task_for_assign_def pg_fetch_task_for_assign_def
      mysql_update_task_assignment_def pg_update_task_assignment_def
      mysql_delete_tasks_def pg_delete_tasks_def mysql_discard_tasks_def pg_discard_tasks_def
      mysql_update_task_done_def pg_update_task_done_def
      mysql_upsert_scheduler_state_def pg_upsert_scheduler_state_def
      mysql_restore_def pg_restore_def mysql_lookup_tasks_def pg_lookup_tasks_def
      mysql_get_result_def pg_get_result_def mysql_get_scheduler_state_def pg_get_scheduler_state_def
      mysql_set_worker_ttl_def pg_set_worker_ttl_def mysql_purge_workers_def pg_purge_workers_def)


lemma mysql_upsert_spec:
  assumes "inj collate"
  shows "tx_spec server_abs (mysql_upsert_tasks collate ds) (\<lambda>l _ v v'. v' = on_tasks (db_put_all ds) v)"
proof (cases "ds = []")
  case True
  have "on_tasks (db_put_all []) v = v" for v by (rule on_tasks_same) simp
  then show ?thesis by (simp only: mysql_upsert_tasks_def True if_True refl tx_return_spec)
next
  case False
  have "tx_spec server_abs (in_transaction (\<lambda>t. Inr ((), t\<lparr>t_task := insert_all_or_ignore d_id ds (t_task t)\<rparr>)))
      (\<lambda>l _ v v'. v' = on_tasks (db_put_all ds) v)"
    using tasks_insert by (intro in_transaction_spec) auto
  with False show ?thesis
    by (simp add: mysql_upsert_tasks_def insert_all_or_ignore_inj [OF assms, where key = d_id])
qed

text \<open>The queries that both dialects share.\<close>

lemma mysql_shared:
  assumes "inj collate"
  shows "sq_begin (mysql collate) = sq_begin (pg_queries mysql_get_lock)"
    "sq_commit (mysql collate) = sq_commit (pg_queries mysql_get_lock)"
    "sq_drop (mysql collate) = sq_drop (pg_queries mysql_get_lock)"
    "sq_fetch_task_for_update (mysql collate) = sq_fetch_task_for_update (pg_queries mysql_get_lock)"
    "sq_fetch_task_for_assign (mysql collate) = sq_fetch_task_for_assign (pg_queries mysql_get_lock)"
    "sq_update_task_assignment (mysql collate) = sq_update_task_assignment (pg_queries mysql_get_lock)"
    "sq_delete_tasks (mysql collate) = sq_delete_tasks (pg_queries mysql_get_lock)"
    "sq_discard_tasks (mysql collate) = sq_discard_tasks (pg_queries mysql_get_lock)"
    "sq_update_task_done (mysql collate) = sq_update_task_done (pg_queries mysql_get_lock)"
    "sq_upsert_scheduler_state (mysql collate) = sq_upsert_scheduler_state (pg_queries mysql_get_lock)"
    "sq_restore (mysql collate) = sq_restore (pg_queries mysql_get_lock)"
    "sq_lookup_tasks (mysql collate) = sq_lookup_tasks (pg_queries mysql_get_lock)"
    "sq_get_result (mysql collate) = sq_get_result (pg_queries mysql_get_lock)"
    "sq_get_scheduler_state (mysql collate) = sq_get_scheduler_state (pg_queries mysql_get_lock)"
    "sq_set_worker_ttl (mysql collate) = sq_set_worker_ttl (pg_queries mysql_get_lock)"
    "sq_get_workers (mysql collate) = sq_get_workers (pg_queries mysql_get_lock)"
    "sq_purge_workers (mysql collate) = sq_purge_workers (pg_queries mysql_get_lock)"
    "sq_fetch_events_since (mysql collate) = sq_fetch_events_since (pg_queries mysql_get_lock)"
    "sq_insert_event (mysql collate) = sq_insert_event (pg_queries mysql_get_lock)"
  by (simp_all add: pg_queries_def mysql_def mysql_queries_pg [OF assms] mysql_begin_def pg_begin_def
      mysql_commit_def pg_commit_def mysql_get_workers_def pg_get_workers_def mysql_fetch_events_since_def
      pg_fetch_events_since_def mysql_insert_event_def pg_insert_event_def fun_eq_iff)

lemmas pg_laws = pg_contract [THEN sql_backend.begin_law] pg_contract [THEN sql_backend.commit_law]
  pg_contract [THEN sql_backend.drop_law] pg_contract [THEN sql_backend.fetch_for_update_law]
  pg_contract [THEN sql_backend.fetch_for_assign_law] pg_contract [THEN sql_backend.update_assignment_law]
  pg_contract [THEN sql_backend.delete_law] pg_contract [THEN sql_backend.discard_law]
  pg_contract [THEN sql_backend.update_done_law] pg_contract [THEN sql_backend.upsert_sched_law]
  pg_contract [THEN sql_backend.restore_law] pg_contract [THEN sql_backend.lookup_law]
  pg_contract [THEN sql_backend.get_result_law] pg_contract [THEN sql_backend.get_sched_law]
  pg_contract [THEN sql_backend.get_workers_law] pg_contract [THEN sql_backend.purge_law]
  pg_contract [THEN sql_backend.fetch_events_law] pg_contract [THEN sql_backend.insert_event_law]

lemma mysql_contract:
  assumes "inj collate"
  shows "sql_backend (mysql collate) server_abs (2 ^ 32)"
proof (unfold_locales, goal_cases)
  case (13 n grp now)
  then show ?case using assms
    unfolding mysql_def mysql_list_due_task_ids_def sql_queries.simps is_due_def inj_eq [OF assms]
    by (intro ids_query [OF mysql_limit_ok])
next
  case (14 n grp)
  then show ?case unfolding mysql_def mysql_get_queued_tasks_def sql_queries.simps inj_eq [OF assms]
    by (intro rows_query [OF mysql_limit_ok])
next
  case (17 n since til)
  have eq: "(\<lambda>d. case d_done d of None \<Rightarrow> False | Some dn \<Rightarrow> since \<le> dn \<and> dn \<le> til) =
      (\<lambda>d. \<exists>t. d_done d = Some t \<and> since \<le> t \<and> t \<le> til)" by (auto split: option.splits)
  show ?case unfolding mysql_def mysql_get_done_task_ids_def sql_queries.simps eq
    by (intro ids_query [OF mysql_limit_ok]) (use 17 in simp_all)
next
  case (18 n now)
  have eq: "(\<lambda>d. case d_disposable d of None \<Rightarrow> False | Some x \<Rightarrow> x < now) =
      (\<lambda>d. \<exists>t. d_disposable d = Some t \<and> t < now)" by (auto split: option.splits)
  show ?case unfolding mysql_def mysql_get_disposable_task_ids_def sql_queries.simps eq
    by (intro ids_query [OF mysql_limit_ok]) (use 18 in simp_all)
next
  case (19 n)
  then show ?case unfolding mysql_def mysql_get_stage_info_def sql_queries.simps
    by (intro stage_query [OF mysql_limit_ok])
next
  case (9 ds)
  show ?case using mysql_upsert_spec [OF assms] by (simp add: mysql_def)
next
  case (21 ws t)
  from sql_backend.set_ttl_law [OF pg_contract this] show ?case unfolding mysql_shared [OF assms] .
qed (unfold mysql_shared [OF assms], (assumption | rule pg_laws)+)

end
