(* ===== verification/Sql_Locks.thy ===== *)
theory Sql_Locks imports Mysql Postgres begin

section \<open>Locks held by database sessions\<close>

text \<open>
  \<open>PostgresLock\<close> and \<open>MysqlLock\<close> in a cluster: handles that processes create, acquire, release and
  drop in any order, over connections that a pool hands out to one borrower at a time.  Both keep
  the invariant that a handle with a connection holds its lock through that connection's session;
  replies may be lost at any statement.  (A connection that breaks while a handle has it loses the
  lock without the handle noticing: not part of the relation.)
\<close>

inductive lock_step ::
  "('l \<Rightarrow> nat option) \<Rightarrow> (nat option \<Rightarrow> 'l \<Rightarrow> 'k sql_server \<Rightarrow> bool \<times> 'l \<times> 'k sql_server)
   \<Rightarrow> ('l \<Rightarrow> 'k sql_server \<Rightarrow> 'l \<times> 'k sql_server) \<Rightarrow> ('l \<Rightarrow> 'k sql_server \<Rightarrow> 'k sql_server) \<Rightarrow> (string \<Rightarrow> 'l)
   \<Rightarrow> (nat \<Rightarrow> 'l option) \<times> 'k sql_server \<Rightarrow> (nat \<Rightarrow> 'l option) \<times> 'k sql_server \<Rightarrow> bool"
  for conn acq rel drp new where
  create: "hs h = None \<Longrightarrow> lock_step conn acq rel drp new (hs, sv) (hs(h \<mapsto> new target), sv)"
| acquire: "hs h = Some l \<Longrightarrow> (\<forall>c h' l'. pooled = Some c \<longrightarrow> hs h' = Some l' \<longrightarrow> conn l' \<noteq> Some c) \<Longrightarrow>
    acq pooled l sv = (ok, l2, sv') \<Longrightarrow> lock_step conn acq rel drp new (hs, sv) (hs(h \<mapsto> l2), sv')"
| release: "hs h = Some l \<Longrightarrow> rel l sv = (l2, sv') \<Longrightarrow>
    lock_step conn acq rel drp new (hs, sv) (hs(h \<mapsto> l2), sv')"
| dropped: "hs h = Some l \<Longrightarrow> lock_step conn acq rel drp new (hs, sv) (hs(h := None), drp l sv)"
| idle_end: "(\<forall>h l. hs h = Some l \<longrightarrow> conn l \<noteq> Some c) \<Longrightarrow>
    lock_step conn acq rel drp new (hs, sv) (hs, session_end c sv)"
| other: "sv_session_locks sv' = sv_session_locks sv \<Longrightarrow> lock_step conn acq rel drp new (hs, sv) (hs, sv')"

inductive_cases lock_stepE [consumes 1, case_names create acquire release dropped idle_end other]: "lock_step conn acq rel drp new (hs, sv) (hs', sv')"

definition lock_inv :: "('l \<Rightarrow> 'k) \<Rightarrow> ('l \<Rightarrow> nat option) \<Rightarrow> (nat \<Rightarrow> 'l option) \<times> 'k sql_server \<Rightarrow> bool" where
  "lock_inv key conn st \<longleftrightarrow>
     (\<forall>h l c. fst st h = Some l \<longrightarrow> conn l = Some c \<longrightarrow>
        (\<exists>n. 0 < n \<and> sv_session_locks (snd st) (key l) = Some (c, n)) \<and>
        (\<forall>h' l'. fst st h' = Some l' \<longrightarrow> conn l' = Some c \<longrightarrow> h' = h))"

text \<open>What the two kinds of lock have in common.\<close>

locale session_locks =
  fixes key :: "'l \<Rightarrow> 'k" and conn :: "'l \<Rightarrow> nat option"
    and acq :: "nat option \<Rightarrow> 'l \<Rightarrow> 'k sql_server \<Rightarrow> bool \<times> 'l \<times> 'k sql_server"
    and rel :: "'l \<Rightarrow> 'k sql_server \<Rightarrow> 'l \<times> 'k sql_server"
    and drp :: "'l \<Rightarrow> 'k sql_server \<Rightarrow> 'k sql_server" and new :: "string \<Rightarrow> 'l"
  assumes new_law: "conn (new target) = None"
    and acquire_held: "conn l = Some c \<Longrightarrow> acq pooled l sv = (True, l, sv)"
    and acquire_no_conn: "conn l = None \<Longrightarrow> acq None l sv = (False, l, sv)"
    and acquire_conn: "conn l = None \<Longrightarrow> acq (Some c) l sv = (ok, l2, sv') \<Longrightarrow>
      (if ok then conn l2 = Some c \<and> key l2 = key l \<and>
          session_lock (key l) c (sv_session_locks sv) = (True, sv_session_locks sv')
       else l2 = l \<and> (sv_session_locks sv' = sv_session_locks sv \<or>
          sv_session_locks sv' = snd (session_lock (key l) c (sv_session_locks sv))))"
    and release_none: "conn l = None \<Longrightarrow> rel l sv = (l, sv)"
    and release_some: "conn l = Some c \<Longrightarrow> rel l sv = (l2, sv') \<Longrightarrow> conn l2 = None \<and>
      (sv_session_locks sv' = sv_session_locks sv \<or>
       sv_session_locks sv' = snd (session_unlock (key l) c (sv_session_locks sv)))"
    and drop_none: "conn l = None \<Longrightarrow> drp l sv = sv"
    and drop_some: "conn l = Some c \<Longrightarrow> drp l sv = session_end c sv"
begin

lemma lock_invI:
  assumes "\<And>h l c. hs h = Some l \<Longrightarrow> conn l = Some c \<Longrightarrow> \<exists>n. 0 < n \<and> sv_session_locks sv (key l) = Some (c, n)"
    and "\<And>h l c h' l'. hs h = Some l \<Longrightarrow> conn l = Some c \<Longrightarrow> hs h' = Some l' \<Longrightarrow> conn l' = Some c \<Longrightarrow> h' = h"
  shows "lock_inv key conn (hs, sv)"
  using assms unfolding lock_inv_def by (metis fst_conv snd_conv)

lemma lock_invD:
  assumes "lock_inv key conn (hs, sv)" and "hs h = Some l" and "conn l = Some c"
  shows "\<exists>n. 0 < n \<and> sv_session_locks sv (key l) = Some (c, n)"
    and "hs h' = Some l' \<Longrightarrow> conn l' = Some c \<Longrightarrow> h' = h"
  using assms unfolding lock_inv_def fst_conv snd_conv by blast+

text \<open>Taking or giving up a lock in one session leaves what other sessions hold.\<close>

lemma session_lock_keeps:
  "locks k = Some (c', n) \<Longrightarrow> 0 < n \<Longrightarrow> \<exists>n'. 0 < n' \<and> snd (session_lock k0 c locks) k = Some (c', n')"
  by (auto simp: session_lock_def split: option.splits)

lemma session_lock_gets: "session_lock k c locks = (True, locks') \<Longrightarrow> \<exists>n. 0 < n \<and> locks' k = Some (c, n)"
  by (auto simp: session_lock_def split: option.splits if_splits)

lemma session_unlock_keeps:
  "locks k = Some (c', n) \<Longrightarrow> c' \<noteq> c \<Longrightarrow> snd (session_unlock k0 c locks) k = Some (c', n)"
  by (auto simp: session_unlock_def split: option.splits)

lemma session_end_keeps:
  "sv_session_locks sv k = Some (c', n) \<Longrightarrow> c' \<noteq> c \<Longrightarrow> sv_session_locks (session_end c sv) k = Some (c', n)"
  by (simp add: session_end_def)

lemma inv_without:
  assumes I: "lock_inv key conn (hs, sv)"
    and sub: "\<And>h' l'. hs' h' = Some l' \<Longrightarrow> conn l' \<noteq> None \<Longrightarrow> hs h' = Some l'"
    and keep: "\<And>h' l' c n. hs' h' = Some l' \<Longrightarrow> conn l' = Some c \<Longrightarrow> sv_session_locks sv (key l') = Some (c, n) \<Longrightarrow>
      0 < n \<Longrightarrow> \<exists>n'. 0 < n' \<and> sv_session_locks sv' (key l') = Some (c, n')"
  shows "lock_inv key conn (hs', sv')"
proof (rule lock_invI)
  fix h l c assume h: "hs' h = Some l" "conn l = Some c"
  then have h0: "hs h = Some l" using sub by simp
  from lock_invD(1) [OF I h0 h(2)] keep [OF h]
  show "\<exists>n. 0 < n \<and> sv_session_locks sv' (key l) = Some (c, n)" by blast
  fix h' l' assume "hs' h' = Some l'" "conn l' = Some c"
  then show "h' = h" using lock_invD(2) [OF I h0 h(2)] sub by simp
qed

lemma inv_gained:
  assumes I: "lock_inv key conn (hs, sv)" and l2: "conn l2 = Some c"
    and got: "session_lock (key l2) c (sv_session_locks sv) = (True, sv_session_locks sv')"
    and free: "\<And>h' l'. hs h' = Some l' \<Longrightarrow> conn l' \<noteq> Some c"
  shows "lock_inv key conn (hs(h \<mapsto> l2), sv')"
proof (rule lock_invI)
  have sv': "sv_session_locks sv' = snd (session_lock (key l2) c (sv_session_locks sv))" using got by simp
  fix h1 l1 c1 assume h1: "(hs(h \<mapsto> l2)) h1 = Some l1" "conn l1 = Some c1"
  show "\<exists>n. 0 < n \<and> sv_session_locks sv' (key l1) = Some (c1, n)"
  proof (cases "h1 = h")
    case True
    with h1 l2 have "l1 = l2" "c1 = c" by simp_all
    with session_lock_gets [OF got] show ?thesis by simp
  next
    case False
    with h1 have h1': "hs h1 = Some l1" by simp
    from lock_invD(1) [OF I h1' h1(2)] obtain n where
      n: "0 < n" "sv_session_locks sv (key l1) = Some (c1, n)" by (elim exE conjE)
    show ?thesis unfolding sv'
      using n session_lock_keeps [where locks = "sv_session_locks sv" and k = "key l1"] by simp
  qed
  fix h' l' assume h': "(hs(h \<mapsto> l2)) h' = Some l'" "conn l' = Some c1"
  show "h' = h1"
  proof (cases "h1 = h \<or> h' = h")
    case True
    with h1 h' l2 have "c1 = c" by (auto split: if_splits)
    with free [of h1 l1] free [of h' l'] h1 h' True show ?thesis by (auto split: if_splits)
  next
    case False
    with h1 h' lock_invD(2) [OF I, of h1 l1 c1 h' l'] show ?thesis by simp
  qed
qed

lemma inv_acquire:
  assumes I: "lock_inv key conn (hs, sv)" and h: "hs h = Some l"
    and free: "\<forall>c h' l'. pooled = Some c \<longrightarrow> hs h' = Some l' \<longrightarrow> conn l' \<noteq> Some c"
    and acq: "acq pooled l sv = (ok, l2, sv')"
  shows "lock_inv key conn (hs(h \<mapsto> l2), sv')"
proof -
  consider c where "conn l = Some c" | "conn l = None" "pooled = None" | c where "conn l = None" "pooled = Some c"
    by (cases "conn l"; cases pooled) auto
  then show ?thesis
  proof cases
    case (1 c)
    with acq acquire_held [OF 1, of pooled sv] h I show ?thesis by (auto simp: map_upd_triv)
  next
    case 2
    with acq acquire_no_conn [of l sv] h I show ?thesis by (auto simp: map_upd_triv)
  next
    case (3 c)
    note L = acquire_conn [OF 3(1), of c sv ok l2 sv'] acq [unfolded 3(2)]
    show ?thesis
    proof (cases ok)
      case False
      with L have "l2 = l" and "sv_session_locks sv' = sv_session_locks sv \<or>
        sv_session_locks sv' = snd (session_lock (key l) c (sv_session_locks sv))" by simp_all
      with h I show ?thesis
        by (intro inv_without [OF I]) (auto simp: map_upd_triv intro: session_lock_keeps)
    next
      case True
      with L 3(2) free show ?thesis by (intro inv_gained [OF I]) auto
    qed
  qed
qed

lemma inv_release:
  assumes I: "lock_inv key conn (hs, sv)" and h: "hs h = Some l" and rel: "rel l sv = (l2, sv')"
  shows "lock_inv key conn (hs(h \<mapsto> l2), sv')"
proof (cases "conn l")
  case None
  with rel h release_none [OF None, of sv] I show ?thesis by (simp add: map_upd_triv)
next
  case (Some c)
  from release_some [OF Some rel] have l2: "conn l2 = None"
    and sv': "sv_session_locks sv' = sv_session_locks sv \<or>
     sv_session_locks sv' = snd (session_unlock (key l) c (sv_session_locks sv))" by simp_all
  show ?thesis
  proof (rule inv_without [OF I])
    fix h' l' c' n assume h': "(hs(h \<mapsto> l2)) h' = Some l'" "conn l' = Some c'"
      and k: "sv_session_locks sv (key l') = Some (c', n)" "0 < n"
    from h' l2 have "h' \<noteq> h" "hs h' = Some l'" by (auto split: if_splits)
    with lock_invD(2) [OF I h Some, of h' l'] h'(2) have "c' \<noteq> c" by auto
    with sv' k show "\<exists>n'. 0 < n' \<and> sv_session_locks sv' (key l') = Some (c', n')"
      using session_unlock_keeps [where locks = "sv_session_locks sv" and k = "key l'"] by auto
  qed (use l2 in \<open>auto split: if_splits\<close>)
qed

text \<open>The end of a session that no handle in \<open>hs'\<close> uses.\<close>

lemma inv_session_end:
  assumes I: "lock_inv key conn (hs, sv)" and sub: "\<And>h l. hs' h = Some l \<Longrightarrow> hs h = Some l \<and> conn l \<noteq> Some c"
  shows "lock_inv key conn (hs', session_end c sv)"
proof (rule inv_without [OF I])
  fix h' l' c' n assume "hs' h' = Some l'" "conn l' = Some c'"
    and k: "sv_session_locks sv (key l') = Some (c', n)" "0 < n"
  with sub have "c' \<noteq> c" by auto
  with session_end_keeps [OF k(1)] k(2)
  show "\<exists>n'. 0 < n' \<and> sv_session_locks (session_end c sv) (key l') = Some (c', n')" by auto
qed (use sub in auto)

lemma inv_dropped:
  assumes I: "lock_inv key conn (hs, sv)" and h: "hs h = Some l"
  shows "lock_inv key conn (hs(h := None), drp l sv)"
proof (cases "conn l")
  case None
  show ?thesis unfolding drop_none [OF None]
    by (rule inv_without [OF I]) (auto split: if_splits)
next
  case (Some c)
  have "conn l' \<noteq> Some c" if "h' \<noteq> h" "hs h' = Some l'" for h' l'
    using lock_invD(2) [OF I h Some, of h' l'] that by auto
  then show ?thesis unfolding drop_some [OF Some]
    by (intro inv_session_end [OF I]) (auto split: if_splits)
qed

lemma lock_step_inv:
  assumes "lock_step conn acq rel drp new (hs, sv) (hs', sv')" and I: "lock_inv key conn (hs, sv)"
  shows "lock_inv key conn (hs', sv')"
  using assms(1)
proof (cases rule: lock_stepE)
  case (create h target)
  with I show ?thesis by (intro inv_without [OF I]) (auto simp: new_law split: if_splits)
next
  case (acquire h l pooled ok l2)
  with inv_acquire [OF I acquire(2) _ acquire(4)] show ?thesis by simp
next
  case (release h l l2)
  with inv_release [OF I release(2,3)] show ?thesis by simp
next
  case (dropped h l)
  with inv_dropped [OF I dropped(1)] show ?thesis by simp
next
  case (idle_end c)
  with inv_session_end [OF I, of hs c] show ?thesis by auto
next
  case other
  then show ?thesis using I by (intro inv_without [OF I]) auto
qed

text \<open>In every reachable state, two handles that hold locks of the same name are the same handle.\<close>

lemma lock_exclusive:
  assumes "(lock_step conn acq rel drp new)\<^sup>*\<^sup>* (hs0, sv0) (hs, sv)" and "\<And>h l. hs0 h = Some l \<Longrightarrow> conn l = None"
    and "hs h = Some l" "conn l \<noteq> None" "hs h' = Some l'" "conn l' \<noteq> None" "key l = key l'"
  shows "h = h'"
proof -
  have I: "lock_inv key conn st" if "(lock_step conn acq rel drp new)\<^sup>*\<^sup>* (hs0, sv0) st" for st
    using that
  proof (induction rule: rtranclp_induct)
    case base
    show ?case using assms(2) by (intro lock_invI) simp_all
  next
    case (step y z)
    then show ?case using lock_step_inv by (cases y; cases z) blast
  qed
  from assms(4,6) obtain c c' where c: "conn l = Some c" "conn l' = Some c'" by blast
  note I = I [OF assms(1)]
  from lock_invD(1) [OF I assms(3) c(1)] lock_invD(1) [OF I assms(5) c(2)] assms(7)
  have "c = c'" by auto
  with lock_invD(2) [OF I assms(3) c(1) assms(5)] c(2) show ?thesis by simp
qed

end

lemma on_session_cases:
  assumes "on_session f sv = (res, sv')"
  shows "(case res of
      Inr a \<Rightarrow> f (sv_session_locks sv) = (a, sv_session_locks sv')
    | Inl e \<Rightarrow> sv_session_locks sv' = sv_session_locks sv \<or> sv_session_locks sv' = snd (f (sv_session_locks sv)))"
  using assms by (auto simp: on_session_def Let_def split: prod.splits option.splits bool.splits)

lemma on_session_snd:
  "sv_session_locks (snd (on_session f sv)) = sv_session_locks sv \<or>
   sv_session_locks (snd (on_session f sv)) = snd (f (sv_session_locks sv))"
  using on_session_cases [of f sv "fst (on_session f sv)" "snd (on_session f sv)"]
  by (auto split: sum.splits)

lemma session_lock_fails: "session_lock k c locks = (False, locks') \<Longrightarrow> locks' = locks"
  by (auto simp: session_lock_def split: option.splits if_splits)

interpretation pgl: session_locks pl_lock_key pl_conn pg_lock_acquire pg_lock_release pg_lock_drop pg_lock_new
proof (unfold_locales, goal_cases)
  case (4 l c sv ok l2 sv')
  obtain r sv1 where s: "on_session (session_lock (pl_lock_key l) c) sv = (r, sv1)" by fastforce
  from on_session_cases [OF s] 4 s show ?case
    by (auto simp: pg_lock_acquire_def split: sum.splits bool.splits dest: session_lock_fails)
next
  case (6 l c sv l2 sv')
  then show ?case using on_session_snd [of "session_unlock (pl_lock_key l) c" sv]
    by (auto simp: pg_lock_release_def)
qed (simp_all add: pg_lock_new_def pg_lock_acquire_def pg_lock_release_def pg_lock_drop_def)

interpretation myl: session_locks ml_target ml_conn mysql_lock_acquire mysql_lock_release mysql_lock_drop
  mysql_lock_new
proof (unfold_locales, goal_cases)
  case (4 l c sv ok l2 sv')
  obtain r sv1 where s: "on_session (session_lock (ml_target l) c) sv = (r, sv1)" by fastforce
  from on_session_cases [OF s] 4 s show ?case
    by (auto simp: mysql_lock_acquire_def split: sum.splits bool.splits dest: session_lock_fails)
next
  case (6 l c sv l2 sv')
  then show ?case using on_session_snd [of "session_unlock (ml_target l) c" sv]
    by (auto simp: mysql_lock_release_def)
qed (simp_all add: mysql_lock_new_def mysql_lock_acquire_def mysql_lock_release_def mysql_lock_drop_def)

end
