(* ===== verification/Sql_Runs.thy ===== *)
theory Sql_Runs imports Mysql_Contract Sql_Locks begin

section \<open>What the SQL backends guarantee\<close>

text \<open>
  The properties of \<open>SqlxBackend\<close> over the two dialects, and concrete runs that show where it
  differs from the in-process backend.  \<open>sql_rows\<close> reads a server's task table by id, \<open>sql_tasks\<close>
  the abstract store.
\<close>

definition sql_rows :: "'k sql_server \<Rightarrow> string \<Rightarrow> db_task option" where
  "sql_rows sv = row_of d_id (t_task (sv_tables sv))"

definition sql_tasks :: "'k sql_server \<Rightarrow> tview" where
  "sql_tasks sv = task_view (sql_rows sv)"

text \<open>A server that works: every task row under its own id, with a readable \<open>ttl\<close>.\<close>

definition sql_ok :: "'k sql_server \<Rightarrow> bool" where
  "sql_ok sv \<longleftrightarrow> tables_ok (sv_tables sv) \<and> rows_ok (sql_rows sv)"

lemma sql_abs_rows: "v_tasks (a_abs server_abs sv) = sql_rows sv"
  by (simp add: sql_rows_def)

lemma sql_okD: "sql_ok sv \<Longrightarrow> a_inv server_abs sv \<and> rows_ok (v_tasks (a_abs server_abs sv))"
  by (simp add: sql_ok_def sql_rows_def)

text \<open>What evaluates a run on a concrete server.\<close>

lemmas sql_eval = transaction_def tx_bind_def tx_return_def postgres_def pg_queries_def pg_begin_def tx_begin_def
  pg_commit_def tx_commit_def tx_rollback_def on_connection_def in_transaction_def Let_def fetch_optional_def
  update_where_def pg_fetch_task_for_update_def pg_fetch_task_for_assign_def pg_update_task_assignment_def
  pg_update_task_done_def pg_restore_def pg_get_result_def no_tables_def

definition sample_sql_task :: task_record where
  "sample_sql_task = new_record
     \<lparr>ti_id = ''t1'', ti_group = ''g'', ti_name = ''n'', ti_due = 5, ti_created = 1, ti_scheduled = None,
      ti_retry_count = 0, ti_ttl = default_task_ttl\<rparr> ''data''"

definition sample_sql_server :: "db_task list \<Rightarrow> 'k sql_server" where
  "sample_sql_server rows =
     \<lparr>sv_tables = no_tables\<lparr>t_task := rows\<rparr>, sv_faults = (\<lambda>_. None), sv_count = 0,
      sv_row_locked = (\<lambda>_. False), sv_session_locks = (\<lambda>_. None)\<rparr>"

lemma sample_storable [simp]: "storable sample_sql_task"
  by (rule storable_ttl) (simp add: sample_sql_task_def default_task_ttl_def duration_from_secs_def)

lemma sample_ok: "distinct (map d_id rows) \<Longrightarrow> (\<And>d. d \<in> set rows \<Longrightarrow> to_task_record d \<noteq> None) \<Longrightarrow> sql_ok (sample_sql_server rows)"
  by (auto simp: sql_ok_def sample_sql_server_def no_tables_def tables_ok_def rows_ok_def sql_rows_def
      dest: row_of_SomeD)

lemma sample_id [simp]: "tr_id sample_sql_task = ''t1''"
  by (simp add: sample_sql_task_def)

lemma sql_ok_tables: "sql_ok sv \<Longrightarrow> tables_ok (sv_tables sv)"
  by (simp add: sql_ok_def)

lemma sample_one_ok: "sql_ok (sample_sql_server [from_task_record sample_sql_task])"
  by (rule sample_ok) (use sample_storable in \<open>auto simp: storable_def\<close>)

subsection \<open>Rows\<close>

text \<open>
  C31: A task written to the database and read back is the same task, its data, times and retry
  count included, when its time to live is at most \<open>2 ^ 51\<close> ns (26 days; the default is 7 days): the
  conversion of the time to live to a floating point number of seconds and back is exact there.
\<close>

theorem db_task_roundtrip:
  assumes "ti_ttl (tr_info r) \<le> 2 ^ 51"
  shows "to_task_record (from_task_record r) = Some r \<and>
    pg_read_retry_count (pg_bind_retry_count (d_retry_count (from_task_record r))) = ti_retry_count (tr_info r)"
proof
  show "to_task_record (from_task_record r) = Some r"
    using storable_ttl [OF assms] by (simp add: storable_def)
  show "pg_read_retry_count (pg_bind_retry_count (d_retry_count (from_task_record r))) = ti_retry_count (tr_info r)"
    unfolding retry_count_roundtrip by (simp add: from_task_record_def)
qed

theorem db_task_roundtrip_witness: "to_task_record (from_task_record sample_sql_task) = Some sample_sql_task"
proof -
  have "ti_ttl (tr_info sample_sql_task) \<le> 2 ^ 51"
    by (simp add: sample_sql_task_def default_task_ttl_def duration_from_secs_def)
  from db_task_roundtrip [OF this] show ?thesis by (rule conjunct1)
qed

subsection \<open>Writing\<close>

text \<open>
  C32: A scheduler's step on PostgreSQL is atomic: whichever statement of the transaction fails or
  loses its reply, either the new state is stored and every new task is queued, each task that the
  database already knew staying as it was, or the call reports an error and nothing has changed.
\<close>

theorem sql_schedule_atomic:
  assumes "sql_ok sv" and "list_all storable rs"
    and "sqlx_persist_scheduler_state_and_put_tasks postgres name data rs sv = (res, sv')"
  shows "sql_ok sv' \<and>
    (sql_tasks sv' = spec_put_all rs (sql_tasks sv) \<and>
       v_sched (tables_view (sv_tables sv')) = (v_sched (tables_view (sv_tables sv)))(name \<mapsto> data) \<or>
     (\<exists>e. res = Inl e) \<and> tables_view (sv_tables sv') = tables_view (sv_tables sv))"
proof -
  from sql_okD [OF assms(1)] have i: "a_inv server_abs sv" "rows_ok (v_tasks (a_abs server_abs sv))" by auto
  from pg.persist_effect [OF i(1) assms(3)] have "a_inv server_abs sv'" by simp
  with pg.refine_persist [OF i(1) assms(3) i(2) assms(2)] show ?thesis
    unfolding sql_ok_def sql_tasks_def sql_abs_rows by auto
qed

theorem sql_schedule_atomic_witness:
  "\<exists>res sv'. sqlx_persist_scheduler_state_and_put_tasks postgres ''s'' ''st'' [sample_sql_task]
      (sample_sql_server []) = (res, sv') \<and> sql_ok sv'"
proof -
  obtain res sv' where run: "sqlx_persist_scheduler_state_and_put_tasks postgres ''s'' ''st'' [sample_sql_task]
      (sample_sql_server []) = (res, sv')" by fastforce
  have "sql_ok (sample_sql_server [] :: 64 word sql_server)" by (rule sample_ok) simp_all
  from sql_schedule_atomic [OF this _ run] run show ?thesis by simp
qed

subsection \<open>Assigning\<close>

lemma dom_row_of: "dom (row_of key rows) = key ` set rows"
  using row_of_None_iff [of key rows] by (auto simp: dom_def)

lemma card_sql_rows: "finite (dom (sql_rows sv)) \<and> card (dom (sql_rows sv)) \<le> length (t_task (sv_tables sv))"
  unfolding sql_rows_def dom_row_of by (simp add: le_trans [OF card_image_le card_length])

text \<open>
  C33: Assigning tasks on PostgreSQL returns, after at most \<open>fuel + 1\<close> passes when the table has
  fewer than \<open>8 * 2 ^ fuel\<close> rows, and hands out the earliest due tasks among those that no other
  transaction has locked, in order of due time, all of them when they do not fill the batch: rows
  locked by other workers widen the scan.  Exactly the tasks handed out are marked as the
  worker's.  After an error some of these tasks may be marked all the same, though the caller
  does not get them.
\<close>

theorem sql_assign_earliest:
  assumes "sql_ok sv" and "length (t_task (sv_tables sv)) < 8 * 2 ^ fuel"
    and "length (t_task (sv_tables sv)) < 2 ^ 63" and "limit < 2 ^ 64"
  shows "\<exists>out sv' ds. sqlx_assign_tasks (Suc fuel) postgres (\<lambda>_. now) (\<lambda>_ s. s) grp w limit sv = Some (out, sv') \<and>
    sql_rows sv' = stage_rows w now (d_id ` set ds) (sql_rows sv) \<and>
    (case out of
       None \<Rightarrow> False
     | Some (Inr rs) \<Rightarrow> map Some rs = map to_task_record ds \<and>
         top_rows (\<lambda>d. is_due grp now d \<and> \<not> sv_row_locked sv (d_id d)) d_due limit (sql_rows sv) ds
     | Some (Inl e) \<Rightarrow> length ds \<le> limit \<and>
         least_rows (\<lambda>d. is_due grp now d \<and> \<not> sv_row_locked sv (d_id d)) d_due (sql_rows sv) ds)"
proof -
  from sql_okD [OF assms(1)] have i: "a_inv server_abs sv" "rows_ok (v_tasks (a_abs server_abs sv))" by auto
  from card_sql_rows [of sv] have fin: "finite (dom (v_tasks (a_abs server_abs sv)))"
    and card: "card (dom (v_tasks (a_abs server_abs sv))) \<le> length (t_task (sv_tables sv))"
    unfolding sql_abs_rows by auto
  from card assms(3) have "2 * card (dom (v_tasks (a_abs server_abs sv))) < 2 ^ 64" by simp
  from pg.assign_law [OF i fin this assms(4) _ le_less_trans [OF card assms(2)], of now grp w]
  obtain out sv' where run: "sqlx_assign_tasks (Suc fuel) postgres (\<lambda>_. now) (\<lambda>_ s. s) grp w limit sv = Some (out, sv')"
    and res: "pg.assign_result sv grp w now limit out sv'" by auto
  from res [unfolded pg.assign_result_def sql_abs_rows server_abs_sel(5), THEN conjunct2, THEN conjunct2]
  obtain ds where abs: "a_abs server_abs sv' = on_tasks (stage_rows w now (d_id ` set ds)) (a_abs server_abs sv)"
    and out: "case out of None \<Rightarrow> False
      | Some (Inl e) \<Rightarrow> length ds \<le> limit \<and>
          least_rows (\<lambda>d. is_due grp now d \<and> \<not> sv_row_locked sv (d_id d)) d_due (sql_rows sv) ds
      | Some (Inr rs) \<Rightarrow> rs = records_of ds \<and>
          top_rows (\<lambda>d. is_due grp now d \<and> \<not> sv_row_locked sv (d_id d)) d_due limit (sql_rows sv) ds"
    by (elim exE conjE)
  from arg_cong [OF abs, of v_tasks] have "sql_rows sv' = stage_rows w now (d_id ` set ds) (sql_rows sv)"
    by (simp add: sql_rows_def)
  moreover have "map Some (records_of ds) = map to_task_record ds"
    if "top_rows (\<lambda>d. is_due grp now d \<and> \<not> sv_row_locked sv (d_id d)) d_due limit (sql_rows sv) ds"
  proof -
    have "to_task_record d \<noteq> None" if "d \<in> set ds" for d
      using top_rows_in [OF \<open>top_rows _ _ _ _ _\<close> that] assms(1) unfolding sql_ok_def rows_ok_def by blast
    then show ?thesis by (auto simp del: not_None_eq)
  qed
  moreover have "case out of
       None \<Rightarrow> False
     | Some (Inr rs) \<Rightarrow> map Some rs = map to_task_record ds \<and>
         top_rows (\<lambda>d. is_due grp now d \<and> \<not> sv_row_locked sv (d_id d)) d_due limit (sql_rows sv) ds
     | Some (Inl e) \<Rightarrow> length ds \<le> limit \<and>
         least_rows (\<lambda>d. is_due grp now d \<and> \<not> sv_row_locked sv (d_id d)) d_due (sql_rows sv) ds"
  proof (cases out)
    case (Some x)
    with out calculation(2) show ?thesis by (cases x) simp_all
  qed (use out in simp)
  ultimately show ?thesis using run by blast
qed

theorem sql_assign_earliest_witness:
  "\<exists>out sv'. sqlx_assign_tasks 1 postgres (\<lambda>_. 9) (\<lambda>_ s. s) ''g'' ''w'' 3
     (sample_sql_server [from_task_record sample_sql_task]) = Some (out, sv') \<and> out \<noteq> None"
proof -
  have "length (t_task (sv_tables (sample_sql_server [from_task_record sample_sql_task] :: 64 word sql_server))) = 1"
    by (simp add: sample_sql_server_def)
  with sql_assign_earliest [OF sample_one_ok, of 0 3 9 "''g''" "''w''"] obtain out sv' ds where
    "sqlx_assign_tasks 1 postgres (\<lambda>_. 9) (\<lambda>_ s. s) ''g'' ''w'' 3
      (sample_sql_server [from_task_record sample_sql_task]) = Some (out, sv')" and "out \<noteq> None"
    by (auto split: option.splits simp del: not_None_eq)
  then show ?thesis by blast
qed



subsection \<open>Finishing and restoring\<close>

text \<open>
  After a success is recorded on PostgreSQL, asking for the result of the task returns the
  stored record with exactly these bytes; but a task the database no longer has is not saved, and
  the success, though reported, is lost.
\<close>

theorem sql_result_after_success:
  assumes "sql_ok sv" and "sqlx_succeed postgres now r b sv = (Inr (), sv1)"
    and "sqlx_get_result postgres (tr_id r) sv1 = (out, sv2)" and "\<forall>e. out \<noteq> Some (Inl (GR_Backend e))"
  shows "out = Some (case sql_tasks sv (tr_id r) of
      None \<Rightarrow> Inl GR_NotFound
    | Some (r0, _) \<Rightarrow> Inr (r0, b))"
proof -
  from sql_okD [OF assms(1)] have i: "a_inv server_abs sv" "rows_ok (v_tasks (a_abs server_abs sv))" by auto
  from pg.refine_succeed [OF i(1) assms(2) i(2)]
  have ok1: "rows_ok (v_tasks (a_abs server_abs sv1))"
    and v1: "task_view (v_tasks (a_abs server_abs sv1)) = spec_finish_stored (tr_id r) (Succeeded b) (sql_tasks sv)"
    unfolding sql_tasks_def sql_abs_rows by auto
  from pg.succeed_effect [OF i(1) assms(2)] have "a_inv server_abs sv1" by simp
  from pg.refine_result [OF this assms(3) ok1] assms(4)
  have "out = Some (spec_result (spec_finish_stored (tr_id r) (Succeeded b) (sql_tasks sv)) (tr_id r))"
    unfolding v1 by auto
  then show ?thesis by (auto simp: spec_result_def spec_finish_stored_def split: option.splits)
qed

theorem sql_result_after_success_witness:
  "fst (sqlx_get_result postgres ''t1''
     (snd (sqlx_succeed postgres 9 sample_sql_task ''ok'' (sample_sql_server [])))) = Some (Inl GR_NotFound)"
proof -
  let ?sv = "sample_sql_server [] :: 64 word sql_server"
  have ok: "sql_ok ?sv" by (rule sample_ok) simp_all
  have run: "sqlx_succeed postgres 9 sample_sql_task ''ok'' ?sv = (Inr (), snd (sqlx_succeed postgres 9 sample_sql_task ''ok'' ?sv))"
    by (simp add: sqlx_succeed_def sql_eval sample_sql_server_def)
  obtain out sv2 where get: "sqlx_get_result postgres (tr_id sample_sql_task)
      (snd (sqlx_succeed postgres 9 sample_sql_task ''ok'' ?sv)) = (out, sv2)" by fastforce
  have "\<forall>e. out \<noteq> Some (Inl (GR_Backend e))"
    using get by (auto simp: sqlx_get_result_def sqlx_succeed_def sql_eval sample_sql_server_def)
  from sql_result_after_success [OF ok run get this] get show ?thesis
    by (simp add: sql_tasks_def sql_rows_def task_view_def sample_sql_server_def no_tables_def)
qed

text \<open>
  C35: Restoring takes no notice of a result: when a worker finishes a task between the moment the
  restore service lists it and the moment it restores it, the restore puts the finished task back
  onto the queue, and the next claim hands it out, to be executed a second time, while its result
  is still the one recorded.
\<close>

theorem sql_restore_requeues_finished:
  assumes "sql_ok sv" and "sql_rows sv (si_task_id si) = Some d" and "d_done d \<noteq> None" and "d_due d < now"
    and "\<not> sv_row_locked sv (d_id d)"
    and "sqlx_restore postgres si sv = (Inr (), sv1)" and "claim_one postgres w (d_id d) now sv1 = (Inr out, sv2)"
  shows "(\<exists>d'. out = Some d' \<and> to_task_record d' = to_task_record d) \<and> sql_tasks sv2 (d_id d) = sql_tasks sv (d_id d)"
proof -
  from sql_okD [OF assms(1)] have i: "a_inv server_abs sv" "rows_ok (v_tasks (a_abs server_abs sv))" by auto
  from i(2) assms(2) have did: "d_id d = si_task_id si" unfolding sql_abs_rows by (simp add: rows_ok_def)
  from pg.restore_effect [OF i(1) assms(6)] have inv1: "a_inv server_abs sv1"
    and l1: "sv_row_locked sv1 = sv_row_locked sv"
    and v1: "a_abs server_abs sv1 = on_tasks (db_update (d_id d) (d_began_update (\<lambda>_. None))) (a_abs server_abs sv)"
    using did by auto
  from v1 assms(2) have row: "v_tasks (a_abs server_abs sv1) (d_id d) = Some (d\<lparr>d_began := None\<rparr>)"
    unfolding did by (simp add: db_update_def sql_rows_def)
  from pg.claim_oneD [OF inv1 assms(7)] l1 assms(5)
  have "claim_effect w (d_id d) now (sv_row_locked sv) out (a_abs server_abs sv1) (a_abs server_abs sv2)" by simp
  with row assms(5) have out: "out = Some (set_assignment w now (d\<lparr>d_began := None\<rparr>))"
    and v2: "a_abs server_abs sv2 = on_tasks (stage_rows w now {d_id d}) (a_abs server_abs sv1)"
    by (simp_all add: claim_effect_def)
  from v2 row have "sql_rows sv2 (d_id d) = Some (set_assignment w now (d\<lparr>d_began := None\<rparr>))"
    unfolding sql_abs_rows [symmetric] by (simp add: stage_rows_def)
  moreover have "db_status (set_assignment w now (d\<lparr>d_began := None\<rparr>)) = db_status d"
    using assms(3) by (auto simp: db_status_def set_assignment_def cong: option.case_cong)
  ultimately have "sql_tasks sv2 (d_id d) = sql_tasks sv (d_id d)"
    using assms(2) by (simp add: sql_tasks_def task_view_def did)
  with out show ?thesis by simp
qed

definition sample_finished :: db_task where
  "sample_finished = set_done 6 8 (Some ''ok'') None 99 (from_task_record sample_sql_task)"

theorem sql_restore_requeues_finished_witness:
  "\<exists>out. fst (claim_one postgres ''w2'' ''t1'' 9 (snd (sqlx_restore postgres
      \<lparr>si_worker_id = ''w1'', si_task_id = ''t1'', si_assigned_at = 6\<rparr> (sample_sql_server [sample_finished])))) =
    Inr (Some out)"
proof -
  let ?sv = "sample_sql_server [sample_finished] :: 64 word sql_server"
  let ?si = "\<lparr>si_worker_id = ''w1'', si_task_id = ''t1'', si_assigned_at = 6\<rparr>"
  have rec: "to_task_record sample_finished \<noteq> None" using sample_storable by (simp add: sample_finished_def storable_def)
  have id: "d_id sample_finished = ''t1''" by (simp add: sample_finished_def)
  have ok: "sql_ok ?sv" by (rule sample_ok) (use rec in auto)
  have row: "sql_rows ?sv (si_task_id ?si) = Some sample_finished"
    by (simp add: sql_rows_def sample_sql_server_def row_of_Cons id)
  have dn: "d_done sample_finished \<noteq> None" by (simp add: sample_finished_def)
  have due: "d_due sample_finished < 9"
    by (simp add: sample_finished_def set_done_def from_task_record_def sample_sql_task_def)
  have unlocked: "\<not> sv_row_locked ?sv (d_id sample_finished)" by (simp add: sample_sql_server_def)
  have r: "sqlx_restore postgres ?si ?sv = (Inr (), snd (sqlx_restore postgres ?si ?sv))"
    by (simp add: sqlx_restore_def sql_eval sample_sql_server_def)
  have "\<exists>out sv2. claim_one postgres ''w2'' (d_id sample_finished) 9 (snd (sqlx_restore postgres ?si ?sv)) = (Inr out, sv2)"
    unfolding id
    by (simp add: claim_one_def sqlx_restore_def sql_eval sample_sql_server_def id)
  then obtain out sv2 where c: "claim_one postgres ''w2'' (d_id sample_finished) 9
      (snd (sqlx_restore postgres ?si ?sv)) = (Inr out, sv2)" by blast
  from sql_restore_requeues_finished [OF ok row dn due unlocked r c] c id show ?thesis by auto
qed

end
