(* ===== verification/Sql_Cluster.thy ===== *)
theory Sql_Cluster imports Sql_Runs begin

section \<open>Events, locks and divergences of the SQL backends\<close>

text \<open>
  Delivery of control events over a table, the two kinds of session lock, and concrete runs in which
  an event, a task or a claim is lost.
\<close>

subsection \<open>Control events\<close>


definition sample_events_server :: "(f64 \<times> bytes) list \<Rightarrow> 64 word sql_server" where
  "sample_events_server es =
     (sample_sql_server [])\<lparr>sv_tables := no_tables\<lparr>t_control_event := es\<rparr>\<rparr>"

lemma sample_events_sel [simp]:
  "t_control_event (sv_tables (sample_events_server es)) = es"
  "tables_ok (sv_tables (sample_events_server es))" "sv_faults (sample_events_server es) = (\<lambda>_. None)"
  by (simp_all add: sample_events_server_def sample_sql_server_def no_tables_def tables_ok_def)


text \<open>Of two events sent at the same time, a subscriber can only ever receive the first.\<close>

lemma sql_event_lost:
  "\<exists>e. decode d2 = Some e \<and>
     receive_events n postgres decode 1 (sample_events_server [(2, d1), (2, d2)]) \<in> {[], [e1]}"
  if "decode d1 = Some e1" and "decode d2 = Some e2"
proof -
  have none: "receive_events m postgres decode 2 s = []"
    if "sv_tables s = sv_tables (sample_events_server [(2, d1), (2, d2)])" "sv_faults s = (\<lambda>_. None)" for m s
    using that
  proof (induction m arbitrary: s)
    case (Suc m)
    have "poll_events postgres decode 2 s = ((None, 2), s\<lparr>sv_count := Suc (sv_count s)\<rparr>)"
      using Suc.prems by (simp add: poll_events_def postgres_def pg_queries_def pg_fetch_events_since_def
          on_connection_def Let_def select_ordered_def)
    with Suc show ?case by simp
  qed simp
  have "poll_events postgres decode 1 (sample_events_server [(2, d1), (2, d2)]) =
      ((Some e1, 2), (sample_events_server [(2, d1), (2, d2)])\<lparr>sv_count := 1\<rparr>)"
    using that by (simp add: poll_events_def postgres_def pg_queries_def pg_fetch_events_since_def
        on_connection_def Let_def select_ordered_def sample_events_server_def sample_sql_server_def no_tables_def)
  with none [of "(sample_events_server [(2, d1), (2, d2)])\<lparr>sv_count := 1\<rparr>"] that show ?thesis
    by (cases n) simp_all
qed

subsection \<open>Locks\<close>

text \<open>
  C37: Both kinds of SQL lock exclude each other: from a state in which nobody holds a lock,
  however handles are created, acquired, released and dropped over pooled connections, and
  whichever replies get lost, two handles that both hold the PostgreSQL lock with the same key, or
  both hold the MySQL lock of the same name, are the same handle.
\<close>

theorem sql_locks_exclusive:
  "((lock_step pl_conn pg_lock_acquire pg_lock_release pg_lock_drop pg_lock_new)\<^sup>*\<^sup>* (Map.empty, psv0) (phs, psv) \<longrightarrow>
     phs h1 = Some l1 \<longrightarrow> phs h2 = Some l2 \<longrightarrow> pl_conn l1 \<noteq> None \<longrightarrow> pl_conn l2 \<noteq> None \<longrightarrow>
     pl_lock_key l1 = pl_lock_key l2 \<longrightarrow> h1 = h2) \<and>
   ((lock_step ml_conn mysql_lock_acquire mysql_lock_release mysql_lock_drop mysql_lock_new)\<^sup>*\<^sup>* (Map.empty, msv0) (mhs, msv) \<longrightarrow>
     mhs h1 = Some m1 \<longrightarrow> mhs h2 = Some m2 \<longrightarrow> ml_conn m1 \<noteq> None \<longrightarrow> ml_conn m2 \<noteq> None \<longrightarrow>
     ml_target m1 = ml_target m2 \<longrightarrow> h1 = h2)"
proof (intro conjI impI)
  assume "(lock_step pl_conn pg_lock_acquire pg_lock_release pg_lock_drop pg_lock_new)\<^sup>*\<^sup>* (Map.empty, psv0) (phs, psv)"
    and "phs h1 = Some l1" "phs h2 = Some l2" "pl_conn l1 \<noteq> None" "pl_conn l2 \<noteq> None" "pl_lock_key l1 = pl_lock_key l2"
  then show "h1 = h2" using pgl.lock_exclusive [of Map.empty psv0 phs psv h1 l1 h2 l2] by simp
next
  assume "(lock_step ml_conn mysql_lock_acquire mysql_lock_release mysql_lock_drop mysql_lock_new)\<^sup>*\<^sup>* (Map.empty, msv0) (mhs, msv)"
    and "mhs h1 = Some m1" "mhs h2 = Some m2" "ml_conn m1 \<noteq> None" "ml_conn m2 \<noteq> None" "ml_target m1 = ml_target m2"
  then show "h1 = h2" using myl.lock_exclusive [of Map.empty msv0 mhs msv h1 m1 h2 m2] by simp
qed

theorem sql_locks_exclusive_witness:
  "\<exists>hs sv l. (lock_step ml_conn mysql_lock_acquire mysql_lock_release mysql_lock_drop mysql_lock_new)\<^sup>*\<^sup>*
      (Map.empty, sample_sql_server []) (hs, sv) \<and> hs 0 = Some l \<and> ml_conn l \<noteq> None \<and>
    {h. \<exists>l'. hs h = Some l' \<and> ml_conn l' \<noteq> None \<and> ml_target l' = ml_target l} = {0}"
proof -
  let ?step = "lock_step ml_conn mysql_lock_acquire mysql_lock_release mysql_lock_drop mysql_lock_new"
  let ?sv = "sample_sql_server [] :: string sql_server"
  let ?l = "\<lparr>ml_target = ''s'', ml_conn = Some 7\<rparr>"
  have "?step (Map.empty, ?sv) (Map.empty(0 \<mapsto> mysql_lock_new ''s''), ?sv)" by (rule lock_step.create) simp
  moreover obtain sv' where acq: "mysql_lock_acquire (Some 7) (mysql_lock_new ''s'') ?sv = (True, ?l, sv')"
    by (simp add: mysql_lock_acquire_def mysql_lock_new_def on_session_def session_lock_def sample_sql_server_def)
  have "?step (Map.empty(0 \<mapsto> mysql_lock_new ''s''), ?sv) (Map.empty(0 \<mapsto> mysql_lock_new ''s'', 0 \<mapsto> ?l), sv')"
    by (rule lock_step.acquire [where l = "mysql_lock_new ''s''" and pooled = "Some 7" and ok = True])
      (auto simp: acq, simp add: mysql_lock_new_def split: if_splits)
  ultimately have run: "?step\<^sup>*\<^sup>* (Map.empty, ?sv) (Map.empty(0 \<mapsto> mysql_lock_new ''s'', 0 \<mapsto> ?l), sv')"
    by (meson converse_rtranclp_into_rtranclp r_into_rtranclp)
  let ?hs = "Map.empty((0::nat) \<mapsto> mysql_lock_new ''s'', 0 \<mapsto> ?l)"
  have hs0: "?hs 0 = Some ?l" and held: "ml_conn ?l \<noteq> None" by simp_all
  have "{h. \<exists>l'. ?hs h = Some l' \<and> ml_conn l' \<noteq> None \<and> ml_target l' = ml_target ?l} = {0}" (is "?H = {0}")
  proof (intro equalityI subsetI)
    fix h assume "h \<in> ?H"
    then obtain l' where l': "?hs h = Some l'" "ml_conn l' \<noteq> None" "ml_target l' = ml_target ?l" by blast
    have "h = 0"
      by (rule sql_locks_exclusive [THEN conjunct2, rule_format]) (rule run l' hs0 held)+
    then show "h \<in> {0}" by simp
  next
    fix h :: nat assume "h \<in> {0}"
    then have "h = 0" by simp
    with hs0 held show "h \<in> ?H" by simp
  qed
  with run hs0 held show ?thesis
    by (intro exI [of _ ?hs] exI [of _ sv'] exI [of _ ?l] conjI)
qed

subsection \<open>Divergences\<close>

text \<open>
  Under a collation that ignores case, as MySQL's default ones do, a task whose id differs from a
  stored one in case only is accepted and not stored.
\<close>

definition ignore_a :: "string \<Rightarrow> string" where
  "ignore_a s = map (\<lambda>c. if c = CHR ''A'' then CHR ''a'' else c) s"

definition sample_upper :: task_record where
  "sample_upper = sample_sql_task\<lparr>tr_info := (tr_info sample_sql_task)\<lparr>ti_id := ''A''\<rparr>\<rparr>"

definition sample_lower :: task_record where
  "sample_lower = sample_sql_task\<lparr>tr_info := (tr_info sample_sql_task)\<lparr>ti_id := ''a''\<rparr>\<rparr>"

lemma mysql_id_case_lost:
  "\<exists>sv. sqlx_put_tasks (mysql ignore_a) [sample_upper] (sample_sql_server [from_task_record sample_lower]) = (Inr (), sv) \<and>
     fst (sqlx_lookup_tasks (mysql ignore_a) [''A''] sv) = Some (Inr [None])"
  by (simp add: sqlx_put_tasks_def sqlx_lookup_tasks_def transaction_def mysql_def mysql_begin_def tx_begin_def
      mysql_commit_def tx_commit_def on_connection_def mysql_upsert_tasks_def in_transaction_def
      insert_all_or_ignore_def insert_or_ignore_def mysql_lookup_tasks_def sample_sql_server_def no_tables_def Let_def
      sample_upper_def sample_lower_def ignore_a_def)

text \<open>
  A statement that fails in the middle of \<open>assign_tasks\<close> makes the call fail while the tasks claimed
  before stay assigned to the worker, which never learns of them.
\<close>

lemma sql_assign_error_keeps_claims:
  "\<exists>sv. sqlx_assign_tasks 1 postgres (\<lambda>_. 9) (\<lambda>_ s. s) ''g'' ''w'' 2
      ((sample_sql_server [from_task_record sample_lower, from_task_record sample_sql_task])
        \<lparr>sv_faults := (\<lambda>n. if n = 5 then Some (''connection lost'', False) else None)\<rparr>) =
      Some (Some (Inl (OperationFailed ''connection lost'')), sv) \<and>
    sql_tasks sv ''a'' = Some (sample_lower, Staged ''w'' 9)"
proof -
  define a where "a = from_task_record sample_lower"
  define b where "b = from_task_record sample_sql_task"
  have a: "d_id a = ''a''" "d_group a = ''g''" "d_due a = 5" "d_began a = None" "d_done a = None"
    and b: "d_id b = ''t1''" "d_group b = ''g''" "d_due b = 5" "d_began b = None" "d_done b = None"
    by (simp_all add: a_def b_def from_task_record_def sample_lower_def sample_sql_task_def)
  have "to_task_record a = Some sample_lower"
    using storable_ttl [of sample_lower]
    by (simp add: a_def storable_def sample_lower_def sample_sql_task_def default_task_ttl_def duration_from_secs_def)
  then have r: "to_task_record (a\<lparr>d_assignee_worker_id := Some ''w'', d_began := Some 9\<rparr>) = Some sample_lower"
    using set_assignment_sel(5) [of "''w''" 9 a] by (simp add: set_assignment_def)
  show ?thesis unfolding a_def [symmetric] b_def [symmetric]
    using a b r
    by (simp add: sqlx_assign_tasks_def claim_one_def sql_eval sample_sql_server_def pg_list_due_task_ids_def
        query_limited_def limit_rows_def pg_limit_def select_ordered_def sql_tasks_def sql_rows_def
        task_view_def row_of_Cons db_status_def)
qed

end
