(* ===== verification/Redis.thy ===== *)
theory Redis imports Backend_Api "HOL-Library.Char_ord" begin

section \<open>The Redis backend (src/src/impls/redis.rs)\<close>

text \<open>
  The commands the backend sends, over a keyspace of strings, hashes and sorted sets, its two Lua
  scripts, its \<open>MULTI\<close> pipelines, and every operation of \<open>RedisBackend\<close> and \<open>RedisLock\<close> over a server
  that may fail a round trip or lose its reply.  serde_json and Lua's \<open>gsub\<close> are arguments.  A
  script that fails keeps what it has written so far; a pipeline executes all its commands
  whichever of them fail.  How the client turns a reply of several fields into a vector is an argument too.
  Limits of \<open>assign_tasks\<close> are below 2^53, where Lua's numbers are exact.
\<close>

subsection \<open>Keyspace and commands\<close>

datatype redis_value =
    RString bytes
  | RHash "(string \<times> bytes) list"
  | RZset "(string \<times> f64) list"

type_synonym keyspace = "string \<Rightarrow> redis_value option"
type_synonym 'a redis = "keyspace \<Rightarrow> (string + 'a) \<times> keyspace"

definition wrong_type :: string where
  "wrong_type = ''WRONGTYPE Operation against a key holding the wrong kind of value''"

definition redis_return :: "'a \<Rightarrow> 'a redis" where
  "redis_return a ks = (Inr a, ks)"

definition redis_bind :: "'a redis \<Rightarrow> ('a \<Rightarrow> 'b redis) \<Rightarrow> 'b redis" where
  "redis_bind m f ks = (case m ks of (Inl e, ks) \<Rightarrow> (Inl e, ks) | (Inr a, ks) \<Rightarrow> f a ks)"

definition hash_at :: "string \<Rightarrow> keyspace \<Rightarrow> string + (string \<times> bytes) list" where
  "hash_at k ks = (case ks k of None \<Rightarrow> Inr [] | Some (RHash h) \<Rightarrow> Inr h | Some _ \<Rightarrow> Inl wrong_type)"

definition zset_at :: "string \<Rightarrow> keyspace \<Rightarrow> string + (string \<times> f64) list" where
  "zset_at k ks = (case ks k of None \<Rightarrow> Inr [] | Some (RZset z) \<Rightarrow> Inr z | Some _ \<Rightarrow> Inl wrong_type)"

text \<open>A hash or sorted set that becomes empty is removed.\<close>

definition with_hash :: "string \<Rightarrow> ((string \<times> bytes) list \<Rightarrow> 'a \<times> (string \<times> bytes) list) \<Rightarrow> 'a redis" where
  "with_hash k f ks =
     (case hash_at k ks of
        Inl e \<Rightarrow> (Inl e, ks)
      | Inr h \<Rightarrow> (case f h of (a, h') \<Rightarrow> (Inr a, ks(k := (if h' = [] then None else Some (RHash h'))))))"

definition with_zset :: "string \<Rightarrow> ((string \<times> f64) list \<Rightarrow> 'a \<times> (string \<times> f64) list) \<Rightarrow> 'a redis" where
  "with_zset k f ks =
     (case zset_at k ks of
        Inl e \<Rightarrow> (Inl e, ks)
      | Inr z \<Rightarrow> (case f z of (a, z') \<Rightarrow> (Inr a, ks(k := (if z' = [] then None else Some (RZset z'))))))"

definition cmd_get :: "string \<Rightarrow> bytes option redis" where
  "cmd_get k ks =
     (case ks k of None \<Rightarrow> (Inr None, ks) | Some (RString b) \<Rightarrow> (Inr (Some b), ks) | Some _ \<Rightarrow> (Inl wrong_type, ks))"

definition cmd_set :: "string \<Rightarrow> bytes \<Rightarrow> unit redis" where
  "cmd_set k b ks = (Inr (), ks(k \<mapsto> RString b))"

definition cmd_del :: "string list \<Rightarrow> unit redis" where
  "cmd_del keys ks = (Inr (), ks |` (- set keys))"

definition cmd_hget :: "string \<Rightarrow> string \<Rightarrow> bytes option redis" where
  "cmd_hget k f ks = (case hash_at k ks of Inl e \<Rightarrow> (Inl e, ks) | Inr h \<Rightarrow> (Inr (map_of h f), ks))"

definition cmd_hmget :: "string \<Rightarrow> string list \<Rightarrow> bytes option list redis" where
  "cmd_hmget k fs ks = (case hash_at k ks of Inl e \<Rightarrow> (Inl e, ks) | Inr h \<Rightarrow> (Inr (map (map_of h) fs), ks))"

definition cmd_hset :: "string \<Rightarrow> string \<Rightarrow> bytes \<Rightarrow> unit redis" where
  "cmd_hset k f b = with_hash k (\<lambda>h. ((), AList.update f b h))"

definition cmd_hsetnx :: "string \<Rightarrow> string \<Rightarrow> bytes \<Rightarrow> bool redis" where
  "cmd_hsetnx k f b = with_hash k (\<lambda>h. if map_of h f = None then (True, AList.update f b h) else (False, h))"

definition cmd_hdel :: "string \<Rightarrow> string list \<Rightarrow> unit redis" where
  "cmd_hdel k fs = with_hash k (\<lambda>h. ((), filter (\<lambda>p. fst p \<notin> set fs) h))"

definition cmd_zadd :: "string \<Rightarrow> (f64 \<times> string) list \<Rightarrow> unit redis" where
  "cmd_zadd k items = with_zset k (\<lambda>z. ((), fold (\<lambda>(score, m). AList.update m score) items z))"

definition cmd_zrem :: "string \<Rightarrow> string list \<Rightarrow> unit redis" where
  "cmd_zrem k ms = with_zset k (\<lambda>z. ((), filter (\<lambda>p. fst p \<notin> set ms) z))"

text \<open>Sorted sets are read in the order of score and then member; ranges include both ends.\<close>

definition zordered :: "(string \<times> f64) list \<Rightarrow> (string \<times> f64) list" where
  "zordered z = sort_key (\<lambda>(m, score). (score, m)) z"

definition zrange_index :: "int \<Rightarrow> nat \<Rightarrow> int" where
  "zrange_index i n = (if i < 0 then i + int n else i)"

definition cmd_zrange :: "string \<Rightarrow> int \<Rightarrow> int \<Rightarrow> (string \<times> f64) list redis" where
  "cmd_zrange k start stop ks =
     (case zset_at k ks of
        Inl e \<Rightarrow> (Inl e, ks)
      | Inr z \<Rightarrow>
          (let a = nat (max 0 (zrange_index start (length z))); b = zrange_index stop (length z)
           in (Inr (if b < 0 then [] else drop a (take (Suc (nat b)) (zordered z))), ks)))"

definition cmd_zrangebyscore :: "string \<Rightarrow> f64 \<Rightarrow> f64 \<Rightarrow> int \<Rightarrow> string list redis" where
  "cmd_zrangebyscore k low high cnt ks =
     (case zset_at k ks of
        Inl e \<Rightarrow> (Inl e, ks)
      | Inr z \<Rightarrow>
          (let hits = map fst (filter (\<lambda>(m, score). low \<le> score \<and> score \<le> high) (zordered z))
           in (Inr (if cnt < 0 then hits else take (nat cnt) hits), ks)))"

text \<open>\<open>MULTI .. EXEC\<close>: every command runs; the first error is the pipeline's.\<close>

fun pipeline :: "unit redis list \<Rightarrow> unit redis" where
  "pipeline [] ks = (Inr (), ks)"
| "pipeline (c # cs) ks =
     (case c ks of (r, ks) \<Rightarrow>
       (case pipeline cs ks of (r', ks) \<Rightarrow> (case r of Inl e \<Rightarrow> (Inl e, ks) | Inr _ \<Rightarrow> (r', ks))))"

subsection \<open>The server\<close>

record redis_error =
  re_connection_refusal :: bool
  re_connection_dropped :: bool
  re_timeout :: bool
  re_io_error :: bool
  re_message :: string

definition server_error :: "string \<Rightarrow> redis_error" where
  "server_error m =
     \<lparr>re_connection_refusal = False, re_connection_dropped = False, re_timeout = False,
      re_io_error = False, re_message = m\<rparr>"

definition convert_redis_error :: "redis_error \<Rightarrow> backend_error" where
  "convert_redis_error e =
     (if re_connection_refusal e \<or> re_connection_dropped e \<or> re_timeout e \<or> re_io_error e
      then Unavailable (re_message e) else OperationFailed (re_message e))"

text \<open>
  \<open>rs_faults n\<close> is the error of the \<open>n\<close>-th round trip, with whether it was executed all the same;
  \<open>rs_expiry\<close> the time at which a key that was set with \<open>EX\<close> goes away.
\<close>

record redis_server =
  rs_keys :: keyspace
  rs_expiry :: "string \<Rightarrow> f64 option"
  rs_faults :: "nat \<Rightarrow> (redis_error \<times> bool) option"
  rs_count :: nat

definition round_trip :: "'a redis \<Rightarrow> redis_server \<Rightarrow> (redis_error + 'a) \<times> redis_server" where
  "round_trip m rs =
     (let rs' = rs\<lparr>rs_count := Suc (rs_count rs)\<rparr>; (r, ks) = m (rs_keys rs)
      in case rs_faults rs (rs_count rs) of
           None \<Rightarrow> (case r of Inl e \<Rightarrow> Inl (server_error e) | Inr a \<Rightarrow> Inr a, rs'\<lparr>rs_keys := ks\<rparr>)
         | Some (e, True) \<Rightarrow> (Inl e, rs'\<lparr>rs_keys := ks\<rparr>)
         | Some (e, False) \<Rightarrow> (Inl e, rs'))"

definition redis_call :: "'a redis \<Rightarrow> redis_server \<Rightarrow> (backend_error + 'a) \<times> redis_server" where
  "redis_call m rs =
     (case round_trip m rs of (Inl e, rs) \<Rightarrow> (Inl (convert_redis_error e), rs) | (Inr a, rs) \<Rightarrow> (Inr a, rs))"

subsection \<open>Keys\<close>

definition KEY_PREFIX :: string where
  "KEY_PREFIX = ''taskkit.backend''"

definition workers_key :: string where
  "workers_key = KEY_PREFIX @ ''.workers''"

definition queue_key :: "string \<Rightarrow> string" where
  "queue_key grp = KEY_PREFIX @ ''.'' @ grp @ ''.queue''"

definition data_store_key :: string where
  "data_store_key = KEY_PREFIX @ ''.data_store''"

definition task_info_key :: string where
  "task_info_key = KEY_PREFIX @ ''.task_info''"

definition stage_queue_key :: string where
  "stage_queue_key = KEY_PREFIX @ ''.stage_queue''"

definition stage_info_key :: string where
  "stage_info_key = KEY_PREFIX @ ''.stage_info''"

definition done_queue_key :: string where
  "done_queue_key = KEY_PREFIX @ ''.done_queue''"

definition disposable_queue_key :: string where
  "disposable_queue_key = KEY_PREFIX @ ''.disposable_queue''"

definition result_key :: string where
  "result_key = KEY_PREFIX @ ''.result''"

definition error_message_key :: string where
  "error_message_key = KEY_PREFIX @ ''.error_message''"

definition scheduler_data_key :: "scheduler_name \<Rightarrow> string" where
  "scheduler_data_key name = KEY_PREFIX @ ''.scheduler.'' @ name"

definition lock_key_prefix :: "string \<Rightarrow> string" where
  "lock_key_prefix target = KEY_PREFIX @ ''.locks.'' @ target"

subsection \<open>Codecs\<close>

record redis_codec =
  rc_encode_info :: "task_info \<Rightarrow> string + string"   \<comment> \<open>\<open>serde_json::to_string\<close>\<close>
  rc_decode_info :: "string \<Rightarrow> string + task_info"   \<comment> \<open>\<open>serde_json::from_str\<close>\<close>
  rc_encode_stage :: "stage_info \<Rightarrow> string"
  rc_decode_stage :: "string \<Rightarrow> stage_info option"
  rc_read_fields :: "bytes option list \<Rightarrow> bytes option list"   \<comment> \<open>the client's reading of a reply to \<open>HGET\<close> or \<open>HMGET\<close> as a \<open>Vec<Option<_>>\<close>\<close>
  rc_from_utf8 :: "bytes \<Rightarrow> string + string"         \<comment> \<open>\<open>str::from_utf8\<close>\<close>
  rc_gsub :: "string \<Rightarrow> string \<Rightarrow> string \<Rightarrow> string + string"   \<comment> \<open>Lua's \<open>string.gsub(s, pattern, repl)\<close>\<close>

definition encode_task_info :: "redis_codec \<Rightarrow> task_info \<Rightarrow> backend_error + string" where
  "encode_task_info C info = (case rc_encode_info C info of Inl e \<Rightarrow> Inl (Serialization e) | Inr s \<Rightarrow> Inr s)"

definition decode_task_info :: "redis_codec \<Rightarrow> string \<Rightarrow> backend_error + task_info" where
  "decode_task_info C s = (case rc_decode_info C s of Inl e \<Rightarrow> Inl (Deserialization e) | Inr i \<Rightarrow> Inr i)"

subsection \<open>Queueing\<close>

datatype on_known_id = Keep | Replace

record enqueue_arg =
  ea_queue_key :: string
  ea_task_id :: string
  ea_due :: f64
  ea_info :: string
  ea_data :: bytes

text \<open>One turn of the script's loop.\<close>

definition enqueue_one :: "on_known_id \<Rightarrow> enqueue_arg \<Rightarrow> unit redis" where
  "enqueue_one replace a =
     redis_bind (case replace of
         Keep \<Rightarrow> redis_return ()
       | Replace \<Rightarrow>
           redis_bind (cmd_zrem stage_queue_key [ea_task_id a])
             (\<lambda>_. redis_bind (cmd_hdel stage_info_key [ea_task_id a])
               (\<lambda>_. cmd_hdel task_info_key [ea_task_id a])))
     (\<lambda>_. redis_bind (cmd_hsetnx task_info_key (ea_task_id a) (ea_info a))
       (\<lambda>new. if new
              then redis_bind (cmd_hset data_store_key (ea_task_id a) (ea_data a))
                (\<lambda>_. cmd_zadd (ea_queue_key a) [(ea_due a, ea_task_id a)])
              else redis_return ()))"

fun enqueue_all :: "on_known_id \<Rightarrow> enqueue_arg list \<Rightarrow> unit redis" where
  "enqueue_all replace [] = redis_return ()"
| "enqueue_all replace (a # as) = redis_bind (enqueue_one replace a) (\<lambda>_. enqueue_all replace as)"

definition enqueue_script :: "(string \<times> bytes) option \<Rightarrow> on_known_id \<Rightarrow> enqueue_arg list \<Rightarrow> unit redis" where
  "enqueue_script state replace as =
     redis_bind (case state of None \<Rightarrow> redis_return () | Some (state_key, b) \<Rightarrow> cmd_set state_key b)
       (\<lambda>_. enqueue_all replace as)"

fun enqueue_args :: "redis_codec \<Rightarrow> task_record list \<Rightarrow> backend_error + enqueue_arg list" where
  "enqueue_args C [] = Inr []"
| "enqueue_args C (r # rs) =
     (case encode_task_info C (tr_info r) of
        Inl e \<Rightarrow> Inl e
      | Inr info \<Rightarrow>
          (case enqueue_args C rs of
             Inl e \<Rightarrow> Inl e
           | Inr as \<Rightarrow>
               Inr (\<lparr>ea_queue_key = queue_key (ti_group (tr_info r)), ea_task_id = tr_id r,
                     ea_due = ti_due (tr_info r), ea_info = info, ea_data = tr_data r\<rparr> # as)))"

definition enqueue_tasks ::
  "redis_codec \<Rightarrow> (scheduler_name \<times> bytes) option \<Rightarrow> task_record list \<Rightarrow> on_known_id \<Rightarrow> redis_server
   \<Rightarrow> (backend_error + unit) \<times> redis_server" where
  "enqueue_tasks C scheduler_state tasks on_known_id rs =
     (case enqueue_args C tasks of
        Inl e \<Rightarrow> (Inl e, rs)
      | Inr as \<Rightarrow>
          redis_call (enqueue_script (map_option (\<lambda>(name, b). (scheduler_data_key name, b)) scheduler_state)
            on_known_id as) rs)"

definition redis_put_tasks :: "redis_codec \<Rightarrow> task_record list \<Rightarrow> redis_server \<Rightarrow> (backend_error + unit) \<times> redis_server" where
  "redis_put_tasks C tasks rs = (if tasks = [] then (Inr (), rs) else enqueue_tasks C None tasks Keep rs)"

definition redis_retry_task :: "redis_codec \<Rightarrow> task_record \<Rightarrow> redis_server \<Rightarrow> (backend_error + unit) \<times> redis_server" where
  "redis_retry_task C r rs = enqueue_tasks C None [r] Replace rs"

definition redis_persist_scheduler_state_and_put_tasks ::
  "redis_codec \<Rightarrow> scheduler_name \<Rightarrow> bytes \<Rightarrow> task_record list \<Rightarrow> redis_server
   \<Rightarrow> (backend_error + unit) \<times> redis_server" where
  "redis_persist_scheduler_state_and_put_tasks C name data tasks rs =
     enqueue_tasks C (Some (name, data)) tasks Keep rs"

definition redis_get_scheduler_state ::
  "scheduler_name \<Rightarrow> redis_server \<Rightarrow> (backend_error + bytes option) \<times> redis_server" where
  "redis_get_scheduler_state name = redis_call (cmd_get (scheduler_data_key name))"

subsection \<open>Looking up\<close>

definition as_isize :: "nat \<Rightarrow> int" where
  "as_isize n = (if n < 2 ^ 63 then int n else int n - 2 ^ 64)"

definition redis_bind_call ::
  "(redis_server \<Rightarrow> (backend_error + 'a) \<times> redis_server) \<Rightarrow> ('a \<Rightarrow> redis_server \<Rightarrow> (backend_error + 'b) \<times> redis_server)
   \<Rightarrow> redis_server \<Rightarrow> (backend_error + 'b) \<times> redis_server" where
  "redis_bind_call m f rs = (case m rs of (Inl e, rs) \<Rightarrow> (Inl e, rs) | (Inr a, rs) \<Rightarrow> f a rs)"

definition lookup_pair :: "redis_codec \<Rightarrow> bytes option \<times> bytes option \<Rightarrow> task_record option" where
  "lookup_pair C p =
     (case p of
        (Some info_str, Some b) \<Rightarrow>
          (case decode_task_info C info_str of Inl e \<Rightarrow> None | Inr info \<Rightarrow> Some (new_record info b))
      | _ \<Rightarrow> None)"

definition redis_lookup_tasks ::
  "redis_codec \<Rightarrow> task_id list \<Rightarrow> redis_server \<Rightarrow> (backend_error + task_record option list) \<times> redis_server" where
  "redis_lookup_tasks C ids rs =
     (if ids = [] then (Inr [], rs)
      else redis_bind_call (redis_call (cmd_hmget task_info_key ids))
        (\<lambda>infos. redis_bind_call (redis_call (cmd_hmget data_store_key ids))
          (\<lambda>data rs. (Inr (map (\<lambda>(_, p). lookup_pair C p) (zip ids (zip (rc_read_fields C infos) (rc_read_fields C data)))), rs))) rs)"

definition redis_get_queued_tasks ::
  "redis_codec \<Rightarrow> string \<Rightarrow> nat \<Rightarrow> redis_server \<Rightarrow> (backend_error + task_record list) \<times> redis_server" where
  "redis_get_queued_tasks C grp limit =
     redis_bind_call (redis_call (cmd_zrange (queue_key grp) 0 (as_isize limit)))
       (\<lambda>items. let ids = map fst items
          in redis_bind_call (redis_lookup_tasks C ids)
               (\<lambda>tasks rs. (Inr (List.map_filter
                  (\<lambda>i. case find (\<lambda>t. map_option tr_id t = Some i) tasks of None \<Rightarrow> None | Some t \<Rightarrow> t) ids), rs)))"

subsection \<open>Assigning\<close>

text \<open>The loop of the script over the candidates; the result is the info and data of each task.\<close>

fun assign_candidates ::
  "redis_codec \<Rightarrow> string \<Rightarrow> f64 \<Rightarrow> string \<Rightarrow> (string \<times> f64) list \<Rightarrow> (bytes \<times> bytes) list redis" where
  "assign_candidates C queue now json_template [] = redis_return []"
| "assign_candidates C queue now json_template ((task_id, score) # cands) =
     (if now < score then redis_return []
      else redis_bind (cmd_hget task_info_key task_id)
        (\<lambda>info. redis_bind (cmd_hget data_store_key task_id)
          (\<lambda>data.
             case (info, data) of
               (Some info, Some data) \<Rightarrow>
                 redis_bind (cmd_zrem queue [task_id])
                   (\<lambda>_. redis_bind (cmd_zadd stage_queue_key [(score, task_id)])
                     (\<lambda>_. case rc_gsub C json_template ''${TASK_ID}'' task_id of
                            Inl e \<Rightarrow> (\<lambda>ks. (Inl e, ks))
                          | Inr stage_json \<Rightarrow>
                              redis_bind (cmd_hset stage_info_key task_id stage_json)
                                (\<lambda>_. redis_bind (assign_candidates C queue now json_template cands)
                                  (\<lambda>assigned. redis_return ((info, data) # assigned)))))
             | _ \<Rightarrow> assign_candidates C queue now json_template cands)))"

definition assign_script ::
  "redis_codec \<Rightarrow> string \<Rightarrow> f64 \<Rightarrow> string \<Rightarrow> nat \<Rightarrow> (bytes \<times> bytes) list redis" where
  "assign_script C queue now json_template limit =
     redis_bind (cmd_zrange queue 0 (int limit - 1)) (assign_candidates C queue now json_template)"

fun decode_pairs :: "redis_codec \<Rightarrow> (bytes \<times> bytes) list \<Rightarrow> backend_error + task_record list" where
  "decode_pairs C [] = Inr []"
| "decode_pairs C ((i, d) # ps) =
     (case rc_from_utf8 C i of
        Inl e \<Rightarrow> Inl (Deserialization e)
      | Inr s \<Rightarrow>
          (case decode_task_info C s of
             Inl e \<Rightarrow> Inl e
           | Inr info \<Rightarrow> (case decode_pairs C ps of Inl e \<Rightarrow> Inl e | Inr rs \<Rightarrow> Inr (new_record info d # rs))))"

definition redis_assign_tasks ::
  "redis_codec \<Rightarrow> timestamp \<Rightarrow> string \<Rightarrow> string \<Rightarrow> nat \<Rightarrow> redis_server
   \<Rightarrow> (backend_error + task_record list) \<times> redis_server" where
  "redis_assign_tasks C now grp worker_id limit rs =
     (if limit = 0 then (Inr [], rs)
      else let placeholder_stage =
                 \<lparr>si_worker_id = worker_id, si_task_id = ''${TASK_ID}'', si_assigned_at = now\<rparr>;
               placeholder_json = rc_encode_stage C placeholder_stage
           in redis_bind_call (redis_call (assign_script C (queue_key grp) now placeholder_json limit))
                (\<lambda>pairs rs. (decode_pairs C pairs, rs)) rs)"

subsection \<open>Discarding and finishing\<close>

fun add_grouped :: "task_group \<Rightarrow> task_id \<Rightarrow> (task_group \<times> task_id list) list \<Rightarrow> (task_group \<times> task_id list) list" where
  "add_grouped g i [] = [(g, [i])]"
| "add_grouped g i ((g', is) # gs) = (if g' = g then (g, is @ [i]) # gs else (g', is) # add_grouped g i gs)"

definition group_ids :: "(task_record option \<times> task_id) list \<Rightarrow> (task_group \<times> task_id list) list" where
  "group_ids ps =
     fold (\<lambda>(task, i) gs. case task of None \<Rightarrow> gs | Some r \<Rightarrow> add_grouped (ti_group (tr_info r)) i gs) ps []"

definition redis_discard_tasks ::
  "redis_codec \<Rightarrow> task_id list \<Rightarrow> redis_server \<Rightarrow> (backend_error + unit) \<times> redis_server" where
  "redis_discard_tasks C ids rs =
     (if ids = [] then (Inr (), rs)
      else redis_bind_call (redis_lookup_tasks C ids)
        (\<lambda>tasks. redis_call (pipeline
           (map (\<lambda>(grp, is). cmd_zrem (queue_key grp) is) (group_ids (zip tasks ids)) @
            [cmd_zrem stage_queue_key ids, cmd_hdel stage_info_key ids, cmd_hdel data_store_key ids,
             cmd_hdel task_info_key ids, cmd_zrem done_queue_key ids, cmd_zrem disposable_queue_key ids,
             cmd_hdel result_key ids, cmd_hdel error_message_key ids]))) rs)"

text \<open>What \<open>succeed\<close> and \<open>fail\<close> share; they differ in the hash the outcome goes to.\<close>

definition finish_pipeline :: "task_record \<Rightarrow> f64 \<Rightarrow> f64 \<Rightarrow> string \<Rightarrow> bytes \<Rightarrow> string \<Rightarrow> unit redis" where
  "finish_pipeline r dn disposable_at outcome_key outcome info =
     pipeline
       [cmd_zrem (queue_key (ti_group (tr_info r))) [tr_id r], cmd_zrem stage_queue_key [tr_id r],
        cmd_hdel stage_info_key [tr_id r], cmd_zadd done_queue_key [(dn, tr_id r)],
        cmd_zadd disposable_queue_key [(disposable_at, tr_id r)], cmd_hset outcome_key (tr_id r) outcome,
        cmd_hset data_store_key (tr_id r) (tr_data r), cmd_hset task_info_key (tr_id r) info]"

definition redis_succeed ::
  "redis_codec \<Rightarrow> timestamp \<Rightarrow> task_record \<Rightarrow> bytes \<Rightarrow> redis_server \<Rightarrow> (backend_error + unit) \<times> redis_server" where
  "redis_succeed C now r result rs =
     (let disposable_at = fadd now (duration_as_secs_f64 (ttl_as_duration (ti_ttl (tr_info r))))
      in case encode_task_info C (tr_info r) of
           Inl e \<Rightarrow> (Inl e, rs)
         | Inr info \<Rightarrow> redis_call (finish_pipeline r now disposable_at result_key result info) rs)"

definition redis_fail ::
  "redis_codec \<Rightarrow> timestamp \<Rightarrow> task_record \<Rightarrow> bytes \<Rightarrow> redis_server \<Rightarrow> (backend_error + unit) \<times> redis_server" where
  "redis_fail C now r error rs =
     (let disposable_at = fadd now (duration_as_secs_f64 (ttl_as_duration (ti_ttl (tr_info r))))
      in case encode_task_info C (tr_info r) of
           Inl e \<Rightarrow> (Inl e, rs)
         | Inr info \<Rightarrow> redis_call (finish_pipeline r now disposable_at error_message_key error info) rs)"

definition redis_get_result ::
  "redis_codec \<Rightarrow> task_id \<Rightarrow> redis_server \<Rightarrow> (get_result_error + (task_record \<times> bytes)) \<times> redis_server" where
  "redis_get_result C i rs =
     (case redis_lookup_tasks C [i] rs of
        (Inl e, rs) \<Rightarrow> (Inl (GR_Backend e), rs)
      | (Inr (Some r # _), rs) \<Rightarrow>
          (case redis_call (cmd_hget result_key i) rs of
             (Inl e, rs) \<Rightarrow> (Inl (GR_Backend e), rs)
           | (Inr (Some data), rs) \<Rightarrow> (Inr (r, data), rs)
           | (Inr None, rs) \<Rightarrow>
               (case redis_call (cmd_hget error_message_key i) rs of
                  (Inl e, rs) \<Rightarrow> (Inl (GR_Backend e), rs)
                | (Inr (Some err), rs) \<Rightarrow> (Inl (GR_Failed r (from_utf8_lossy err)), rs)
                | (Inr None, rs) \<Rightarrow> (Inl (GR_NoResult r), rs)))
      | (Inr _, rs) \<Rightarrow> (Inl GR_NotFound, rs))"

definition redis_get_done_task_ids ::
  "timestamp \<Rightarrow> timestamp option \<Rightarrow> timestamp option \<Rightarrow> nat \<Rightarrow> redis_server
   \<Rightarrow> (backend_error + task_id list) \<times> redis_server" where
  "redis_get_done_task_ids now since until limit =
     (let low = (case since of Some t \<Rightarrow> t | None \<Rightarrow> 0); high = (case until of Some t \<Rightarrow> t | None \<Rightarrow> now)
      in redis_call (cmd_zrangebyscore done_queue_key low high (as_isize limit)))"

definition redis_get_disposable_task_ids ::
  "timestamp \<Rightarrow> nat \<Rightarrow> redis_server \<Rightarrow> (backend_error + task_id list) \<times> redis_server" where
  "redis_get_disposable_task_ids now limit = redis_call (cmd_zrangebyscore disposable_queue_key 0 now (as_isize limit))"

subsection \<open>Staged tasks\<close>

definition redis_get_stage_info ::
  "redis_codec \<Rightarrow> nat \<Rightarrow> redis_server \<Rightarrow> (backend_error + stage_info list) \<times> redis_server" where
  "redis_get_stage_info C limit =
     redis_bind_call (redis_call (cmd_zrange stage_queue_key 0 (as_isize limit)))
       (\<lambda>items rs.
          if items = [] then (Inr [], rs)
          else redis_bind_call (redis_call (cmd_hmget stage_info_key (map fst items)))
                 (\<lambda>info_data rs. (Inr (List.map_filter (\<lambda>v. Option.bind v (rc_decode_stage C)) (rc_read_fields C info_data)), rs)) rs)"

definition redis_restore ::
  "redis_codec \<Rightarrow> stage_info \<Rightarrow> redis_server \<Rightarrow> (backend_error + unit) \<times> redis_server" where
  "redis_restore C si =
     redis_bind_call (redis_lookup_tasks C [si_task_id si])
       (\<lambda>tasks rs.
          case tasks of
            Some r # _ \<Rightarrow>
              redis_call (pipeline
                [cmd_zrem stage_queue_key [tr_id r], cmd_hdel stage_info_key [tr_id r],
                 cmd_zadd (queue_key (ti_group (tr_info r))) [(ti_due (tr_info r), tr_id r)]]) rs
          | _ \<Rightarrow> (Inr (), rs))"

subsection \<open>Workers\<close>

definition redis_set_worker_ttl ::
  "worker_id list \<Rightarrow> timestamp \<Rightarrow> redis_server \<Rightarrow> (backend_error + unit) \<times> redis_server" where
  "redis_set_worker_ttl worker_ids expires_at rs =
     (if worker_ids = [] then (Inr (), rs)
      else redis_call (cmd_zadd workers_key (map (\<lambda>w. (expires_at, w)) worker_ids)) rs)"

definition redis_get_workers :: "redis_server \<Rightarrow> (backend_error + (worker_id \<times> timestamp) list) \<times> redis_server" where
  "redis_get_workers = redis_call (cmd_zrange workers_key 0 (- 1))"

definition redis_purge_workers :: "worker_id list \<Rightarrow> redis_server \<Rightarrow> (backend_error + unit) \<times> redis_server" where
  "redis_purge_workers worker_ids rs =
     (if worker_ids = [] then (Inr (), rs) else redis_call (cmd_zrem workers_key worker_ids) rs)"

subsection \<open>Locks\<close>

text \<open>
  The server's clock reading \<open>t\<close> is an argument: keys whose time has come are gone.  \<open>fresh\<close> is the
  generated token.
\<close>

definition LOCK_TTL_SECS :: nat where
  "LOCK_TTL_SECS = 10"

record redis_lock =
  rl_key :: string
  rl_token :: "string option"

definition redis_lock_new :: "string \<Rightarrow> redis_lock" where
  "redis_lock_new key = \<lparr>rl_key = key, rl_token = None\<rparr>"

definition redis_get_lock :: "string \<Rightarrow> redis_server \<Rightarrow> (backend_error + redis_lock) \<times> redis_server" where
  "redis_get_lock target rs = (Inr (redis_lock_new (lock_key_prefix target)), rs)"

definition expire_keys :: "f64 \<Rightarrow> redis_server \<Rightarrow> redis_server" where
  "expire_keys t rs =
     (let gone = {k. case rs_expiry rs k of None \<Rightarrow> False | Some e \<Rightarrow> e \<le> t}
      in rs\<lparr>rs_keys := rs_keys rs |` (- gone), rs_expiry := rs_expiry rs |` (- gone)\<rparr>)"

text \<open>\<open>SET key token NX EX 10\<close>: \<^const>\<open>True\<close> when the key was not there.\<close>

definition set_nx_ex :: "f64 \<Rightarrow> string \<Rightarrow> string \<Rightarrow> redis_server \<Rightarrow> bool \<times> redis_server" where
  "set_nx_ex t key token rs =
     (if rs_keys rs key = None
      then (True, rs\<lparr>rs_keys := (rs_keys rs)(key \<mapsto> RString token),
                     rs_expiry := (rs_expiry rs)(key \<mapsto> t + of_nat LOCK_TTL_SECS)\<rparr>)
      else (False, rs))"

text \<open>The release script: delete the key when it holds the token.\<close>

definition del_if_token :: "string \<Rightarrow> string \<Rightarrow> redis_server \<Rightarrow> redis_server" where
  "del_if_token key token rs =
     (if rs_keys rs key = Some (RString token)
      then rs\<lparr>rs_keys := (rs_keys rs)(key := None), rs_expiry := (rs_expiry rs)(key := None)\<rparr> else rs)"

definition redis_lock_acquire ::
  "f64 \<Rightarrow> string \<Rightarrow> redis_lock \<Rightarrow> redis_server \<Rightarrow> bool \<times> redis_lock \<times> redis_server" where
  "redis_lock_acquire t fresh l rs =
     (let rs = expire_keys t rs; rs' = rs\<lparr>rs_count := Suc (rs_count rs)\<rparr>
      in case rs_faults rs (rs_count rs) of
           None \<Rightarrow>
             (case set_nx_ex t (rl_key l) fresh rs' of
                (True, rs) \<Rightarrow> (True, l\<lparr>rl_token := Some fresh\<rparr>, rs)
              | (False, rs) \<Rightarrow> (False, l, rs))
         | Some (e, executed) \<Rightarrow>
             (False, l, if executed then snd (set_nx_ex t (rl_key l) fresh rs') else rs'))"

definition redis_lock_release :: "f64 \<Rightarrow> redis_lock \<Rightarrow> redis_server \<Rightarrow> redis_lock \<times> redis_server" where
  "redis_lock_release t l rs =
     (case rl_token l of
        None \<Rightarrow> (l, rs)
      | Some token \<Rightarrow>
          (let rs = expire_keys t rs; rs' = rs\<lparr>rs_count := Suc (rs_count rs)\<rparr>
           in (l\<lparr>rl_token := None\<rparr>,
               case rs_faults rs (rs_count rs) of
                 Some (e, False) \<Rightarrow> rs'
               | _ \<Rightarrow> del_if_token (rl_key l) token rs')))"

subsection \<open>Events\<close>

definition EVENT_CHANNEL :: string where
  "EVENT_CHANNEL = ''taskkit.redis_bridge.channel''"

text \<open>
  One item of a subscriber's stream on the messages still to come: \<^const>\<open>None\<close> as a message is the
  end of the subscription, a message without payload ends the stream, one that does not decode is
  skipped.  The result is the event, or \<^const>\<open>None\<close> at the end, with the messages left.
\<close>

fun redis_next_event ::
  "(bytes \<Rightarrow> control_event option) \<Rightarrow> bytes option option list \<Rightarrow> (control_event option \<times> bytes option option list) option" where
  "redis_next_event decode [] = None"
| "redis_next_event decode (None # msgs) = Some (None, msgs)"
| "redis_next_event decode (Some None # msgs) = Some (None, msgs)"
| "redis_next_event decode (Some (Some payload) # msgs) =
     (case decode payload of
        Some event \<Rightarrow> Some (Some event, msgs)
      | None \<Rightarrow> redis_next_event decode msgs)"

text \<open>
  Subscribing connects and subscribes to the channel, each of which may fail; the stream then reads
  the messages of the subscription, \<open>fuel\<close> of its items.
\<close>

fun redis_events :: "(bytes \<Rightarrow> control_event option) \<Rightarrow> nat \<Rightarrow> bytes option option list \<Rightarrow> control_event list" where
  "redis_events decode 0 msgs = []"
| "redis_events decode (Suc fuel) msgs =
     (case redis_next_event decode msgs of
        Some (Some event, msgs) \<Rightarrow> event # redis_events decode fuel msgs
      | _ \<Rightarrow> [])"

definition redis_receive_events ::
  "redis_error option \<Rightarrow> (string \<Rightarrow> redis_error + bytes option option list) \<Rightarrow> (bytes \<Rightarrow> control_event option) \<Rightarrow> nat
   \<Rightarrow> receive_events_error + control_event list" where
  "redis_receive_events connect subscribe decode fuel =
     (case connect of
        Some e \<Rightarrow> Inl (ReceiveConnectionError (re_message e))
      | None \<Rightarrow>
          (case subscribe EVENT_CHANNEL of
             Inl e \<Rightarrow> Inl (ReceiveConnectionError (re_message e))
           | Inr msgs \<Rightarrow> Inr (redis_events decode fuel msgs)))"

text \<open>Messages that do not decode are skipped, everything else is delivered in order, to the end.\<close>

lemma redis_next_event_payloads:
  "redis_next_event decode (map (\<lambda>b. Some (Some b)) bs) =
     (case dropWhile (\<lambda>b. decode b = None) bs of
        [] \<Rightarrow> None
      | b # bs' \<Rightarrow> Some (decode b, map (\<lambda>b. Some (Some b)) bs'))"
  by (induction bs) (auto split: option.splits)

lemma redis_events_delivered:
  "length bs \<le> fuel \<Longrightarrow>
     redis_events decode fuel (map (\<lambda>b. Some (Some b)) bs) = List.map_filter decode bs"
proof (induction bs arbitrary: fuel)
  case Nil
  then show ?case by (cases fuel) simp_all
next
  case (Cons b bs)
  then obtain n where n: "fuel = Suc n" "length bs \<le> n" by (cases fuel) auto
  show ?case
  proof (cases "decode b")
    case None
    with Cons.IH [of fuel] n show ?thesis by (simp add: List.map_filter_simps)
  next
    case (Some ev)
    with Cons.IH [OF n(2)] n(1) show ?thesis by (simp add: List.map_filter_simps)
  qed
qed

text \<open>Sending connects, encodes and publishes; \<open>connect\<close> and \<open>publish\<close> give the error, if any.\<close>

definition redis_send_event ::
  "redis_error option \<Rightarrow> (control_event \<Rightarrow> string + bytes) \<Rightarrow> (string \<Rightarrow> bytes \<Rightarrow> 's \<Rightarrow> (redis_error + unit) \<times> 's)
   \<Rightarrow> control_event \<Rightarrow> 's \<Rightarrow> (send_event_error + unit) \<times> 's" where
  "redis_send_event connect encode publish event s =
     (case connect of
        Some e \<Rightarrow> (Inl (SendConnectionError (re_message e)), s)
      | None \<Rightarrow>
          (case encode event of
             Inl m \<Rightarrow> (Inl (SerializationError m), s)
           | Inr data \<Rightarrow>
               (case publish EVENT_CHANNEL data s of
                  (Inl e, s) \<Rightarrow> (Inl (SendFailed (re_message e)), s)
                | (Inr u, s) \<Rightarrow> (Inr u, s))))"

subsection \<open>Destroying\<close>

text \<open>\<open>KEYS prefix.*\<close>, then \<open>DEL\<close> of what was found; \<open>order\<close> lists the keys of a keyspace.\<close>

definition redis_destroy_all ::
  "(keyspace \<Rightarrow> string list) \<Rightarrow> redis_server \<Rightarrow> (backend_error + unit) \<times> redis_server" where
  "redis_destroy_all order =
     redis_bind_call
       (redis_call (\<lambda>ks. (Inr (filter (\<lambda>k. take (length KEY_PREFIX + 1) k = KEY_PREFIX @ ''.'') (order ks)), ks)))
       (\<lambda>keys rs. if keys \<noteq> [] then redis_call (cmd_del keys) rs else (Inr (), rs))"

end
