(* ===== verification/Redis_View.thy ===== *)
theory Redis_View imports Redis begin

section \<open>Reading the keyspace of Redis\<close>

text \<open>
  What the keys of the backend hold, as one record of finite maps, and a calculus that carries the
  commands, the bodies of scripts and the pipelines over to functions of that record:
  \<open>implements m F\<close> says that \<open>m\<close> succeeds on every well-typed keyspace and does to its view what
  \<open>F\<close> does.  Groups whose queue would fall on the key of a scheduler or a lock are left out.
\<close>

subsection \<open>Keys are apart\<close>

definition plain_group :: "string \<Rightarrow> bool" where
  "plain_group g \<longleftrightarrow> take 10 (g @ ''.'') \<noteq> ''scheduler.'' \<and> take 6 (g @ ''.'') \<noteq> ''locks.''"

lemmas fixed_key_defs = workers_key_def data_store_key_def task_info_key_def stage_queue_key_def stage_info_key_def
  done_queue_key_def disposable_queue_key_def result_key_def error_message_key_def

lemma fixed_keys_distinct:
  "distinct [workers_key, data_store_key, task_info_key, stage_queue_key, stage_info_key, done_queue_key,
     disposable_queue_key, result_key, error_message_key]"
  by (simp add: fixed_key_defs KEY_PREFIX_def)

lemmas fixed_keys_apart [simp] =
  fixed_keys_distinct [simplified distinct.simps list.set insert_iff empty_iff simp_thms de_Morgan_disj]

lemmas fixed_keys_apart_sym [simp] =
  fixed_keys_distinct [THEN distinct_rev [THEN iffD2], simplified rev.simps append.simps distinct.simps list.set
    insert_iff empty_iff simp_thms de_Morgan_disj]

lemma queue_key_inj [simp]: "queue_key g = queue_key g' \<longleftrightarrow> g = g'"
  by (simp add: queue_key_def)

lemma scheduler_data_key_inj [simp]: "scheduler_data_key n = scheduler_data_key n' \<longleftrightarrow> n = n'"
  by (simp add: scheduler_data_key_def)

definition fixed_keys :: "string set" where
  "fixed_keys = {workers_key, data_store_key, task_info_key, stage_queue_key, stage_info_key, done_queue_key,
     disposable_queue_key, result_key, error_message_key}"

lemma fixed_not_queue: "k \<in> fixed_keys \<Longrightarrow> queue_key g \<noteq> k"
proof
  assume k: "k \<in> fixed_keys" and "queue_key g = k"
  then have "rev (queue_key g) = rev k" by simp
  with k show False by (auto simp: fixed_keys_def fixed_key_defs queue_key_def KEY_PREFIX_def)
qed

lemma fixed_not_scheduler: "k \<in> fixed_keys \<Longrightarrow> scheduler_data_key n \<noteq> k"
  by (auto simp: fixed_keys_def fixed_key_defs scheduler_data_key_def KEY_PREFIX_def)

lemma queue_not_scheduler [simp]:
  assumes "plain_group g" shows "queue_key g \<noteq> scheduler_data_key n"
proof
  assume "queue_key g = scheduler_data_key n"
  then have e: "g @ ''.queue'' = ''scheduler.'' @ n" by (simp add: queue_key_def scheduler_data_key_def)
  have "take 10 (g @ ''.queue'') = take 10 (g @ ''.'')"
  proof (cases "length g < 9")
    case True
    from arg_cong [OF e, of "\<lambda>x. x ! length g"] have "(''scheduler.'' @ n) ! length g = CHR ''.''"
      by (simp add: nth_append)
    with True show ?thesis by (auto simp: nth_append less_Suc_eq numeral_eq_Suc)
  next
    case False
    then have "10 - length g = 0 \<or> 10 - length g = 1" by arith
    then show ?thesis by (auto simp: take_Cons')
  qed
  with e assms show False by (simp add: plain_group_def)
qed

lemma queue_not_fixed [simp]: "k \<in> fixed_keys \<Longrightarrow> k \<noteq> queue_key g" "k \<in> fixed_keys \<Longrightarrow> queue_key g \<noteq> k"
  using fixed_not_queue by metis+

lemma scheduler_not_fixed [simp]:
  "k \<in> fixed_keys \<Longrightarrow> k \<noteq> scheduler_data_key n" "k \<in> fixed_keys \<Longrightarrow> scheduler_data_key n \<noteq> k"
  using fixed_not_scheduler by metis+

lemma scheduler_not_queue [simp]: "plain_group g \<Longrightarrow> scheduler_data_key n \<noteq> queue_key g"
  using queue_not_scheduler by metis

lemma fixed_keys_members [simp]:
  "workers_key \<in> fixed_keys" "data_store_key \<in> fixed_keys" "task_info_key \<in> fixed_keys"
  "stage_queue_key \<in> fixed_keys" "stage_info_key \<in> fixed_keys" "done_queue_key \<in> fixed_keys"
  "disposable_queue_key \<in> fixed_keys" "result_key \<in> fixed_keys" "error_message_key \<in> fixed_keys"
  by (simp_all add: fixed_keys_def)

subsection \<open>The view\<close>

record redis_view =
  rd_info :: "string \<Rightarrow> bytes option"
  rd_data :: "string \<Rightarrow> bytes option"
  rd_stage_info :: "string \<Rightarrow> bytes option"
  rd_result :: "string \<Rightarrow> bytes option"
  rd_error :: "string \<Rightarrow> bytes option"
  rd_stage :: "string \<Rightarrow> f64 option"
  rd_done :: "string \<Rightarrow> f64 option"
  rd_disposable :: "string \<Rightarrow> f64 option"
  rd_workers :: "string \<Rightarrow> f64 option"
  rd_queue :: "string \<Rightarrow> string \<Rightarrow> f64 option"
  rd_sched :: "scheduler_name \<Rightarrow> bytes option"

definition hash_map :: "redis_value option \<Rightarrow> string \<Rightarrow> bytes option" where
  "hash_map x = (case x of Some (RHash h) \<Rightarrow> map_of h | _ \<Rightarrow> Map.empty)"

definition zset_map :: "redis_value option \<Rightarrow> string \<Rightarrow> f64 option" where
  "zset_map x = (case x of Some (RZset z) \<Rightarrow> map_of z | _ \<Rightarrow> Map.empty)"

definition string_value :: "redis_value option \<Rightarrow> bytes option" where
  "string_value x = (case x of Some (RString b) \<Rightarrow> Some b | _ \<Rightarrow> None)"

definition redis_view :: "keyspace \<Rightarrow> redis_view" where
  "redis_view ks =
     \<lparr>rd_info = hash_map (ks task_info_key), rd_data = hash_map (ks data_store_key),
      rd_stage_info = hash_map (ks stage_info_key), rd_result = hash_map (ks result_key),
      rd_error = hash_map (ks error_message_key), rd_stage = zset_map (ks stage_queue_key),
      rd_done = zset_map (ks done_queue_key), rd_disposable = zset_map (ks disposable_queue_key),
      rd_workers = zset_map (ks workers_key),
      rd_queue = (\<lambda>g. if plain_group g then zset_map (ks (queue_key g)) else Map.empty),
      rd_sched = (\<lambda>n. string_value (ks (scheduler_data_key n)))\<rparr>"

definition is_hash :: "redis_value option \<Rightarrow> bool" where
  "is_hash x \<longleftrightarrow> (case x of None \<Rightarrow> True | Some (RHash h) \<Rightarrow> distinct (map fst h) | _ \<Rightarrow> False)"

definition is_zset :: "redis_value option \<Rightarrow> bool" where
  "is_zset x \<longleftrightarrow> (case x of None \<Rightarrow> True | Some (RZset z) \<Rightarrow> distinct (map fst z) | _ \<Rightarrow> False)"

definition is_string :: "redis_value option \<Rightarrow> bool" where
  "is_string x \<longleftrightarrow> (case x of None \<Rightarrow> True | Some (RString b) \<Rightarrow> True | _ \<Rightarrow> False)"

definition redis_typed :: "keyspace \<Rightarrow> bool" where
  "redis_typed ks \<longleftrightarrow>
     is_hash (ks task_info_key) \<and> is_hash (ks data_store_key) \<and> is_hash (ks stage_info_key) \<and>
     is_hash (ks result_key) \<and> is_hash (ks error_message_key) \<and> is_zset (ks stage_queue_key) \<and>
     is_zset (ks done_queue_key) \<and> is_zset (ks disposable_queue_key) \<and> is_zset (ks workers_key) \<and>
     (\<forall>g. plain_group g \<longrightarrow> is_zset (ks (queue_key g))) \<and> (\<forall>n. is_string (ks (scheduler_data_key n)))"

subsection \<open>Commands as functions of the view\<close>

definition implements :: "'a redis \<Rightarrow> (redis_view \<Rightarrow> 'a \<times> redis_view) \<Rightarrow> bool" where
  "implements m F \<longleftrightarrow>
     (\<forall>ks. redis_typed ks \<longrightarrow>
        (\<exists>ks'. m ks = (Inr (fst (F (redis_view ks))), ks') \<and> redis_typed ks' \<and>
               redis_view ks' = snd (F (redis_view ks))))"

lemma implementsD:
  "implements m F \<Longrightarrow> redis_typed ks \<Longrightarrow>
   \<exists>ks'. m ks = (Inr (fst (F (redis_view ks))), ks') \<and> redis_typed ks' \<and> redis_view ks' = snd (F (redis_view ks))"
  by (simp add: implements_def)

lemma implements_return: "implements (redis_return a) (\<lambda>v. (a, v))"
  by (simp add: implements_def redis_return_def)

lemma implements_cong: "implements m F \<Longrightarrow> (\<And>v. F v = G v) \<Longrightarrow> implements m G"
  by (simp add: implements_def)

lemma implements_bind:
  assumes "implements m F" and "\<And>a. implements (f a) (G a)"
  shows "implements (redis_bind m f) (\<lambda>v. case F v of (a, v') \<Rightarrow> G a v')"
  unfolding implements_def
proof (intro allI impI)
  fix ks assume "redis_typed ks"
  from implementsD [OF assms(1) this] obtain ks1 where 1: "m ks = (Inr (fst (F (redis_view ks))), ks1)"
    "redis_typed ks1" "redis_view ks1 = snd (F (redis_view ks))" by blast
  from implementsD [OF assms(2) 1(2), of "fst (F (redis_view ks))"] 1
  show "\<exists>ks'. redis_bind m f ks = (Inr (fst (case F (redis_view ks) of (a, v') \<Rightarrow> G a v')), ks') \<and>
      redis_typed ks' \<and> redis_view ks' = snd (case F (redis_view ks) of (a, v') \<Rightarrow> G a v')"
    by (auto simp: redis_bind_def split_beta)
qed

lemma implements_pipeline_Nil: "implements (pipeline []) (\<lambda>v. ((), v))"
  by (simp add: implements_def)

lemma implements_pipeline_Cons:
  assumes "implements c (\<lambda>v. ((), F v))" and "implements (pipeline cs) (\<lambda>v. ((), G v))"
  shows "implements (pipeline (c # cs)) (\<lambda>v. ((), G (F v)))"
  unfolding implements_def
proof (intro allI impI)
  fix ks assume "redis_typed ks"
  from implementsD [OF assms(1) this] obtain ks1 where "c ks = (Inr (), ks1)"
    "redis_typed ks1" "redis_view ks1 = F (redis_view ks)" by auto
  with implementsD [OF assms(2), of ks1]
  show "\<exists>ks'. pipeline (c # cs) ks = (Inr (fst ((), G (F (redis_view ks)))), ks') \<and>
      redis_typed ks' \<and> redis_view ks' = snd ((), G (F (redis_view ks)))"
    by auto
qed

text \<open>Writing one key changes one field.\<close>

definition hash_value :: "(string \<times> bytes) list \<Rightarrow> redis_value option" where
  "hash_value h = (if h = [] then None else Some (RHash h))"

definition zset_value :: "(string \<times> f64) list \<Rightarrow> redis_value option" where
  "zset_value z = (if z = [] then None else Some (RZset z))"

lemma value_maps [simp]:
  "hash_map (hash_value h) = map_of h" "zset_map (zset_value z) = map_of z"
  "is_hash (hash_value h) \<longleftrightarrow> distinct (map fst h)" "is_zset (zset_value z) \<longleftrightarrow> distinct (map fst z)"
  "string_value (Some (RString b)) = Some b" "is_string (Some (RString b))"
  by (simp_all add: hash_map_def zset_map_def hash_value_def zset_value_def is_hash_def is_zset_def
      string_value_def is_string_def)

text \<open>
  A hash of the backend: its key, the field of the view and how the field is written.  Every
  command on it does to the field what it does to the map.
\<close>

locale hash_slot =
  fixes key :: string and get :: "redis_view \<Rightarrow> string \<Rightarrow> bytes option"
    and put :: "(string \<Rightarrow> bytes option) \<Rightarrow> redis_view \<Rightarrow> redis_view"
  assumes typed: "redis_typed ks \<Longrightarrow> is_hash (ks key)"
    and typed_write: "redis_typed ks \<Longrightarrow> distinct (map fst h) \<Longrightarrow> redis_typed (ks(key := hash_value h))"
    and get_view: "get (redis_view ks) = hash_map (ks key)"
    and view_write: "redis_view (ks(key := hash_value h)) = put (map_of h) (redis_view ks)"
begin

lemma hash_at_slot:
  assumes "redis_typed ks"
  obtains h where "hash_at key ks = Inr h" "distinct (map fst h)" "get (redis_view ks) = map_of h"
  using typed [OF assms] unfolding get_view
  by (cases "ks key") (auto simp: hash_at_def is_hash_def hash_map_def split: redis_value.splits)

lemma with_hash_slot:
  assumes "\<And>h. distinct (map fst h) \<Longrightarrow> f h = (a (map_of h), g h) \<and> distinct (map fst (g h)) \<and> map_of (g h) = u (map_of h)"
  shows "implements (with_hash key f) (\<lambda>v. (a (get v), put (u (get v)) v))"
  unfolding implements_def
proof (intro allI impI)
  fix ks assume t: "redis_typed ks"
  obtain h where h: "hash_at key ks = Inr h" "distinct (map fst h)" "get (redis_view ks) = map_of h"
    by (rule hash_at_slot [OF t])
  have w: "with_hash key f ks = (Inr (a (map_of h)), ks(key := hash_value (g h)))"
    using assms [OF h(2)] by (simp add: with_hash_def h(1) hash_value_def)
  from assms [OF h(2)] have "distinct (map fst (g h))" "map_of (g h) = u (map_of h)" by simp_all
  with w show "\<exists>ks'. with_hash key f ks =
      (Inr (fst (a (get (redis_view ks)), put (u (get (redis_view ks))) (redis_view ks))), ks') \<and> redis_typed ks' \<and>
      redis_view ks' = snd (a (get (redis_view ks)), put (u (get (redis_view ks))) (redis_view ks))"
    by (simp add: h(3) view_write typed_write [OF t])
qed

lemma hset: "implements (cmd_hset key i b) (\<lambda>v. ((), put ((get v)(i \<mapsto> b)) v))"
  unfolding cmd_hset_def
  by (rule with_hash_slot [where u = "\<lambda>m. m(i \<mapsto> b)" and g = "AList.update i b"])
    (simp add: distinct_update update_conv')

lemma hsetnx:
  "implements (cmd_hsetnx key i b)
     (\<lambda>v. (get v i = None, put (if get v i = None then (get v)(i \<mapsto> b) else get v) v))"
  unfolding cmd_hsetnx_def
proof (rule with_hash_slot [where u = "\<lambda>m. if m i = None then m(i \<mapsto> b) else m"
      and g = "\<lambda>h. if map_of h i = None then AList.update i b h else h" and a = "\<lambda>m. m i = None"])
  fix h :: "(string \<times> bytes) list" assume h: "distinct (map fst h)"
  let ?g = "if map_of h i = None then AList.update i b h else h"
  show "(if map_of h i = None then (True, AList.update i b h) else (False, h)) = (map_of h i = None, ?g) \<and>
      distinct (map fst ?g) \<and> map_of ?g = (if map_of h i = None then (map_of h)(i \<mapsto> b) else map_of h)"
    using distinct_update [OF h, of i b] h update_conv' [of i b h] by (cases "map_of h i") simp_all
qed

lemma hdel: "implements (cmd_hdel key is) (\<lambda>v. ((), put (get v |` (- set is)) v))"
  unfolding cmd_hdel_def
  by (rule with_hash_slot [where u = "\<lambda>m. m |` (- set is)" and g = "filter (\<lambda>p. fst p \<notin> set is)"])
    (auto simp: distinct_map_filter map_of_filter_key [where P = "\<lambda>i. i \<notin> set is"] restrict_map_def fun_eq_iff)

lemma hget: "implements (cmd_hget key i) (\<lambda>v. (get v i, v))"
  unfolding implements_def
proof (intro allI impI)
  fix ks assume t: "redis_typed ks"
  obtain h where "hash_at key ks = Inr h" "get (redis_view ks) = map_of h" by (rule hash_at_slot [OF t])
  with t show "\<exists>ks'. cmd_hget key i ks = (Inr (fst (get (redis_view ks) i, redis_view ks)), ks') \<and>
      redis_typed ks' \<and> redis_view ks' = snd (get (redis_view ks) i, redis_view ks)"
    by (simp add: cmd_hget_def)
qed

lemma hmget: "implements (cmd_hmget key is) (\<lambda>v. (map (get v) is, v))"
  unfolding implements_def
proof (intro allI impI)
  fix ks assume t: "redis_typed ks"
  obtain h where "hash_at key ks = Inr h" "get (redis_view ks) = map_of h" by (rule hash_at_slot [OF t])
  with t show "\<exists>ks'. cmd_hmget key is ks = (Inr (fst (map (get (redis_view ks)) is, redis_view ks)), ks') \<and>
      redis_typed ks' \<and> redis_view ks' = snd (map (get (redis_view ks)) is, redis_view ks)"
    by (simp add: cmd_hmget_def)
qed

end

text \<open>The same for sorted sets.\<close>

locale zset_slot =
  fixes key :: string and get :: "redis_view \<Rightarrow> string \<Rightarrow> f64 option"
    and put :: "(string \<Rightarrow> f64 option) \<Rightarrow> redis_view \<Rightarrow> redis_view"
  assumes typed: "redis_typed ks \<Longrightarrow> is_zset (ks key)"
    and typed_write: "redis_typed ks \<Longrightarrow> distinct (map fst z) \<Longrightarrow> redis_typed (ks(key := zset_value z))"
    and get_view: "get (redis_view ks) = zset_map (ks key)"
    and view_write: "redis_view (ks(key := zset_value z)) = put (map_of z) (redis_view ks)"
begin

lemma zset_at_slot:
  assumes "redis_typed ks"
  obtains z where "zset_at key ks = Inr z" "distinct (map fst z)" "get (redis_view ks) = map_of z"
  using typed [OF assms] unfolding get_view
  by (cases "ks key") (auto simp: zset_at_def is_zset_def zset_map_def split: redis_value.splits)

lemma with_zset_slot:
  assumes "\<And>z. distinct (map fst z) \<Longrightarrow> f z = ((), g z) \<and> distinct (map fst (g z)) \<and> map_of (g z) = u (map_of z)"
  shows "implements (with_zset key f) (\<lambda>v. ((), put (u (get v)) v))"
  unfolding implements_def
proof (intro allI impI)
  fix ks assume t: "redis_typed ks"
  obtain z where z: "zset_at key ks = Inr z" "distinct (map fst z)" "get (redis_view ks) = map_of z"
    by (rule zset_at_slot [OF t])
  have "with_zset key f ks = (Inr (), ks(key := zset_value (g z)))"
    using assms [OF z(2)] by (simp add: with_zset_def z(1) zset_value_def)
  with assms [OF z(2)] show "\<exists>ks'. with_zset key f ks =
      (Inr (fst ((), put (u (get (redis_view ks))) (redis_view ks))), ks') \<and> redis_typed ks' \<and>
      redis_view ks' = snd ((), put (u (get (redis_view ks))) (redis_view ks))"
    by (simp add: z(3) view_write typed_write [OF t])
qed

lemma zadd: "implements (cmd_zadd key [(s, i)]) (\<lambda>v. ((), put ((get v)(i \<mapsto> s)) v))"
  unfolding cmd_zadd_def
  by (rule with_zset_slot [where u = "\<lambda>m. m(i \<mapsto> s)" and g = "AList.update i s"])
    (simp add: distinct_update update_conv')

lemma zrem: "implements (cmd_zrem key is) (\<lambda>v. ((), put (get v |` (- set is)) v))"
  unfolding cmd_zrem_def
  by (rule with_zset_slot [where u = "\<lambda>m. m |` (- set is)" and g = "filter (\<lambda>p. fst p \<notin> set is)"])
    (auto simp: distinct_map_filter map_of_filter_key [where P = "\<lambda>i. i \<notin> set is"] restrict_map_def fun_eq_iff)

text \<open>The first \<open>n\<close> members in the order of their scores.\<close>

lemma zrange_head:
  assumes "redis_typed ks" and "0 < n"
  obtains z where "distinct (map fst z)" "get (redis_view ks) = map_of z"
    "cmd_zrange key 0 (int n - 1) ks = (Inr (take n (zordered z)), ks)"
proof -
  obtain z where z: "zset_at key ks = Inr z" "distinct (map fst z)" "get (redis_view ks) = map_of z"
    by (rule zset_at_slot [OF assms(1)])
  moreover have "Suc (nat (int n - 1)) = n" using assms(2) by simp
  ultimately show thesis using assms(2)
    by (intro that [of z]) (simp_all add: cmd_zrange_def zrange_index_def Let_def)
qed

end

interpretation info: hash_slot task_info_key rd_info "\<lambda>m. rd_info_update (\<lambda>_. m)"
  by unfold_locales (auto simp: redis_typed_def redis_view_def)

interpretation data: hash_slot data_store_key rd_data "\<lambda>m. rd_data_update (\<lambda>_. m)"
  by unfold_locales (auto simp: redis_typed_def redis_view_def)

interpretation stage_info: hash_slot stage_info_key rd_stage_info "\<lambda>m. rd_stage_info_update (\<lambda>_. m)"
  by unfold_locales (auto simp: redis_typed_def redis_view_def)

interpretation result: hash_slot result_key rd_result "\<lambda>m. rd_result_update (\<lambda>_. m)"
  by unfold_locales (auto simp: redis_typed_def redis_view_def)

interpretation error_message: hash_slot error_message_key rd_error "\<lambda>m. rd_error_update (\<lambda>_. m)"
  by unfold_locales (auto simp: redis_typed_def redis_view_def)

interpretation stage: zset_slot stage_queue_key rd_stage "\<lambda>m. rd_stage_update (\<lambda>_. m)"
  by unfold_locales (auto simp: redis_typed_def redis_view_def)

interpretation done_queue: zset_slot done_queue_key rd_done "\<lambda>m. rd_done_update (\<lambda>_. m)"
  by unfold_locales (auto simp: redis_typed_def redis_view_def)

interpretation disposable: zset_slot disposable_queue_key rd_disposable "\<lambda>m. rd_disposable_update (\<lambda>_. m)"
  by unfold_locales (auto simp: redis_typed_def redis_view_def)

interpretation workers: zset_slot workers_key rd_workers "\<lambda>m. rd_workers_update (\<lambda>_. m)"
  by unfold_locales (auto simp: redis_typed_def redis_view_def)

lemma queue_slot:
  assumes "plain_group g"
  shows "zset_slot (queue_key g) (\<lambda>v. rd_queue v g) (\<lambda>m v. v\<lparr>rd_queue := (rd_queue v)(g := m)\<rparr>)"
  using assms by unfold_locales (auto simp: redis_typed_def redis_view_def)

lemma set_scheduler_state:
  "implements (cmd_set (scheduler_data_key n) b) (\<lambda>v. ((), v\<lparr>rd_sched := (rd_sched v)(n \<mapsto> b)\<rparr>))"
proof -
  have "redis_typed ks \<Longrightarrow> redis_typed (ks(scheduler_data_key n \<mapsto> RString b))" for ks
    by (simp add: redis_typed_def)
  moreover have "redis_view (ks(scheduler_data_key n \<mapsto> RString b)) =
      redis_view ks\<lparr>rd_sched := (rd_sched (redis_view ks))(n \<mapsto> b)\<rparr>" for ks
    by (simp add: redis_view_def fun_eq_iff)
  ultimately show ?thesis by (simp add: implements_def cmd_set_def)
qed

lemma get_scheduler_state: "implements (cmd_get (scheduler_data_key n)) (\<lambda>v. (rd_sched v n, v))"
  unfolding implements_def cmd_get_def
  by (auto simp: redis_typed_def redis_view_def is_string_def string_value_def split: option.splits redis_value.splits)

subsection \<open>Round trips\<close>

text \<open>A round trip does what the commands do, or nothing; an error tells neither.\<close>

lemma redis_call_cases:
  assumes "m (rs_keys rs) = (Inr a, ks')" and "redis_call m rs = (res, rs')"
  shows "res = Inr a \<and> rs_keys rs' = ks' \<or> (\<exists>e. res = Inl e) \<and> (rs_keys rs' = rs_keys rs \<or> rs_keys rs' = ks')"
  using assms by (auto simp: redis_call_def round_trip_def Let_def split: option.splits bool.splits)

lemma redis_call_implements:
  assumes "implements m F" and "redis_typed (rs_keys rs)" and "redis_call m rs = (res, rs')"
  shows "redis_typed (rs_keys rs') \<and>
    (res = Inr (fst (F (redis_view (rs_keys rs)))) \<and> redis_view (rs_keys rs') = snd (F (redis_view (rs_keys rs))) \<or>
     (\<exists>e. res = Inl e) \<and> (redis_view (rs_keys rs') = redis_view (rs_keys rs) \<or>
       redis_view (rs_keys rs') = snd (F (redis_view (rs_keys rs)))))"
proof -
  from implementsD [OF assms(1,2)] obtain ks' where
    "m (rs_keys rs) = (Inr (fst (F (redis_view (rs_keys rs)))), ks')" "redis_typed ks'"
    "redis_view ks' = snd (F (redis_view (rs_keys rs)))" by blast
  with redis_call_cases [OF this(1) assms(3)] assms(2) show ?thesis by auto
qed

lemma zordered_facts:
  "mset (zordered z) = mset z" "sorted (map snd (zordered z))" "distinct (map fst (zordered z)) \<longleftrightarrow> distinct (map fst z)"
proof -
  have "sorted (map (\<lambda>(m, score). (score, m)) (zordered z))" by (simp add: zordered_def)
  from sorted_map_fst [OF this] show "sorted (map snd (zordered z))" by (simp add: split_beta)
  show "mset (zordered z) = mset z" "distinct (map fst (zordered z)) \<longleftrightarrow> distinct (map fst z)"
    by (simp_all add: zordered_def distinct_map_sort_key)
qed

end
