(* ===== verification/Redis_Contract.thy ===== *)
theory Redis_Contract imports Redis_View begin

section \<open>The Redis backend against the abstract store\<close>

text \<open>
  \<open>redis_holds C v tv\<close> relates the view of a keyspace to the abstract store of the backend
  interface: a waiting task is in its group's queue at its due time, an assigned one on the stage
  with its stage info, a finished one has its outcome.  Each operation keeps the relation and moves
  the abstract store as the contract says.
\<close>

subsection \<open>The relation\<close>

definition stored :: "redis_codec \<Rightarrow> redis_view \<Rightarrow> task_record \<Rightarrow> bool" where
  "stored C v r \<longleftrightarrow>
     (\<exists>s. rd_info v (tr_id r) = Some s \<and> rc_from_utf8 C s = Inr s \<and> rc_decode_info C s = Inr (tr_info r)) \<and>
     rd_data v (tr_id r) = Some (tr_data r)"

definition waiting :: "redis_view \<Rightarrow> task_id \<Rightarrow> (string \<times> f64) option \<Rightarrow> bool" where
  "waiting v i q \<longleftrightarrow> (\<forall>g. rd_queue v g i = (case q of None \<Rightarrow> None | Some (g', due) \<Rightarrow> if g = g' then Some due else None))"

fun status_holds :: "redis_codec \<Rightarrow> redis_view \<Rightarrow> task_record \<Rightarrow> status \<Rightarrow> bool" where
  "status_holds C v r Queued \<longleftrightarrow>
     waiting v (tr_id r) (Some (ti_group (tr_info r), ti_due (tr_info r))) \<and> rd_stage v (tr_id r) = None \<and>
     rd_result v (tr_id r) = None \<and> rd_error v (tr_id r) = None"
| "status_holds C v r (Staged w t) \<longleftrightarrow>
     waiting v (tr_id r) None \<and> rd_stage v (tr_id r) = Some (ti_due (tr_info r)) \<and>
     (\<exists>s. rd_stage_info v (tr_id r) = Some s \<and>
        rc_decode_stage C s = Some \<lparr>si_worker_id = w, si_task_id = tr_id r, si_assigned_at = t\<rparr>) \<and>
     rd_result v (tr_id r) = None \<and> rd_error v (tr_id r) = None"
| "status_holds C v r (Succeeded b) \<longleftrightarrow>
     waiting v (tr_id r) None \<and> rd_stage v (tr_id r) = None \<and> rd_result v (tr_id r) = Some b"
| "status_holds C v r (Failed m) \<longleftrightarrow>
     waiting v (tr_id r) None \<and> rd_stage v (tr_id r) = None \<and> rd_result v (tr_id r) = None \<and>
     (\<exists>e. rd_error v (tr_id r) = Some e \<and> from_utf8_lossy e = m)"

definition task_holds :: "redis_codec \<Rightarrow> redis_view \<Rightarrow> task_id \<Rightarrow> (task_record \<times> status) option \<Rightarrow> bool" where
  "task_holds C v i x \<longleftrightarrow>
     (case x of
        None \<Rightarrow> rd_info v i = None \<and> waiting v i None \<and> rd_stage v i = None \<and> rd_result v i = None \<and> rd_error v i = None
      | Some (r, st) \<Rightarrow> tr_id r = i \<and> plain_group (ti_group (tr_info r)) \<and> stored C v r \<and> status_holds C v r st)"

definition redis_holds :: "redis_codec \<Rightarrow> redis_view \<Rightarrow> tview \<Rightarrow> bool" where
  "redis_holds C v tv \<longleftrightarrow> (\<forall>i. task_holds C v i (tv i))"

definition same_at :: "task_id \<Rightarrow> redis_view \<Rightarrow> redis_view \<Rightarrow> bool" where
  "same_at i v v' \<longleftrightarrow>
     rd_info v' i = rd_info v i \<and> rd_data v' i = rd_data v i \<and> rd_stage_info v' i = rd_stage_info v i \<and>
     rd_result v' i = rd_result v i \<and> rd_error v' i = rd_error v i \<and> rd_stage v' i = rd_stage v i \<and>
     (\<forall>g. rd_queue v' g i = rd_queue v g i)"

lemma status_holds_cong: "same_at (tr_id r) v v' \<Longrightarrow> status_holds C v r st \<Longrightarrow> status_holds C v' r st"
  by (cases st) (auto simp: same_at_def waiting_def)

lemma task_holds_cong: "same_at i v v' \<Longrightarrow> task_holds C v i x \<Longrightarrow> task_holds C v' i x"
  by (auto simp: task_holds_def stored_def waiting_def same_at_def split: option.splits
      intro: status_holds_cong [unfolded same_at_def])

lemma holdsD: "redis_holds C v tv \<Longrightarrow> task_holds C v i (tv i)"
  by (simp add: redis_holds_def)

lemma holds_update:
  assumes "redis_holds C v tv" and "\<And>j. j \<noteq> i \<Longrightarrow> same_at j v v'" and "\<And>j. j \<noteq> i \<Longrightarrow> tv' j = tv j"
    and "task_holds C v' i (tv' i)"
  shows "redis_holds C v' tv'"
  unfolding redis_holds_def
proof
  fix j
  show "task_holds C v' j (tv' j)"
    using assms(4) task_holds_cong [OF assms(2) holdsD [OF assms(1)]] assms(3) by (cases "j = i") simp_all
qed

text \<open>A task the codec can carry: what is written of it is read back.\<close>

definition carried :: "redis_codec \<Rightarrow> task_record \<Rightarrow> bool" where
  "carried C r \<longleftrightarrow> plain_group (ti_group (tr_info r)) \<and>
     (\<forall>s. rc_encode_info C (tr_info r) = Inr s \<longrightarrow>
        rc_from_utf8 C s = Inr s \<and> rc_decode_info C s = Inr (tr_info r))"

subsection \<open>Queueing\<close>

definition enqueue_view :: "on_known_id \<Rightarrow> string \<Rightarrow> task_record \<Rightarrow> redis_view \<Rightarrow> redis_view" where
  "enqueue_view replace s r v =
     (let i = tr_id r; g = ti_group (tr_info r);
          v1 = (if replace = Replace
                then v\<lparr>rd_stage := (rd_stage v)(i := None), rd_stage_info := (rd_stage_info v)(i := None),
                       rd_info := (rd_info v)(i := None)\<rparr> else v)
      in if rd_info v1 i = None
         then v1\<lparr>rd_info := (rd_info v1)(i \<mapsto> s), rd_data := (rd_data v1)(i \<mapsto> tr_data r),
                 rd_queue := (rd_queue v1)(g := (rd_queue v1 g)(i \<mapsto> ti_due (tr_info r)))\<rparr>
         else v1)"

definition enqueue_arg_of :: "string \<Rightarrow> task_record \<Rightarrow> enqueue_arg" where
  "enqueue_arg_of s r =
     \<lparr>ea_queue_key = queue_key (ti_group (tr_info r)), ea_task_id = tr_id r, ea_due = ti_due (tr_info r),
      ea_info = s, ea_data = tr_data r\<rparr>"

lemma restrict_single: "m |` (- {i}) = m(i := None)"
  by (auto simp: restrict_map_def)

text \<open>The two halves of one turn of the submission script.\<close>

lemma forget_implements:
  "implements (redis_bind (cmd_zrem stage_queue_key [i])
       (\<lambda>_. redis_bind (cmd_hdel stage_info_key [i]) (\<lambda>_. cmd_hdel task_info_key [i])))
     (\<lambda>v. ((), v\<lparr>rd_stage := (rd_stage v)(i := None), rd_stage_info := (rd_stage_info v)(i := None),
                  rd_info := (rd_info v)(i := None)\<rparr>))"
  by (rule implements_cong, rule implements_bind, rule stage.zrem, rule implements_bind, rule stage_info.hdel,
      rule info.hdel) (simp add: restrict_single)

lemma add_implements:
  assumes "plain_group g"
  shows "implements (redis_bind (cmd_hsetnx task_info_key i s)
      (\<lambda>new. if new then redis_bind (cmd_hset data_store_key i d) (\<lambda>_. cmd_zadd (queue_key g) [(due, i)])
             else redis_return ()))
    (\<lambda>v. ((), if rd_info v i = None
               then v\<lparr>rd_info := (rd_info v)(i \<mapsto> s), rd_data := (rd_data v)(i \<mapsto> d),
                      rd_queue := (rd_queue v)(g := (rd_queue v g)(i \<mapsto> due))\<rparr> else v))"
proof -
  note zadd = zset_slot.zadd [OF queue_slot [OF assms]]
  have "implements (if new then redis_bind (cmd_hset data_store_key i d) (\<lambda>_. cmd_zadd (queue_key g) [(due, i)])
      else redis_return ())
    (\<lambda>v. ((), if new then v\<lparr>rd_data := (rd_data v)(i \<mapsto> d),
        rd_queue := (rd_queue v)(g := (rd_queue v g)(i \<mapsto> due))\<rparr> else v))" for new
  proof (cases new)
    case True
    have "implements (redis_bind (cmd_hset data_store_key i d) (\<lambda>_. cmd_zadd (queue_key g) [(due, i)]))
        (\<lambda>v. ((), v\<lparr>rd_data := (rd_data v)(i \<mapsto> d), rd_queue := (rd_queue v)(g := (rd_queue v g)(i \<mapsto> due))\<rparr>))"
      by (rule implements_cong, rule implements_bind, rule data.hset, rule zadd) simp
    with True show ?thesis by simp
  qed (simp add: implements_return)
  from implements_bind [OF info.hsetnx this] show ?thesis
    by (rule implements_cong) simp
qed

lemma enqueue_one_implements:
  assumes "plain_group (ti_group (tr_info r))"
  shows "implements (enqueue_one replace (enqueue_arg_of s r)) (\<lambda>v. ((), enqueue_view replace s r v))"
proof (cases replace)
  case Keep
  show ?thesis unfolding enqueue_one_def Keep enqueue_arg_of_def on_known_id.case enqueue_arg.select_convs
    by (rule implements_cong, rule implements_bind, rule implements_return, rule add_implements [OF assms])
      (simp add: enqueue_view_def Let_def)
next
  case Replace
  show ?thesis unfolding enqueue_one_def Replace enqueue_arg_of_def on_known_id.case enqueue_arg.select_convs
    by (rule implements_cong, rule implements_bind, rule forget_implements, rule add_implements [OF assms])
      (simp add: enqueue_view_def Let_def)
qed

text \<open>A submission keeps known tasks; a retry puts a task back that its worker gave up.\<close>

lemma enqueue_keep_holds:
  assumes h: "redis_holds C v tv" and r: "carried C r" and s: "rc_encode_info C (tr_info r) = Inr s"
  shows "redis_holds C (enqueue_view Keep s r v) (spec_put r tv)"
proof (cases "tv (tr_id r)")
  case None
  with holdsD [OF h, of "tr_id r"] have "rd_info v (tr_id r) = None" "waiting v (tr_id r) None"
    "rd_stage v (tr_id r) = None" "rd_result v (tr_id r) = None" "rd_error v (tr_id r) = None"
    by (simp_all add: task_holds_def)
  with r s None show ?thesis
    by (intro holds_update [OF h, of "tr_id r"])
      (auto simp: enqueue_view_def Let_def same_at_def spec_put_def task_holds_def stored_def carried_def waiting_def)
next
  case (Some x)
  with holdsD [OF h, of "tr_id r"] obtain y where "rd_info v (tr_id r) = Some y"
    by (auto simp: task_holds_def stored_def split: prod.splits)
  with Some h show ?thesis by (simp add: enqueue_view_def Let_def spec_put_same)
qed

lemma enqueue_replace_holds:
  assumes h: "redis_holds C v tv" and r: "carried C r" and s: "rc_encode_info C (tr_info r) = Inr s"
    and known: "case tv (tr_id r) of None \<Rightarrow> True
      | Some (r0, st) \<Rightarrow> ti_group (tr_info r0) = ti_group (tr_info r) \<and> (st = Queued \<or> (\<exists>w t. st = Staged w t))"
  shows "redis_holds C (enqueue_view Replace s r v) (spec_retry r tv)"
proof -
  from holdsD [OF h, of "tr_id r"] known have "rd_result v (tr_id r) = None \<and> rd_error v (tr_id r) = None \<and>
      (\<forall>g. g \<noteq> ti_group (tr_info r) \<longrightarrow> rd_queue v g (tr_id r) = None)"
    by (auto simp: task_holds_def waiting_def split: option.splits)
  with r s show ?thesis
    by (intro holds_update [OF h, of "tr_id r"])
      (auto simp: enqueue_view_def Let_def same_at_def spec_retry_def task_holds_def stored_def carried_def waiting_def)
qed

lemma enqueue_view_sched [simp]: "rd_sched (enqueue_view replace s r v) = rd_sched v"
  by (simp add: enqueue_view_def Let_def)

lemma enqueue_args_shape:
  "enqueue_args C rs = Inr as \<Longrightarrow> \<exists>srs. as = map (case_prod enqueue_arg_of) srs \<and> map snd srs = rs \<and>
     (\<forall>(s, r)\<in>set srs. rc_encode_info C (tr_info r) = Inr s)"
proof (induction rs arbitrary: as)
  case (Cons r rs)
  from Cons.prems obtain s as' where s: "rc_encode_info C (tr_info r) = Inr s" "enqueue_args C rs = Inr as'"
    "as = enqueue_arg_of s r # as'"
    by (auto simp: encode_task_info_def enqueue_arg_of_def split: sum.splits)
  from Cons.IH [OF s(2)] obtain srs where "as' = map (case_prod enqueue_arg_of) srs" "map snd srs = rs"
    "\<forall>(s, r)\<in>set srs. rc_encode_info C (tr_info r) = Inr s" by blast
  with s show ?case by (intro exI [of _ "(s, r) # srs"]) simp
qed simp

definition enqueue_all_view :: "on_known_id \<Rightarrow> (string \<times> task_record) list \<Rightarrow> redis_view \<Rightarrow> redis_view" where
  "enqueue_all_view replace srs v = fold (\<lambda>(s, r). enqueue_view replace s r) srs v"

lemma enqueue_all_implements:
  "(\<forall>(s, r)\<in>set srs. plain_group (ti_group (tr_info r))) \<Longrightarrow>
   implements (enqueue_all replace (map (case_prod enqueue_arg_of) srs)) (\<lambda>v. ((), enqueue_all_view replace srs v))"
proof (induction srs)
  case Nil
  show ?case by (simp add: enqueue_all_view_def implements_return)
next
  case (Cons p srs)
  obtain s r where p: "p = (s, r)" by (cases p)
  have "implements (redis_bind (enqueue_one replace (enqueue_arg_of s r))
      (\<lambda>_. enqueue_all replace (map (case_prod enqueue_arg_of) srs)))
    (\<lambda>v. ((), enqueue_all_view replace (p # srs) v))"
    by (rule implements_cong, rule implements_bind, rule enqueue_one_implements)
      (use Cons p in \<open>auto simp: enqueue_all_view_def\<close>)
  then show ?case by (simp add: p)
qed

lemma enqueue_script_implements:
  assumes "\<forall>(s, r)\<in>set srs. plain_group (ti_group (tr_info r))"
  shows "implements
    (enqueue_script (map_option (\<lambda>(name, b). (scheduler_data_key name, b)) state) replace (map (case_prod enqueue_arg_of) srs))
    (\<lambda>v. ((), enqueue_all_view replace srs
        (case state of None \<Rightarrow> v | Some (name, b) \<Rightarrow> v\<lparr>rd_sched := (rd_sched v)(name \<mapsto> b)\<rparr>)))"
proof (cases state)
  case None
  show ?thesis unfolding None enqueue_script_def option.map option.case
    by (rule implements_cong, rule implements_bind, rule implements_return, rule enqueue_all_implements [OF assms]) simp
next
  case (Some p)
  obtain name b where p: "p = (name, b)" by (cases p)
  show ?thesis unfolding Some p enqueue_script_def option.map option.case prod.case
    by (rule implements_cong, rule implements_bind, rule set_scheduler_state, rule enqueue_all_implements [OF assms]) simp
qed

lemma enqueue_all_view_sched [simp]: "rd_sched (enqueue_all_view replace srs v) = rd_sched v"
  unfolding enqueue_all_view_def by (induction srs arbitrary: v) auto

lemma enqueue_all_keep_holds:
  "redis_holds C v tv \<Longrightarrow> (\<forall>(s, r)\<in>set srs. carried C r \<and> rc_encode_info C (tr_info r) = Inr s) \<Longrightarrow>
   redis_holds C (enqueue_all_view Keep srs v) (spec_put_all (map snd srs) tv)"
proof (induction srs arbitrary: v tv)
  case (Cons p srs)
  obtain s r where p: "p = (s, r)" by (cases p)
  with Cons.prems have "redis_holds C (enqueue_view Keep s r v) (spec_put r tv)"
    by (intro enqueue_keep_holds) auto
  from Cons.IH [OF this] Cons.prems(2) p show ?case by (simp add: enqueue_all_view_def spec_put_all_def)
qed (simp add: enqueue_all_view_def spec_put_all_def)

lemma holds_sched [simp]: "redis_holds C (v\<lparr>rd_sched := s\<rparr>) tv \<longleftrightarrow> redis_holds C v tv"
proof -
  have "same_at i v (v\<lparr>rd_sched := s\<rparr>)" "same_at i (v\<lparr>rd_sched := s\<rparr>) v" for i by (simp_all add: same_at_def)
  then show ?thesis unfolding redis_holds_def using task_holds_cong by metis
qed

text \<open>A keyspace stands for a store of tasks and scheduler states.\<close>

definition redis_state :: "redis_codec \<Rightarrow> keyspace \<Rightarrow> tview \<times> (scheduler_name \<Rightarrow> bytes option) \<Rightarrow> bool" where
  "redis_state C ks st \<longleftrightarrow>
     redis_typed ks \<and> redis_holds C (redis_view ks) (fst st) \<and> rd_sched (redis_view ks) = snd st"

text \<open>The effect of one round trip whose commands keep the relation.\<close>

lemma redis_call_state:
  assumes "implements m F" and "redis_state C (rs_keys rs) st" and "redis_call m rs = (res, rs')"
    and "\<And>v. redis_holds C v (fst st) \<Longrightarrow> redis_holds C (snd (F v)) (fst st')"
    and "\<And>v. rd_sched v = snd st \<Longrightarrow> rd_sched (snd (F v)) = snd st'"
  shows "redis_state C (rs_keys rs') st' \<and> res = Inr (fst (F (redis_view (rs_keys rs)))) \<or>
    (\<exists>e. res = Inl e) \<and> (redis_state C (rs_keys rs') st \<or> redis_state C (rs_keys rs') st')"
proof -
  from assms(2) have t: "redis_typed (rs_keys rs)" "redis_holds C (redis_view (rs_keys rs)) (fst st)"
    "rd_sched (redis_view (rs_keys rs)) = snd st" by (simp_all add: redis_state_def)
  from redis_call_implements [OF assms(1) t(1) assms(3)] assms(4) [OF t(2)] assms(5) [OF t(3)] t
  show ?thesis unfolding redis_state_def by metis
qed

lemma enqueue_tasks_keep:
  assumes "redis_state C (rs_keys rs) (tv, sched)" and "\<forall>r\<in>set tasks. carried C r"
    and "enqueue_tasks C state tasks Keep rs = (res, rs')"
  defines "st' \<equiv> (spec_put_all tasks tv, case state of None \<Rightarrow> sched | Some (name, b) \<Rightarrow> sched(name \<mapsto> b))"
  shows "redis_state C (rs_keys rs') st' \<and> res = Inr () \<or>
    (\<exists>e. res = Inl e) \<and> (redis_state C (rs_keys rs') (tv, sched) \<or> redis_state C (rs_keys rs') st')"
proof (cases "enqueue_args C tasks")
  case (Inl e)
  with assms show ?thesis by (auto simp: enqueue_tasks_def)
next
  case (Inr as)
  from enqueue_args_shape [OF this] obtain srs where srs: "as = map (case_prod enqueue_arg_of) srs" "map snd srs = tasks"
    "\<forall>(s, r)\<in>set srs. rc_encode_info C (tr_info r) = Inr s" by blast
  have c: "\<forall>(s, r)\<in>set srs. carried C r \<and> rc_encode_info C (tr_info r) = Inr s"
    using assms(2) srs(2,3) by force
  then have "\<forall>(s, r)\<in>set srs. plain_group (ti_group (tr_info r))" by (auto simp: carried_def)
  note imp = enqueue_script_implements [OF this, of state Keep]
  from assms(3) Inr srs(1) have "redis_call (enqueue_script (map_option (\<lambda>(name, b). (scheduler_data_key name, b)) state)
      Keep (map (case_prod enqueue_arg_of) srs)) rs = (res, rs')" by (simp add: enqueue_tasks_def)
  note R = redis_call_state [OF imp assms(1) this, of st']
  show ?thesis
    by (rule R [simplified]) (use enqueue_all_keep_holds [OF _ c] srs(2) in \<open>auto simp: st'_def split: option.splits\<close>)
qed

subsection \<open>Reading\<close>

text \<open>
  The client reads a reply field by field, except that the empty reply to the only field of an
  \<open>HGET\<close> may come back as no field at all.
\<close>

definition reads_fields :: "redis_codec \<Rightarrow> bool" where
  "reads_fields C \<longleftrightarrow> (\<forall>xs. rc_read_fields C xs = xs \<or> xs = [None] \<and> rc_read_fields C xs = [])"

lemma redis_read:
  assumes "implements m (\<lambda>v. (f v, v))" and "redis_state C (rs_keys rs) st" and "redis_call m rs = (res, rs')"
  shows "redis_state C (rs_keys rs') st \<and> redis_view (rs_keys rs') = redis_view (rs_keys rs) \<and>
    (res = Inr (f (redis_view (rs_keys rs))) \<or> (\<exists>e. res = Inl e))"
  using redis_call_implements [OF assms(1) _ assms(3)] assms(2) by (auto simp: redis_state_def)

lemma lookup_pair_holds:
  assumes "redis_holds C v tv"
  shows "lookup_pair C (rd_info v i, rd_data v i) = map_option fst (tv i)"
  using holdsD [OF assms, of i]
  by (auto simp: lookup_pair_def task_holds_def stored_def decode_task_info_def new_record_def split: option.splits)

lemma lookup_absent:
  assumes "redis_holds C v tv" and "rd_info v i = None \<or> rd_data v i = None"
  shows "tv i = None"
  using holdsD [OF assms(1), of i] assms(2) by (auto simp: task_holds_def stored_def split: option.splits)

definition looked_up :: "tview \<Rightarrow> task_id list \<Rightarrow> task_record option list \<Rightarrow> bool" where
  "looked_up tv ids os \<longleftrightarrow>
     os = map (\<lambda>i. map_option fst (tv i)) ids \<or> (\<exists>i. ids = [i] \<and> tv i = None \<and> os = [])"

lemma reads_map:
  assumes "reads_fields C"
  shows "rc_read_fields C (map f ids) = map f ids \<or>
    (\<exists>i. ids = [i] \<and> f i = None \<and> rc_read_fields C (map f ids) = [])"
  using assms [unfolded reads_fields_def, THEN spec, of "map f ids"] by (auto simp: map_eq_Cons_conv)

lemma read_fields_zip:
  assumes "reads_fields C" and "redis_holds C v tv"
  shows "looked_up tv ids (map (\<lambda>(_, p). lookup_pair C p)
    (zip ids (zip (rc_read_fields C (map (rd_info v) ids)) (rc_read_fields C (map (rd_data v) ids)))))"
proof -
  have all: "map (\<lambda>(_, p). lookup_pair C p) (zip ids (zip (map (rd_info v) ids) (map (rd_data v) ids))) =
      map (\<lambda>i. map_option fst (tv i)) ids"
    by (induction ids) (simp_all add: lookup_pair_holds [OF assms(2)])
  from reads_map [OF assms(1), of "rd_info v" ids] reads_map [OF assms(1), of "rd_data v" ids]
  show ?thesis using all lookup_absent [OF assms(2)] unfolding looked_up_def by auto
qed

lemma lookup_tasks_state:
  assumes "redis_state C (rs_keys rs) st" and "reads_fields C" and "redis_lookup_tasks C ids rs = (res, rs')"
  shows "redis_state C (rs_keys rs') st \<and> redis_view (rs_keys rs') = redis_view (rs_keys rs) \<and>
    ((\<exists>os. res = Inr os \<and> looked_up (fst st) ids os) \<or> (\<exists>e. res = Inl e))"
proof (cases "ids = []")
  case True
  with assms show ?thesis by (auto simp: redis_lookup_tasks_def looked_up_def)
next
  case False
  let ?v = "redis_view (rs_keys rs)"
  obtain r1 rs1 where 1: "redis_call (cmd_hmget task_info_key ids) rs = (r1, rs1)" by fastforce
  note R1 = redis_read [OF info.hmget assms(1) 1]
  obtain r2 rs2 where 2: "redis_call (cmd_hmget data_store_key ids) rs1 = (r2, rs2)" by fastforce
  note R2 = redis_read [OF data.hmget conjunct1 [OF R1] 2]
  from assms(1) have h: "redis_holds C ?v (fst st)" by (simp add: redis_state_def)
  show ?thesis
  proof (cases r1)
    case (Inl e)
    with assms(3) False 1 R1 show ?thesis by (auto simp: redis_lookup_tasks_def redis_bind_call_def)
  next
    case (Inr infos)
    show ?thesis
    proof (cases r2)
      case Inl2: (Inl e)
      with assms(3) False 1 2 Inr R1 R2 show ?thesis by (auto simp: redis_lookup_tasks_def redis_bind_call_def)
    next
      case Inr2: (Inr ds)
      from R1 R2 Inr Inr2 have "infos = map (rd_info ?v) ids" "ds = map (rd_data ?v) ids" by auto
      with assms(3) False 1 2 Inr Inr2 R1 R2 read_fields_zip [OF assms(2) h, of ids] show ?thesis
        by (auto simp: redis_lookup_tasks_def redis_bind_call_def)
    qed
  qed
qed

subsection \<open>Assigning\<close>

text \<open>The stage info that the script makes of the template names the task.\<close>

definition stageable :: "redis_codec \<Rightarrow> worker_id \<Rightarrow> timestamp \<Rightarrow> task_id \<Rightarrow> string \<Rightarrow> bool" where
  "stageable C w now i s \<longleftrightarrow>
     rc_gsub C (rc_encode_stage C \<lparr>si_worker_id = w, si_task_id = ''${TASK_ID}'', si_assigned_at = now\<rparr>)
       ''${TASK_ID}'' i = Inr s \<and>
     rc_decode_stage C s = Some \<lparr>si_worker_id = w, si_task_id = i, si_assigned_at = now\<rparr>"

definition claim_view :: "string \<Rightarrow> string \<Rightarrow> f64 \<Rightarrow> string \<Rightarrow> redis_view \<Rightarrow> redis_view" where
  "claim_view g i score s v =
     v\<lparr>rd_queue := (rd_queue v)(g := (rd_queue v g)(i := None)), rd_stage := (rd_stage v)(i \<mapsto> score),
       rd_stage_info := (rd_stage_info v)(i \<mapsto> s)\<rparr>"

fun assign_view ::
  "(string \<Rightarrow> string) \<Rightarrow> string \<Rightarrow> f64 \<Rightarrow> (string \<times> f64) list \<Rightarrow> redis_view \<Rightarrow> (bytes \<times> bytes) list \<times> redis_view" where
  "assign_view sj g now [] v = ([], v)"
| "assign_view sj g now ((i, score) # cands) v =
     (if now < score then ([], v)
      else case (rd_info v i, rd_data v i) of
             (Some a, Some b) \<Rightarrow>
               (case assign_view sj g now cands (claim_view g i score (sj i) v) of (ps, v') \<Rightarrow> ((a, b) # ps, v'))
           | _ \<Rightarrow> assign_view sj g now cands v)"

lemma claim_implements:
  assumes "plain_group g" and "implements m F"
  shows "implements (redis_bind (cmd_zrem (queue_key g) [i]) (\<lambda>_. redis_bind (cmd_zadd stage_queue_key [(score, i)])
      (\<lambda>_. redis_bind (cmd_hset stage_info_key i s) (\<lambda>_. redis_bind m (\<lambda>ps. redis_return (x # ps))))))
    (\<lambda>v. case F (claim_view g i score s v) of (ps, v') \<Rightarrow> (x # ps, v'))"
  by (rule implements_cong, rule implements_bind, rule zset_slot.zrem [OF queue_slot [OF assms(1)]],
      rule implements_bind, rule stage.zadd, rule implements_bind, rule stage_info.hset,
      rule implements_bind, rule assms(2), rule implements_return)
    (simp add: claim_view_def restrict_single)

lemma assign_implements:
  assumes "plain_group g"
  shows "(\<And>i. i \<in> fst ` set cands \<Longrightarrow> rc_gsub C tmpl ''${TASK_ID}'' i = Inr (sj i)) \<Longrightarrow>
   implements (assign_candidates C (queue_key g) now tmpl cands) (assign_view sj g now cands)"
proof (induction cands)
  case Nil
  show ?case by (rule implements_cong, simp, rule implements_return) simp
next
  case (Cons p cands)
  obtain i score where p: "p = (i, score)" by (cases p)
  have IH: "implements (assign_candidates C (queue_key g) now tmpl cands) (assign_view sj g now cands)"
    using Cons by simp
  have s: "rc_gsub C tmpl ''${TASK_ID}'' i = Inr (sj i)" using Cons.prems p by simp
  show ?case
  proof (cases "now < score")
    case True
    then show ?thesis by (simp add: p implements_def redis_return_def)
  next
    case False
    have body: "implements
        (case (a, b) of
           (Some info, Some data) \<Rightarrow>
             redis_bind (cmd_zrem (queue_key g) [i]) (\<lambda>_. redis_bind (cmd_zadd stage_queue_key [(score, i)])
               (\<lambda>_. case rc_gsub C tmpl ''${TASK_ID}'' i of
                  Inl e \<Rightarrow> (\<lambda>ks. (Inl e, ks))
                | Inr stage_json \<Rightarrow> redis_bind (cmd_hset stage_info_key i stage_json)
                    (\<lambda>_. redis_bind (assign_candidates C (queue_key g) now tmpl cands)
                      (\<lambda>assigned. redis_return ((info, data) # assigned)))))
         | _ \<Rightarrow> assign_candidates C (queue_key g) now tmpl cands)
        (\<lambda>v. case (a, b) of
           (Some a, Some b) \<Rightarrow>
             (case assign_view sj g now cands (claim_view g i score (sj i) v) of (ps, v') \<Rightarrow> ((a, b) # ps, v'))
         | _ \<Rightarrow> assign_view sj g now cands v)" for a b
      using IH claim_implements [OF assms IH] by (cases a; cases b) (simp_all add: s)
    show ?thesis unfolding p assign_candidates.simps using False
      by (simp only: if_False) (rule implements_cong, rule implements_bind, rule info.hget, rule implements_bind,
          rule data.hget, rule body, simp)
  qed
qed

lemma assign_view_holds:
  assumes "redis_holds C v tv" and "distinct (map tr_id rs)" and "plain_group g"
    and "\<And>r. r \<in> set rs \<Longrightarrow> tv (tr_id r) = Some (r, Queued) \<and> ti_group (tr_info r) = g \<and> stageable C w now (tr_id r) (sj (tr_id r))"
  shows "case assign_view sj g now (map (\<lambda>r. (tr_id r, ti_due (tr_info r))) rs) v of (ps, v') \<Rightarrow>
    decode_pairs C ps = Inr (takeWhile (\<lambda>r. ti_due (tr_info r) \<le> now) rs) \<and> rd_sched v' = rd_sched v \<and>
    redis_holds C v' (spec_assign now w (takeWhile (\<lambda>r. ti_due (tr_info r) \<le> now) rs) tv)"
  using assms
proof (induction rs arbitrary: v tv)
  case (Cons r rs)
  let ?i = "tr_id r"
  show ?case
  proof (cases "now < ti_due (tr_info r)")
    case True
    with Cons.prems(1) show ?thesis by (simp add: spec_assign_def)
  next
    case False
    have r: "tv ?i = Some (r, Queued)" "ti_group (tr_info r) = g" "stageable C w now ?i (sj ?i)"
      using Cons.prems(4) [of r] by simp_all
    have th: "task_holds C v ?i (Some (r, Queued))" using holdsD [OF Cons.prems(1), of ?i] r(1) by simp
    then obtain s where s: "rd_info v ?i = Some s" "rc_from_utf8 C s = Inr s" "rc_decode_info C s = Inr (tr_info r)"
      "rd_data v ?i = Some (tr_data r)" by (auto simp: task_holds_def stored_def)
    let ?v = "claim_view g ?i (ti_due (tr_info r)) (sj ?i) v" and ?tv = "tv(?i \<mapsto> (r, Staged w now))"
    have h: "redis_holds C ?v ?tv"
      using th r(2,3) by (intro holds_update [OF Cons.prems(1), of ?i])
        (auto simp: claim_view_def same_at_def task_holds_def stored_def waiting_def stageable_def)
    have "\<And>q. q \<in> set rs \<Longrightarrow> ?tv (tr_id q) = Some (q, Queued) \<and> ti_group (tr_info q) = g \<and>
        stageable C w now (tr_id q) (sj (tr_id q))"
      using Cons.prems(2,4) by (auto simp: image_iff)
    then have "case assign_view sj g now (map (\<lambda>r. (tr_id r, ti_due (tr_info r))) rs) ?v of (ps, v') \<Rightarrow>
        decode_pairs C ps = Inr (takeWhile (\<lambda>r. ti_due (tr_info r) \<le> now) rs) \<and> rd_sched v' = rd_sched ?v \<and>
        redis_holds C v' (spec_assign now w (takeWhile (\<lambda>r. ti_due (tr_info r) \<le> now) rs) ?tv)"
      by (intro Cons.IH [OF h _ Cons.prems(3)]) (use Cons.prems(2) in simp_all)
    with Cons.prems(2) False s show ?thesis
      by (simp add: decode_task_info_def spec_assign_def new_record_def claim_view_def split: prod.splits)
  qed
qed (simp add: spec_assign_def)

text \<open>The due ones among the first of a queue in due order are what the contract asks for.\<close>

lemma takeWhile_sorted:
  "sorted (map f xs) \<Longrightarrow> takeWhile (\<lambda>x. f x \<le> n) xs = filter (\<lambda>x. f x \<le> n) xs"
proof (induction xs)
  case (Cons x xs)
  then show ?case by (auto simp: filter_empty_conv eq_commute [of "[]"]) (meson order_trans)
qed simp

lemma good_batch_sorted:
  assumes srt: "sorted (map (\<lambda>r. ti_due (tr_info r)) all)" and dist: "distinct (map tr_id all)"
    and cl: "\<And>q. claimable now g tv q \<longleftrightarrow> q \<in> set all \<and> ti_due (tr_info q) \<le> now"
  shows "good_batch now g limit tv (takeWhile (\<lambda>r. ti_due (tr_info r) \<le> now) (take limit all))"
proof -
  let ?due = "\<lambda>r. ti_due (tr_info r)"
  have srt': "sorted (map ?due (take limit all))" using srt by (simp add: take_map [symmetric] sorted_wrt_take)
  let ?b = "filter (\<lambda>r. ?due r \<le> now) (take limit all)"
  have b: "takeWhile (\<lambda>r. ?due r \<le> now) (take limit all) = ?b" by (rule takeWhile_sorted [OF srt'])
  have sub: "set ?b \<subseteq> set all" by (auto dest: in_set_takeD)
  have late: "q \<in> set (drop limit all)" if "claimable now g tv q" "q \<notin> set ?b" for q
  proof -
    from that cl have q: "q \<in> set all" "?due q \<le> now" by auto
    then have "q \<in> set (take limit all) \<or> q \<in> set (drop limit all)" by (metis Un_iff append_take_drop_id set_append)
    with q that(2) show ?thesis by auto
  qed
  have "length ?b \<le> limit" by (metis length_filter_le length_take min.boundedE)
  moreover have "distinct (map tr_id ?b)" using dist by (simp add: distinct_map_filter take_map [symmetric])
  moreover have "sorted (map ?due ?b)" using srt' by (rule sorted_filter)
  moreover have "\<forall>r\<in>set ?b. claimable now g tv r" using sub by (auto simp: cl)
  moreover have "\<forall>r\<in>set ?b. \<forall>q. claimable now g tv q \<longrightarrow> q \<notin> set ?b \<longrightarrow> ?due r \<le> ?due q"
    using late take_sorted_least [OF srt, of _ limit] by (metis (no_types, lifting) filter_is_subset subsetD)
  moreover have "q \<in> set ?b" if "length ?b < limit" "claimable now g tv q" for q
  proof (rule ccontr)
    assume n: "q \<notin> set ?b"
    from late [OF that(2) n] have d: "q \<in> set (drop limit all)" .
    then have "length (take limit all) = limit" by (cases "limit < length all") simp_all
    moreover have "?b = take limit all"
      using take_sorted_least [OF srt _ d] that(2) cl by (auto simp: filter_id_conv intro: order_trans)
    ultimately show False using that(1) by simp
  qed
  ultimately show ?thesis unfolding b good_batch_def by blast
qed

text \<open>What waits in the queue of a group, in the order of the sorted set.\<close>

lemma queue_records:
  assumes h: "redis_holds C v tv" and q: "rd_queue v g = map_of z" and z: "distinct (map fst z)"
  defines "all \<equiv> map (\<lambda>(i, _). fst (the (tv i))) (zordered z)"
  shows "zordered z = map (\<lambda>r. (tr_id r, ti_due (tr_info r))) all"
    and "\<And>r. r \<in> set all \<longleftrightarrow> tv (tr_id r) = Some (r, Queued) \<and> ti_group (tr_info r) = g"
proof -
  have mem: "(i, s) \<in> set (zordered z) \<longleftrightarrow> rd_queue v g i = Some s" for i s
    using zordered_facts(1) [of z] z unfolding q by (metis map_of_eq_Some_iff set_mset_mset)
  have at: "\<exists>r. tv i = Some (r, Queued) \<and> tr_id r = i \<and> ti_group (tr_info r) = g \<and> ti_due (tr_info r) = s"
    if "rd_queue v g i = Some s" for i s
  proof (cases "tv i")
    case None
    with holdsD [OF h, of i] that show ?thesis by (simp add: task_holds_def waiting_def)
  next
    case (Some x)
    with holdsD [OF h, of i] that show ?thesis
      by (cases x; cases "snd x") (auto simp: task_holds_def waiting_def dest!: spec [of _ g] split: if_splits)
  qed
  show "zordered z = map (\<lambda>r. (tr_id r, ti_due (tr_info r))) all"
    unfolding all_def map_map by (rule map_idI [symmetric]) (use mem at in fastforce)
  fix r
  show "r \<in> set all \<longleftrightarrow> tv (tr_id r) = Some (r, Queued) \<and> ti_group (tr_info r) = g"
  proof
    assume "r \<in> set all"
    then obtain i s where "(i, s) \<in> set (zordered z)" "r = fst (the (tv i))" by (auto simp: all_def)
    with at [of i s] mem [of i s] show "tv (tr_id r) = Some (r, Queued) \<and> ti_group (tr_info r) = g" by auto
  next
    assume r: "tv (tr_id r) = Some (r, Queued) \<and> ti_group (tr_info r) = g"
    with holdsD [OF h, of "tr_id r"] have "rd_queue v g (tr_id r) = Some (ti_due (tr_info r))"
      by (simp add: task_holds_def waiting_def)
    with mem have "(tr_id r, ti_due (tr_info r)) \<in> set (zordered z)" by blast
    from imageI [OF this, of "\<lambda>(i, _). fst (the (tv i))"] r show "r \<in> set all" by (simp add: all_def)
  qed
qed

lemma assign_tasks_state:
  assumes st: "redis_state C (rs_keys rs) (tv, sched)" and g: "plain_group g"
    and s: "\<And>r. tv (tr_id r) = Some (r, Queued) \<Longrightarrow> ti_group (tr_info r) = g \<Longrightarrow> \<exists>s. stageable C w now (tr_id r) s"
    and run: "redis_assign_tasks C now g w limit rs = (res, rs')"
  shows "\<exists>batch. good_batch now g limit tv batch \<and>
    (redis_state C (rs_keys rs') (spec_assign now w batch tv, sched) \<and> res = Inr batch \<or>
     (\<exists>e. res = Inl e) \<and> (redis_state C (rs_keys rs') (tv, sched) \<or>
        redis_state C (rs_keys rs') (spec_assign now w batch tv, sched)))"
proof (cases "limit = 0")
  case True
  with st run have "res = Inr []" "redis_state C (rs_keys rs') (spec_assign now w [] tv, sched)"
    by (auto simp: redis_assign_tasks_def spec_assign_def)
  with True show ?thesis by (intro exI [of _ "[]"]) (simp add: good_batch_def)
next
  case False
  obtain z where z: "distinct (map fst z)" "rd_queue (redis_view (rs_keys rs)) g = map_of z"
    "cmd_zrange (queue_key g) 0 (int limit - 1) (rs_keys rs) = (Inr (take limit (zordered z)), rs_keys rs)"
    by (rule zset_slot.zrange_head [OF queue_slot [OF g], of "rs_keys rs" limit]) (use st False in \<open>auto simp: redis_state_def\<close>)
  let ?v = "redis_view (rs_keys rs)" and ?all = "map (\<lambda>(i, _). fst (the (tv i))) (zordered z)"
  let ?due = "\<lambda>r. ti_due (tr_info r)" and ?batch = "takeWhile (\<lambda>r. ti_due (tr_info r) \<le> now) (take limit ?all)"
  let ?tmpl = "rc_encode_stage C \<lparr>si_worker_id = w, si_task_id = ''${TASK_ID}'', si_assigned_at = now\<rparr>"
  from st have h: "redis_holds C ?v tv" and t: "redis_typed (rs_keys rs)" by (simp_all add: redis_state_def)
  note Q = queue_records [OF h z(2,1)]
  from Q(1) have ids: "map tr_id ?all = map fst (zordered z)" and dues: "map ?due ?all = map snd (zordered z)"
    by (metis (no_types, lifting) fst_conv list.map_comp comp_def map_eq_conv)
      (metis (no_types, lifting) Q(1) snd_conv list.map_comp comp_def map_eq_conv)
  have cands: "take limit (zordered z) = map (\<lambda>r. (tr_id r, ?due r)) (take limit ?all)"
    using arg_cong [OF Q(1), of "take limit"] by (simp only: take_map)
  have "\<forall>i\<in>tr_id ` set ?all. \<exists>s. stageable C w now i s" using Q(2) s by blast
  from bchoice [OF this] obtain sj where sj: "\<And>r. r \<in> set ?all \<Longrightarrow> stageable C w now (tr_id r) (sj (tr_id r))"
    by blast
  have "implements (assign_candidates C (queue_key g) now ?tmpl (take limit (zordered z)))
      (assign_view sj g now (take limit (zordered z)))"
    by (rule assign_implements [OF g]) (use sj in \<open>auto simp: cands stageable_def dest: in_set_takeD\<close>)
  from implementsD [OF this t] obtain ks' where ks': "assign_candidates C (queue_key g) now ?tmpl
        (take limit (zordered z)) (rs_keys rs) = (Inr (fst (assign_view sj g now (take limit (zordered z)) ?v)), ks')"
    "redis_typed ks'" "redis_view ks' = snd (assign_view sj g now (take limit (zordered z)) ?v)" by blast
  have "case assign_view sj g now (map (\<lambda>r. (tr_id r, ?due r)) (take limit ?all)) ?v of (ps, v') \<Rightarrow>
      decode_pairs C ps = Inr ?batch \<and> rd_sched v' = rd_sched ?v \<and> redis_holds C v' (spec_assign now w ?batch tv)"
  proof (rule assign_view_holds [OF h _ g])
    show "distinct (map tr_id (take limit ?all))" using z(1) ids by (simp only: take_map [symmetric] distinct_take zordered_facts)
  qed (use Q(2) sj in \<open>auto dest!: in_set_takeD\<close>)
  then obtain ps where ps: "fst (assign_view sj g now (take limit (zordered z)) ?v) = ps" "decode_pairs C ps = Inr ?batch"
    "redis_state C ks' (spec_assign now w ?batch tv, sched)"
    using ks'(2,3) st unfolding cands by (auto simp: redis_state_def split: prod.splits)
  have good: "good_batch now g limit tv ?batch"
  proof (rule good_batch_sorted)
    show "sorted (map ?due ?all)" unfolding dues by (rule zordered_facts(2))
    show "distinct (map tr_id ?all)" unfolding ids using z(1) by (simp add: zordered_facts(3))
  qed (use Q(2) in \<open>auto simp: claimable_def\<close>)
  have script: "assign_script C (queue_key g) now ?tmpl limit (rs_keys rs) = (Inr ps, ks')"
    by (simp add: assign_script_def redis_bind_def z(3) ks'(1) ps(1))
  obtain r1 rs1 where call: "redis_call (assign_script C (queue_key g) now ?tmpl limit) rs = (r1, rs1)" by fastforce
  with run False have out: "(case r1 of Inl e \<Rightarrow> Inl e | Inr ps \<Rightarrow> decode_pairs C ps) = res" "rs1 = rs'"
    by (auto simp: redis_assign_tasks_def redis_bind_call_def Let_def split: sum.splits)
  from redis_call_cases [OF script call] out ps(2,3) st good show ?thesis by (intro exI [of _ ?batch]) auto
qed

subsection \<open>Finishing\<close>

definition finish_view :: "task_record \<Rightarrow> f64 \<Rightarrow> f64 \<Rightarrow> string \<Rightarrow> redis_view \<Rightarrow> redis_view" where
  "finish_view r dn disposable_at s v =
     (let i = tr_id r; g = ti_group (tr_info r)
      in v\<lparr>rd_queue := (rd_queue v)(g := (rd_queue v g)(i := None)), rd_stage := (rd_stage v)(i := None),
           rd_stage_info := (rd_stage_info v)(i := None), rd_done := (rd_done v)(i \<mapsto> dn),
           rd_disposable := (rd_disposable v)(i \<mapsto> disposable_at), rd_data := (rd_data v)(i \<mapsto> tr_data r),
           rd_info := (rd_info v)(i \<mapsto> s)\<rparr>)"

lemma finish_implements:
  assumes "plain_group (ti_group (tr_info r))"
  shows "implements (finish_pipeline r dn da result_key b s)
      (\<lambda>v. ((), (finish_view r dn da s v)\<lparr>rd_result := (rd_result v)(tr_id r \<mapsto> b)\<rparr>))"
    and "implements (finish_pipeline r dn da error_message_key b s)
      (\<lambda>v. ((), (finish_view r dn da s v)\<lparr>rd_error := (rd_error v)(tr_id r \<mapsto> b)\<rparr>))"
  unfolding finish_pipeline_def
   by (rule implements_cong, rule implements_pipeline_Cons, rule zset_slot.zrem [OF queue_slot [OF assms]],
      rule implements_pipeline_Cons, rule stage.zrem, rule implements_pipeline_Cons, rule stage_info.hdel,
      rule implements_pipeline_Cons, rule done_queue.zadd, rule implements_pipeline_Cons, rule disposable.zadd,
      rule implements_pipeline_Cons, (rule result.hset error_message.hset), rule implements_pipeline_Cons, rule data.hset,
      rule implements_pipeline_Cons, rule info.hset, rule implements_pipeline_Nil,
      simp add: finish_view_def restrict_single Let_def)+

lemma finish_view_sched [simp]: "rd_sched (finish_view r dn da s v) = rd_sched v"
  by (simp add: finish_view_def Let_def)

definition finishable :: "redis_codec \<Rightarrow> tview \<Rightarrow> task_record \<Rightarrow> bool" where
  "finishable C tv r \<longleftrightarrow> carried C r \<and> (case tv (tr_id r) of None \<Rightarrow> True | Some (r0, st) \<Rightarrow> r0 = r)"

lemma succeed_holds:
  assumes h: "redis_holds C v tv" and r: "finishable C tv r" and s: "rc_encode_info C (tr_info r) = Inr s"
  shows "redis_holds C ((finish_view r dn da s v)\<lparr>rd_result := (rd_result v)(tr_id r \<mapsto> b)\<rparr>)
    (spec_finish r (Succeeded b) tv)"
proof -
  from holdsD [OF h, of "tr_id r"] r have "\<forall>g. g \<noteq> ti_group (tr_info r) \<longrightarrow> rd_queue v g (tr_id r) = None"
    by (cases "tv (tr_id r)"; cases "snd (the (tv (tr_id r)))")
      (auto simp: task_holds_def waiting_def finishable_def)
  with r s show ?thesis
    by (intro holds_update [OF h, of "tr_id r"])
      (auto simp: finish_view_def Let_def same_at_def spec_finish_def task_holds_def stored_def carried_def
        waiting_def finishable_def split: option.splits)
qed

lemma fail_holds:
  assumes h: "redis_holds C v tv" and r: "finishable C tv r" and s: "rc_encode_info C (tr_info r) = Inr s"
    and f: "\<And>r0 b. tv (tr_id r) \<noteq> Some (r0, Succeeded b)"
  shows "redis_holds C ((finish_view r dn da s v)\<lparr>rd_error := (rd_error v)(tr_id r \<mapsto> b)\<rparr>)
    (spec_finish r (Failed (from_utf8_lossy b)) tv)"
proof -
  from holdsD [OF h, of "tr_id r"] r f have "(\<forall>g. g \<noteq> ti_group (tr_info r) \<longrightarrow> rd_queue v g (tr_id r) = None) \<and>
      rd_result v (tr_id r) = None"
    by (cases "tv (tr_id r)"; cases "snd (the (tv (tr_id r)))")
      (auto simp: task_holds_def waiting_def finishable_def)
  with r s show ?thesis
    by (intro holds_update [OF h, of "tr_id r"])
      (auto simp: finish_view_def Let_def same_at_def spec_finish_def task_holds_def stored_def carried_def
        waiting_def finishable_def split: option.splits)
qed

end
