(* ===== verification/Redis_Steps.thy ===== *)
theory Redis_Steps imports Redis_Contract begin

section \<open>The operations of the Redis backend on the abstract store\<close>

text \<open>
  Every operation that changes the store, as one step on a keyspace that stands for a store: the
  step the contract names, or an error, after which the step has happened as a whole or not at
  all.  \<open>redis_op_ok\<close> says when Redis keeps to the contract.
\<close>

subsection \<open>Restoring and discarding\<close>

lemma restore_implements:
  assumes "plain_group g"
  shows "implements (pipeline [cmd_zrem stage_queue_key [i], cmd_hdel stage_info_key [i], cmd_zadd (queue_key g) [(due, i)]])
    (\<lambda>v. ((), v\<lparr>rd_stage := (rd_stage v)(i := None), rd_stage_info := (rd_stage_info v)(i := None),
      rd_queue := (rd_queue v)(g := (rd_queue v g)(i \<mapsto> due))\<rparr>))"
  by (rule implements_cong, rule implements_pipeline_Cons, rule stage.zrem, rule implements_pipeline_Cons,
      rule stage_info.hdel, rule implements_pipeline_Cons, rule zset_slot.zadd [OF queue_slot [OF assms]],
      rule implements_pipeline_Nil, simp add: restrict_single)

lemma restore_holds:
  assumes h: "redis_holds C v tv" and r: "tv i = Some (r, st)" and st: "st = Queued \<or> (\<exists>w t. st = Staged w t)"
  shows "redis_holds C (v\<lparr>rd_stage := (rd_stage v)(i := None), rd_stage_info := (rd_stage_info v)(i := None),
      rd_queue := (rd_queue v)(ti_group (tr_info r) := (rd_queue v (ti_group (tr_info r)))(i \<mapsto> ti_due (tr_info r)))\<rparr>)
    (spec_restore i tv)"
  using holdsD [OF h, of i] r st
  by (intro holds_update [OF h, of i])
    (auto simp: same_at_def spec_restore_at [of i tv] spec_restore_def task_holds_def stored_def waiting_def)

lemma restore_state:
  assumes st: "redis_state C (rs_keys rs) (tv, sched)" and f: "reads_fields C"
    and un: "case tv (si_task_id si) of None \<Rightarrow> True | Some (r, x) \<Rightarrow> x = Queued \<or> (\<exists>w t. x = Staged w t)"
    and run: "redis_restore C si rs = (res, rs')"
  defines "st' \<equiv> (spec_restore (si_task_id si) tv, sched)"
  shows "redis_state C (rs_keys rs') st' \<and> res = Inr () \<or>
    (\<exists>e. res = Inl e) \<and> (redis_state C (rs_keys rs') (tv, sched) \<or> redis_state C (rs_keys rs') st')"
proof -
  let ?i = "si_task_id si"
  obtain r1 rs1 where 1: "redis_lookup_tasks C [?i] rs = (r1, rs1)" by fastforce
  note L = lookup_tasks_state [OF st f 1]
  show ?thesis
  proof (cases r1)
    case (Inl e)
    with run 1 L show ?thesis by (auto simp: redis_restore_def redis_bind_call_def)
  next
    case (Inr os)
    show ?thesis
    proof (cases "tv ?i")
      case None
      with L Inr have "os = [] \<or> os = [None]" by (auto simp: looked_up_def)
      with run 1 Inr L None show ?thesis
        by (auto simp: redis_restore_def redis_bind_call_def st'_def spec_restore_def)
    next
      case (Some x)
      obtain r s where x: "x = (r, s)" by (cases x)
      with Some L Inr have os: "os = [Some r]" by (auto simp: looked_up_def)
      from holdsD [of C "redis_view (rs_keys rs)" tv ?i] st Some x
      have r: "tr_id r = ?i" "plain_group (ti_group (tr_info r))" by (simp_all add: redis_state_def task_holds_def)
      from run 1 Inr os r(1) have "redis_call (pipeline [cmd_zrem stage_queue_key [?i], cmd_hdel stage_info_key [?i],
          cmd_zadd (queue_key (ti_group (tr_info r))) [(ti_due (tr_info r), ?i)]]) rs1 = (res, rs')"
        by (simp add: redis_restore_def redis_bind_call_def)
      from redis_call_state [OF restore_implements [OF r(2)] _ this, of C "(tv, sched)" st'] L
        restore_holds [where C = C and i = ?i and r = r and st = s and tv = tv] un Some x show ?thesis
        by (simp add: st'_def)
    qed
  qed
qed

text \<open>Which ids the pipeline takes out of which queue.\<close>

definition grouped :: "(task_group \<times> task_id list) list \<Rightarrow> (task_group \<times> task_id) set" where
  "grouped gs = (\<Union>(g, is)\<in>set gs. {g} \<times> set is)"

lemma grouped_Cons [simp]: "grouped [] = {}" "grouped ((g, is) # gs) = {g} \<times> set is \<union> grouped gs"
  by (simp_all add: grouped_def)

lemma grouped_mem: "(g, i) \<in> grouped gs \<longleftrightarrow> (\<exists>is. (g, is) \<in> set gs \<and> i \<in> set is)"
  by (auto simp: grouped_def)

lemma add_grouped_mem: "grouped (add_grouped g i gs) = insert (g, i) (grouped gs)"
proof (induction gs)
  case (Cons p gs)
  then show ?case by (cases p) auto
qed simp

lemma group_ids_mem: "grouped (group_ids ps) = {(ti_group (tr_info r), i) |r i. (Some r, i) \<in> set ps}"
proof (induction ps rule: rev_induct)
  case (snoc p ps)
  obtain task j where p: "p = (task, j)" by (cases p)
  have "group_ids (ps @ [p]) = (case task of None \<Rightarrow> group_ids ps | Some r \<Rightarrow> add_grouped (ti_group (tr_info r)) j (group_ids ps))"
    by (cases task) (simp_all add: group_ids_def p)
  with snoc p show ?case by (cases task) (auto simp: add_grouped_mem)
qed (simp add: group_ids_def)

lemma add_grouped_groups: "fst ` set (add_grouped g i gs) = insert g (fst ` set gs)"
proof (induction gs)
  case (Cons p gs)
  then show ?case by (cases p) auto
qed simp

lemma group_ids_groups: "fst ` set (group_ids ps) = {ti_group (tr_info r) |r i. (Some r, i) \<in> set ps}"
proof (induction ps rule: rev_induct)
  case (snoc p ps)
  then show ?case
    by (cases p; cases "fst p") (auto simp: group_ids_def add_grouped_groups)
qed (simp add: group_ids_def)

definition unqueue_view :: "(task_group \<times> task_id list) list \<Rightarrow> redis_view \<Rightarrow> redis_view" where
  "unqueue_view gs v = fold (\<lambda>(g, is) v. v\<lparr>rd_queue := (rd_queue v)(g := rd_queue v g |` (- set is))\<rparr>) gs v"

definition discard_view :: "task_id list \<Rightarrow> redis_view \<Rightarrow> redis_view" where
  "discard_view ids v =
     v\<lparr>rd_stage := rd_stage v |` (- set ids), rd_stage_info := rd_stage_info v |` (- set ids),
       rd_data := rd_data v |` (- set ids), rd_info := rd_info v |` (- set ids), rd_done := rd_done v |` (- set ids),
       rd_disposable := rd_disposable v |` (- set ids), rd_result := rd_result v |` (- set ids),
       rd_error := rd_error v |` (- set ids)\<rparr>"

lemma unqueue_view_queue:
  "rd_queue (unqueue_view gs v) g i = (if (g, i) \<in> grouped gs then None else rd_queue v g i)"
proof (induction gs arbitrary: v)
  case (Cons p gs)
  obtain g' is' where p: "p = (g', is')" by (cases p)
  have "unqueue_view (p # gs) v = unqueue_view gs (v\<lparr>rd_queue := (rd_queue v)(g' := rd_queue v g' |` (- set is'))\<rparr>)"
    by (simp add: unqueue_view_def p)
  with Cons p show ?case by (auto simp: restrict_map_def)
qed (simp add: unqueue_view_def)

lemma unqueue_view_rest: "\<exists>q. unqueue_view gs v = v\<lparr>rd_queue := q\<rparr>"
proof (induction gs arbitrary: v)
  case Nil
  show ?case by (rule exI [of _ "rd_queue v"]) (simp add: unqueue_view_def)
next
  case (Cons p gs)
  obtain g' is' where p: "p = (g', is')" by (cases p)
  from Cons [of "v\<lparr>rd_queue := (rd_queue v)(g' := rd_queue v g' |` (- set is'))\<rparr>"] show ?case
    by (auto simp: unqueue_view_def p)
qed

lemma discard_implements:
  "implements (pipeline
      [cmd_zrem stage_queue_key ids, cmd_hdel stage_info_key ids, cmd_hdel data_store_key ids,
       cmd_hdel task_info_key ids, cmd_zrem done_queue_key ids, cmd_zrem disposable_queue_key ids,
       cmd_hdel result_key ids, cmd_hdel error_message_key ids])
    (\<lambda>v. ((), discard_view ids v))"
  by (rule implements_cong, rule implements_pipeline_Cons, rule stage.zrem, rule implements_pipeline_Cons,
      rule stage_info.hdel, rule implements_pipeline_Cons, rule data.hdel, rule implements_pipeline_Cons, rule info.hdel,
      rule implements_pipeline_Cons, rule done_queue.zrem, rule implements_pipeline_Cons, rule disposable.zrem,
      rule implements_pipeline_Cons, rule result.hdel, rule implements_pipeline_Cons, rule error_message.hdel,
      rule implements_pipeline_Nil, simp add: discard_view_def)

lemma unqueue_implements:
  assumes "implements (pipeline cs) (\<lambda>v. ((), F v))"
  shows "(\<forall>(g, is)\<in>set gs. plain_group g) \<Longrightarrow>
    implements (pipeline (map (\<lambda>(g, is). cmd_zrem (queue_key g) is) gs @ cs)) (\<lambda>v. ((), F (unqueue_view gs v)))"
proof (induction gs)
  case Nil
  with assms show ?case by (simp add: unqueue_view_def)
next
  case (Cons p gs)
  obtain g "is" where p: "p = (g, is)" by (cases p)
  with Cons have g: "plain_group g" and IH: "implements (pipeline (map (\<lambda>(g, is). cmd_zrem (queue_key g) is) gs @ cs))
      (\<lambda>v. ((), F (unqueue_view gs v)))" by simp_all
  have "implements (pipeline (cmd_zrem (queue_key g) is # map (\<lambda>(g, is). cmd_zrem (queue_key g) is) gs @ cs))
      (\<lambda>v. ((), F (unqueue_view (p # gs) v)))"
    by (rule implements_cong, rule implements_pipeline_Cons, rule zset_slot.zrem [OF queue_slot [OF g]], rule IH)
      (simp add: unqueue_view_def p)
  then show ?case by (simp add: p del: pipeline.simps)
qed

lemma looked_up_pairs:
  assumes "looked_up tv ids os"
  shows "(Some r, i) \<in> set (zip os ids) \<longleftrightarrow> i \<in> set ids \<and> (\<exists>st. tv i = Some (r, st))"
proof -
  have "(Some r, i) \<in> set (zip (map (\<lambda>i. map_option fst (tv i)) ids) ids) \<longleftrightarrow> i \<in> set ids \<and> (\<exists>st. tv i = Some (r, st))"
    by (auto simp: zip_map1 zip_same_conv_map image_iff eq_commute [of "Some _"])
  with assms show ?thesis by (auto simp: looked_up_def)
qed

lemma discard_holds:
  assumes h: "redis_holds C v tv"
    and gs: "grouped gs = {(ti_group (tr_info r), i) |r i. i \<in> set ids \<and> (\<exists>st. tv i = Some (r, st))}"
  shows "redis_holds C (discard_view ids (unqueue_view gs v)) (spec_discard ids tv)"
  unfolding redis_holds_def
proof
  fix i
  let ?v = "discard_view ids (unqueue_view gs v)"
  obtain q where q: "unqueue_view gs v = v\<lparr>rd_queue := q\<rparr>" using unqueue_view_rest by blast
  have queue: "rd_queue ?v g i = (if (g, i) \<in> grouped gs then None else rd_queue v g i)" for g
    using unqueue_view_queue [of gs v g i] by (simp add: discard_view_def)
  show "task_holds C ?v i (spec_discard ids tv i)"
  proof (cases "i \<in> set ids")
    case True
    have "rd_queue ?v g i = None" for g
    proof (cases "tv i")
      case None
      with holdsD [OF h, of i] queue show ?thesis by (simp add: task_holds_def waiting_def)
    next
      case (Some x)
      with holdsD [OF h, of i] queue gs True show ?thesis
        by (cases x; cases "snd x") (auto simp: task_holds_def waiting_def)
    qed
    with True show ?thesis by (simp add: task_holds_def waiting_def spec_discard_def discard_view_def q)
  next
    case False
    then have "same_at i v ?v" using queue gs by (auto simp: same_at_def discard_view_def q)
    with False show ?thesis using task_holds_cong [OF _ holdsD [OF h]] by (simp add: spec_discard_def)
  qed
qed

lemma discard_state:
  assumes st: "redis_state C (rs_keys rs) (tv, sched)" and f: "reads_fields C"
    and run: "redis_discard_tasks C ids rs = (res, rs')"
  defines "st' \<equiv> (spec_discard ids tv, sched)"
  shows "redis_state C (rs_keys rs') st' \<and> res = Inr () \<or>
    (\<exists>e. res = Inl e) \<and> (redis_state C (rs_keys rs') (tv, sched) \<or> redis_state C (rs_keys rs') st')"
proof (cases "ids = []")
  case True
  with st run show ?thesis by (auto simp: redis_discard_tasks_def st'_def spec_discard_def restrict_map_def)
next
  case False
  obtain r1 rs1 where 1: "redis_lookup_tasks C ids rs = (r1, rs1)" by fastforce
  note L = lookup_tasks_state [OF st f 1]
  show ?thesis
  proof (cases r1)
    case (Inl e)
    with run 1 L False show ?thesis by (auto simp: redis_discard_tasks_def redis_bind_call_def)
  next
    case (Inr os)
    with L have os: "looked_up tv ids os" by simp
    let ?gs = "group_ids (zip os ids)"
    have gs: "grouped ?gs = {(ti_group (tr_info r), i) |r i. i \<in> set ids \<and> (\<exists>st. tv i = Some (r, st))}"
      unfolding group_ids_mem looked_up_pairs [OF os] ..
    have "plain_group g" if "(g, is) \<in> set ?gs" for g "is"
    proof -
      from that have "g \<in> fst ` set ?gs" by force
      then obtain r i x where "g = ti_group (tr_info r)" "tv i = Some (r, x)"
        unfolding group_ids_groups looked_up_pairs [OF os] by blast
      with st holdsD [of C "redis_view (rs_keys rs)" tv i] show ?thesis by (simp add: redis_state_def task_holds_def)
    qed
    then have "\<forall>(g, is)\<in>set ?gs. plain_group g" by blast
    note imp = unqueue_implements [OF discard_implements [of ids] this]
    from run 1 Inr False have call: "redis_call (pipeline (map (\<lambda>(grp, is). cmd_zrem (queue_key grp) is) ?gs @
        [cmd_zrem stage_queue_key ids, cmd_hdel stage_info_key ids, cmd_hdel data_store_key ids,
         cmd_hdel task_info_key ids, cmd_zrem done_queue_key ids, cmd_zrem disposable_queue_key ids,
         cmd_hdel result_key ids, cmd_hdel error_message_key ids])) rs1 = (res, rs')"
      by (simp add: redis_discard_tasks_def redis_bind_call_def)
    have sched: "rd_sched (discard_view ids (unqueue_view ?gs v)) = rd_sched v" for v
      using unqueue_view_rest [of ?gs v] by (auto simp: discard_view_def)
    from redis_call_state [OF imp _ call, of C "(tv, sched)" st'] L discard_holds [OF _ gs, of C] sched
    show ?thesis by (simp add: st'_def)
  qed
qed

subsection \<open>One step\<close>

datatype redis_op =
    R_Put "task_record list"
  | R_Persist scheduler_name bytes "task_record list"
  | R_Assign timestamp string worker_id nat
  | R_Retry task_record
  | R_Succeed timestamp task_record bytes
  | R_Fail timestamp task_record bytes
  | R_Restore stage_info
  | R_Discard "task_id list"

text \<open>The tasks an operation answers with: only \<open>assign_tasks\<close> has any.\<close>

definition no_tasks :: "(backend_error + unit) \<times> redis_server \<Rightarrow> (backend_error + task_record list) \<times> redis_server" where
  "no_tasks p = (case p of (Inl e, rs) \<Rightarrow> (Inl e, rs) | (Inr _, rs) \<Rightarrow> (Inr [], rs))"

fun redis_do :: "redis_codec \<Rightarrow> redis_op \<Rightarrow> redis_server \<Rightarrow> (backend_error + task_record list) \<times> redis_server" where
  "redis_do C (R_Put tasks) rs = no_tasks (redis_put_tasks C tasks rs)"
| "redis_do C (R_Persist name b tasks) rs = no_tasks (redis_persist_scheduler_state_and_put_tasks C name b tasks rs)"
| "redis_do C (R_Assign now g w limit) rs = redis_assign_tasks C now g w limit rs"
| "redis_do C (R_Retry r) rs = no_tasks (redis_retry_task C r rs)"
| "redis_do C (R_Succeed now r b) rs = no_tasks (redis_succeed C now r b rs)"
| "redis_do C (R_Fail now r b) rs = no_tasks (redis_fail C now r b rs)"
| "redis_do C (R_Restore si) rs = no_tasks (redis_restore C si rs)"
| "redis_do C (R_Discard ids) rs = no_tasks (redis_discard_tasks C ids rs)"

text \<open>
  What a client keeps to: tasks the codec can carry; a task is finished with the record it was
  claimed with and not failed after it succeeded; a retry is of a task that is not finished and
  stays in its group; a task is restored only while it is not finished.
\<close>

fun redis_op_ok :: "redis_codec \<Rightarrow> tview \<Rightarrow> redis_op \<Rightarrow> bool" where
  "redis_op_ok C tv (R_Put tasks) \<longleftrightarrow> (\<forall>r\<in>set tasks. carried C r)"
| "redis_op_ok C tv (R_Persist name b tasks) \<longleftrightarrow> (\<forall>r\<in>set tasks. carried C r)"
| "redis_op_ok C tv (R_Assign now g w limit) \<longleftrightarrow> plain_group g \<and>
     (\<forall>r. tv (tr_id r) = Some (r, Queued) \<longrightarrow> ti_group (tr_info r) = g \<longrightarrow> (\<exists>s. stageable C w now (tr_id r) s))"
| "redis_op_ok C tv (R_Retry r) \<longleftrightarrow> carried C r \<and>
     (case tv (tr_id r) of None \<Rightarrow> True
      | Some (r0, st) \<Rightarrow> ti_group (tr_info r0) = ti_group (tr_info r) \<and> (st = Queued \<or> (\<exists>w t. st = Staged w t)))"
| "redis_op_ok C tv (R_Succeed now r b) \<longleftrightarrow> finishable C tv r"
| "redis_op_ok C tv (R_Fail now r b) \<longleftrightarrow> finishable C tv r \<and> (\<forall>r0 b. tv (tr_id r) \<noteq> Some (r0, Succeeded b))"
| "redis_op_ok C tv (R_Restore si) \<longleftrightarrow>
     (case tv (si_task_id si) of None \<Rightarrow> True | Some (r, st) \<Rightarrow> st = Queued \<or> (\<exists>w t. st = Staged w t))"
| "redis_op_ok C tv (R_Discard ids) \<longleftrightarrow> True"

type_synonym spec_state = "tview \<times> (scheduler_name \<Rightarrow> bytes option)"

text \<open>The contract: \<open>batch\<close> is what the operation hands out.\<close>

fun spec_step :: "redis_op \<Rightarrow> task_record list \<Rightarrow> spec_state \<Rightarrow> spec_state \<Rightarrow> bool" where
  "spec_step (R_Put tasks) batch st st' \<longleftrightarrow> batch = [] \<and> st' = (spec_put_all tasks (fst st), snd st)"
| "spec_step (R_Persist name b tasks) batch st st' \<longleftrightarrow>
     batch = [] \<and> st' = (spec_put_all tasks (fst st), (snd st)(name \<mapsto> b))"
| "spec_step (R_Assign now g w limit) batch st st' \<longleftrightarrow>
     good_batch now g limit (fst st) batch \<and> st' = (spec_assign now w batch (fst st), snd st)"
| "spec_step (R_Retry r) batch st st' \<longleftrightarrow> batch = [] \<and> st' = (spec_retry r (fst st), snd st)"
| "spec_step (R_Succeed now r b) batch st st' \<longleftrightarrow> batch = [] \<and> st' = (spec_finish r (Succeeded b) (fst st), snd st)"
| "spec_step (R_Fail now r b) batch st st' \<longleftrightarrow>
     batch = [] \<and> st' = (spec_finish r (Failed (from_utf8_lossy b)) (fst st), snd st)"
| "spec_step (R_Restore si) batch st st' \<longleftrightarrow> batch = [] \<and> st' = (spec_restore (si_task_id si) (fst st), snd st)"
| "spec_step (R_Discard ids) batch st st' \<longleftrightarrow> batch = [] \<and> st' = (spec_discard ids (fst st), snd st)"

lemma enqueue_tasks_replace:
  assumes st: "redis_state C (rs_keys rs) (tv, sched)" and ok: "redis_op_ok C tv (R_Retry r)"
    and run: "enqueue_tasks C None [r] Replace rs = (res, rs')"
  defines "st' \<equiv> (spec_retry r tv, sched)"
  shows "redis_state C (rs_keys rs') st' \<and> res = Inr () \<or>
    (\<exists>e. res = Inl e) \<and> (redis_state C (rs_keys rs') (tv, sched) \<or> redis_state C (rs_keys rs') st')"
proof (cases "rc_encode_info C (tr_info r)")
  case (Inl e)
  with st run show ?thesis by (auto simp: enqueue_tasks_def encode_task_info_def)
next
  case (Inr s)
  then have args: "enqueue_args C [r] = Inr (map (case_prod enqueue_arg_of) [(s, r)])"
    by (simp add: encode_task_info_def enqueue_arg_of_def)
  from ok have g: "\<forall>(s, r)\<in>set [(s, r)]. plain_group (ti_group (tr_info r))" by (simp add: carried_def)
  from run args have "redis_call (enqueue_script (map_option (\<lambda>(name, b). (scheduler_data_key name, b)) None)
      Replace (map (case_prod enqueue_arg_of) [(s, r)])) rs = (res, rs')"
    unfolding enqueue_tasks_def by (simp only: sum.case)
  from redis_call_state [OF enqueue_script_implements [OF g, of None] st this, of st']
    enqueue_replace_holds [OF _ _ Inr, of _ tv] ok
  show ?thesis by (simp add: st'_def enqueue_all_view_def)
qed

lemma finish_state:
  assumes st: "redis_state C (rs_keys rs) st" and s: "rc_encode_info C (tr_info r) = Inr s"
    and key: "key = result_key \<and> st' = (spec_finish r (Succeeded b) (fst st), snd st) \<or>
      key = error_message_key \<and> st' = (spec_finish r (Failed (from_utf8_lossy b)) (fst st), snd st) \<and>
        (\<forall>r0 b. fst st (tr_id r) \<noteq> Some (r0, Succeeded b))"
    and ok: "finishable C (fst st) r" and run: "redis_call (finish_pipeline r dn da key b s) rs = (res, rs')"
  shows "redis_state C (rs_keys rs') st' \<and> res = Inr () \<or>
    (\<exists>e. res = Inl e) \<and> (redis_state C (rs_keys rs') st \<or> redis_state C (rs_keys rs') st')"
proof -
  from ok have g: "plain_group (ti_group (tr_info r))" by (simp add: finishable_def carried_def)
  from key show ?thesis
  proof (elim disjE conjE)
    assume k: "key = result_key" and st': "st' = (spec_finish r (Succeeded b) (fst st), snd st)"
    from redis_call_state [OF finish_implements(1) [OF g] st run [unfolded k], of st'] succeed_holds [OF _ ok s]
    show ?thesis by (simp add: st')
  next
    assume k: "key = error_message_key" and st': "st' = (spec_finish r (Failed (from_utf8_lossy b)) (fst st), snd st)"
      and f: "\<forall>r0 b. fst st (tr_id r) \<noteq> Some (r0, Succeeded b)"
    from redis_call_state [OF finish_implements(2) [OF g] st run [unfolded k], of st'] fail_holds [OF _ ok s] f
    show ?thesis by (simp add: st')
  qed
qed

end
