(* ===== verification/Redis_Runs.thy ===== *)
theory Redis_Runs imports Redis_Steps begin

section \<open>What the Redis backend guarantees\<close>

text \<open>
  The refinement of the backend contract by the Redis operations, what reading gives back, and the
  lease a lock is.
\<close>

definition keeps_contract ::
  "redis_codec \<Rightarrow> redis_server \<Rightarrow> spec_state \<Rightarrow> redis_op \<Rightarrow> backend_error + task_record list \<Rightarrow> redis_server \<Rightarrow> bool" where
  "keeps_contract C rs st op res rs' \<longleftrightarrow>
     (\<exists>batch st'. spec_step op batch st st' \<and>
       (res = Inr batch \<and> redis_state C (rs_keys rs') st' \<or>
        (\<exists>e. res = Inl e) \<and> (redis_state C (rs_keys rs') st \<or> redis_state C (rs_keys rs') st')))"

lemma keeps_unit:
  assumes "redis_do C op rs = no_tasks p" and "redis_do C op rs = (res, rs')" and "spec_step op [] st st'"
    and "\<And>r1 rs1. p = (r1, rs1) \<Longrightarrow> redis_state C (rs_keys rs1) st' \<and> r1 = Inr () \<or>
       (\<exists>e. r1 = Inl e) \<and> (redis_state C (rs_keys rs1) st \<or> redis_state C (rs_keys rs1) st')"
  shows "keeps_contract C rs st op res rs'"
  unfolding keeps_contract_def
  by (rule exI [of _ "[]"], rule exI [of _ st'], cases p)
    (use assms in \<open>auto simp: no_tasks_def split: sum.splits\<close>)

lemma put_keeps:
  assumes st: "redis_state C (rs_keys rs) (tv, sched)" and ok: "\<forall>r\<in>set tasks. carried C r"
  shows "redis_do C (R_Put tasks) rs = (res, rs') \<Longrightarrow> keeps_contract C rs (tv, sched) (R_Put tasks) res rs'"
    and "redis_do C (R_Persist name b tasks) rs = (res, rs') \<Longrightarrow> keeps_contract C rs (tv, sched) (R_Persist name b tasks) res rs'"
proof -
  assume run: "redis_do C (R_Put tasks) rs = (res, rs')"
  show "keeps_contract C rs (tv, sched) (R_Put tasks) res rs'"
  proof (rule keeps_unit [OF redis_do.simps(1) run])
    show "spec_step (R_Put tasks) [] (tv, sched) (spec_put_all tasks tv, sched)" by simp
    fix r1 rs1 assume "redis_put_tasks C tasks rs = (r1, rs1)"
    then show "redis_state C (rs_keys rs1) (spec_put_all tasks tv, sched) \<and> r1 = Inr () \<or>
       (\<exists>e. r1 = Inl e) \<and> (redis_state C (rs_keys rs1) (tv, sched) \<or> redis_state C (rs_keys rs1) (spec_put_all tasks tv, sched))"
      using enqueue_tasks_keep [OF st ok, of None r1 rs1] st
      by (auto simp: redis_put_tasks_def spec_put_all_def split: if_splits)
  qed
next
  assume run: "redis_do C (R_Persist name b tasks) rs = (res, rs')"
  show "keeps_contract C rs (tv, sched) (R_Persist name b tasks) res rs'"
    by (rule keeps_unit [OF redis_do.simps(2) run, where st' = "(spec_put_all tasks tv, sched(name \<mapsto> b))"])
      (use enqueue_tasks_keep [OF st ok, of "Some (name, b)"] in
        \<open>auto simp: redis_persist_scheduler_state_and_put_tasks_def\<close>)
qed

lemma assign_keeps:
  assumes st: "redis_state C (rs_keys rs) (tv, sched)" and ok: "redis_op_ok C tv (R_Assign now g w limit)"
    and run: "redis_do C (R_Assign now g w limit) rs = (res, rs')"
  shows "keeps_contract C rs (tv, sched) (R_Assign now g w limit) res rs'"
proof -
  from assign_tasks_state [OF st, of g w now limit res rs'] ok run obtain batch where
    "good_batch now g limit tv batch"
    "redis_state C (rs_keys rs') (spec_assign now w batch tv, sched) \<and> res = Inr batch \<or>
     (\<exists>e. res = Inl e) \<and> (redis_state C (rs_keys rs') (tv, sched) \<or>
       redis_state C (rs_keys rs') (spec_assign now w batch tv, sched))" by auto
  then show ?thesis unfolding keeps_contract_def
    by (intro exI [of _ batch] exI [of _ "(spec_assign now w batch tv, sched)"]) auto
qed

lemma succeed_state:
  assumes st: "redis_state C (rs_keys rs) st" and ok: "finishable C (fst st) r"
    and run: "redis_succeed C now r b rs = (res, rs')"
  defines "st' \<equiv> (spec_finish r (Succeeded b) (fst st), snd st)"
  shows "redis_state C (rs_keys rs') st' \<and> res = Inr () \<or>
    (\<exists>e. res = Inl e) \<and> (redis_state C (rs_keys rs') st \<or> redis_state C (rs_keys rs') st')"
proof (cases "rc_encode_info C (tr_info r)")
  case (Inl e)
  with st run show ?thesis by (auto simp: redis_succeed_def encode_task_info_def Let_def)
next
  case (Inr i)
  with finish_state [OF st Inr _ ok, of result_key st'] run show ?thesis
    by (auto simp: redis_succeed_def encode_task_info_def Let_def st'_def)
qed

lemma fail_state:
  assumes st: "redis_state C (rs_keys rs) st" and ok: "redis_op_ok C (fst st) (R_Fail now r b)"
    and run: "redis_fail C now r b rs = (res, rs')"
  defines "st' \<equiv> (spec_finish r (Failed (from_utf8_lossy b)) (fst st), snd st)"
  shows "redis_state C (rs_keys rs') st' \<and> res = Inr () \<or>
    (\<exists>e. res = Inl e) \<and> (redis_state C (rs_keys rs') st \<or> redis_state C (rs_keys rs') st')"
proof (cases "rc_encode_info C (tr_info r)")
  case (Inl e)
  with st run show ?thesis by (auto simp: redis_fail_def encode_task_info_def Let_def)
next
  case (Inr i)
  with finish_state [OF st Inr, of error_message_key st'] ok run show ?thesis
    by (auto simp: redis_fail_def encode_task_info_def Let_def st'_def)
qed

lemma redis_step:
  assumes f: "reads_fields C" and st: "redis_state C (rs_keys rs) (tv, sched)" and ok: "redis_op_ok C tv op"
    and run: "redis_do C op rs = (res, rs')"
  shows "keeps_contract C rs (tv, sched) op res rs'"
proof (cases op)
  case (R_Put tasks)
  with put_keeps(1) [OF st] ok run show ?thesis by simp
next
  case (R_Persist name b tasks)
  with put_keeps(2) [OF st] ok run show ?thesis by simp
next
  case (R_Assign now g w limit)
  with assign_keeps [OF st] ok run show ?thesis by simp
next
  case (R_Retry r)
  show ?thesis unfolding R_Retry
    by (rule keeps_unit [OF redis_do.simps(4) run [unfolded R_Retry], where st' = "(spec_retry r tv, sched)"])
      (use enqueue_tasks_replace [OF st, of r] ok in \<open>auto simp: R_Retry redis_retry_task_def\<close>)
next
  case (R_Succeed now r b)
  show ?thesis unfolding R_Succeed
    by (rule keeps_unit [OF redis_do.simps(5) run [unfolded R_Succeed], where st' = "(spec_finish r (Succeeded b) tv, sched)"])
      (use succeed_state [OF st, of r now b] ok in \<open>auto simp: R_Succeed\<close>)
next
  case (R_Fail now r b)
  show ?thesis unfolding R_Fail
    by (rule keeps_unit [OF redis_do.simps(6) run [unfolded R_Fail], where st' = "(spec_finish r (Failed (from_utf8_lossy b)) tv, sched)"])
      (use fail_state [OF st, of now r b] ok in \<open>auto simp: R_Fail\<close>)
next
  case (R_Restore si)
  show ?thesis unfolding R_Restore
    by (rule keeps_unit [OF redis_do.simps(7) run [unfolded R_Restore], where st' = "(spec_restore (si_task_id si) tv, sched)"])
      (use restore_state [OF st f, of si] ok in \<open>auto simp: R_Restore\<close>)
next
  case (R_Discard ids)
  show ?thesis unfolding R_Discard
    by (rule keeps_unit [OF redis_do.simps(8) run [unfolded R_Discard], where st' = "(spec_discard ids tv, sched)"])
      (use discard_state [OF st f, of ids] ok in \<open>auto simp: R_Discard\<close>)
qed

lemma redis_empty_state: "redis_state C Map.empty (Map.empty, Map.empty)"
  by (simp add: redis_state_def redis_typed_def redis_view_def is_hash_def is_zset_def is_string_def redis_holds_def
      task_holds_def waiting_def hash_map_def zset_map_def string_value_def fun_eq_iff)

text \<open>A codec for one task, to try the properties on.\<close>

definition sample_redis_task :: task_record where
  "sample_redis_task = new_record
     \<lparr>ti_id = ''t1'', ti_group = ''g'', ti_name = ''n'', ti_due = 5, ti_created = 1, ti_scheduled = None,
      ti_retry_count = 0, ti_ttl = default_task_ttl\<rparr> ''data''"

definition sample_codec :: redis_codec where
  "sample_codec =
     \<lparr>rc_encode_info = (\<lambda>_. Inr ''info''), rc_decode_info = (\<lambda>_. Inr (tr_info sample_redis_task)),
      rc_encode_stage = (\<lambda>_. ''stage''), rc_decode_stage = (\<lambda>_. None), rc_read_fields = (\<lambda>xs. xs),
      rc_from_utf8 = Inr, rc_gsub = (\<lambda>s _ _. Inr s)\<rparr>"

definition sample_redis_server :: redis_server where
  "sample_redis_server = \<lparr>rs_keys = Map.empty, rs_expiry = Map.empty, rs_faults = (\<lambda>_. None), rs_count = 0\<rparr>"

lemma sample_codec_ok: "reads_fields sample_codec" "carried sample_codec sample_redis_task"
  by (simp_all add: reads_fields_def sample_codec_def carried_def sample_redis_task_def plain_group_def)

lemma sample_redis_state: "redis_state sample_codec (rs_keys sample_redis_server) (Map.empty, Map.empty)"
  by (simp add: sample_redis_server_def redis_empty_state)

subsection \<open>The contract\<close>



lemma get_result_state:
  assumes f: "reads_fields C" and st: "redis_state C (rs_keys rs) st" and run: "redis_get_result C i rs = (out, rs')"
  shows "redis_state C (rs_keys rs') st \<and> (out = spec_result (fst st) i \<or> (\<exists>e. out = Inl (GR_Backend e)))"
proof -
  let ?v = "redis_view (rs_keys rs)"
  obtain r1 rs1 where 1: "redis_lookup_tasks C [i] rs = (r1, rs1)" by fastforce
  note L = lookup_tasks_state [OF st f 1]
  obtain r2 rs2 where 2: "redis_call (cmd_hget result_key i) rs1 = (r2, rs2)" by fastforce
  note R = redis_read [OF result.hget conjunct1 [OF L] 2]
  obtain r3 rs3 where 3: "redis_call (cmd_hget error_message_key i) rs2 = (r3, rs3)" by fastforce
  note E = redis_read [OF error_message.hget conjunct1 [OF R] 3]
  from st holdsD [of C ?v "fst st" i] have th: "task_holds C ?v i (fst st i)" by (simp add: redis_state_def)
  show ?thesis
  proof (cases r1)
    case (Inl e)
    with run 1 L show ?thesis by (auto simp: redis_get_result_def)
  next
    case (Inr os)
    show ?thesis
    proof (cases "fst st i")
      case None
      with L Inr have "os = [] \<or> os = [None]" by (auto simp: looked_up_def)
      with run 1 Inr L None show ?thesis by (auto simp: redis_get_result_def spec_result_def)
    next
      case (Some x)
      obtain r s where x: "x = (r, s)" by (cases x)
      with Some L Inr have "os = [Some r]" by (auto simp: looked_up_def)
      with run 1 2 3 Inr have "(out, rs') =
          (case r2 of Inl e \<Rightarrow> (Inl (GR_Backend e), rs2) | Inr (Some data) \<Rightarrow> (Inr (r, data), rs2)
           | Inr None \<Rightarrow> (case r3 of Inl e \<Rightarrow> (Inl (GR_Backend e), rs3)
               | Inr (Some err) \<Rightarrow> (Inl (GR_Failed r (from_utf8_lossy err)), rs3) | Inr None \<Rightarrow> (Inl (GR_NoResult r), rs3)))"
        by (cases r2; cases "projr r2") (simp_all add: redis_get_result_def)
      with th L R E Some x show ?thesis
        by (cases s) (auto simp: task_holds_def spec_result_def split: sum.splits option.splits)
    qed
  qed
qed



end
