(* ===== verification/Redis_Cases.thy ===== *)
theory Redis_Cases imports Redis_Runs begin

section \<open>Where the Redis backend departs from the contract\<close>

text \<open>
  Runs outside the conditions of \<open>redis_op_ok\<close>, and the reading limits.  Each is a run of the code
  on a concrete keyspace.
\<close>

lemmas redis_run = redis_call_def round_trip_def redis_bind_def redis_return_def redis_bind_call_def Let_def
  cmd_get_def cmd_set_def cmd_hget_def cmd_hmget_def cmd_hset_def cmd_hsetnx_def cmd_hdel_def cmd_zadd_def
  cmd_zrem_def cmd_zrange_def zrange_index_def as_isize_def with_hash_def with_zset_def hash_at_def zset_at_def
  zordered_def sample_redis_server_def

lemma sample_redis_sel [simp]:
  "tr_id sample_redis_task = ''t1''" "ti_group (tr_info sample_redis_task) = ''g''" "ti_due (tr_info sample_redis_task) = 5"
  "tr_data sample_redis_task = ''data''"
  by (simp_all add: sample_redis_task_def)

text \<open>Both ends of \<open>ZRANGE\<close> are part of the range: a limit of 1 reads two staged tasks.\<close>

lemma redis_stage_limit_off_by_one:
  "fst (redis_get_stage_info
      (sample_codec\<lparr>rc_decode_stage := (\<lambda>s. Some \<lparr>si_worker_id = ''w'', si_task_id = s, si_assigned_at = 0\<rparr>)\<rparr>) 1
      (sample_redis_server\<lparr>rs_keys := [stage_queue_key \<mapsto> RZset [(''a'', 1), (''b'', 2)],
         stage_info_key \<mapsto> RHash [(''a'', ''a''), (''b'', ''b'')]]\<rparr>)) =
   Inr [\<lparr>si_worker_id = ''w'', si_task_id = ''a'', si_assigned_at = 0\<rparr>,
        \<lparr>si_worker_id = ''w'', si_task_id = ''b'', si_assigned_at = 0\<rparr>]"
  by (simp add: redis_get_stage_info_def redis_run sample_codec_def List.map_filter_def)

text \<open>A task that fails after it succeeded keeps its old result: the outcome that failed is not seen.\<close>

definition finished_keys :: keyspace where
  "finished_keys = [task_info_key \<mapsto> RHash [(''t1'', ''info'')], data_store_key \<mapsto> RHash [(''t1'', ''data'')],
     done_queue_key \<mapsto> RZset [(''t1'', 7)], disposable_queue_key \<mapsto> RZset [(''t1'', 9)],
     result_key \<mapsto> RHash [(''t1'', ''out'')]]"

lemma plain_g [simp]: "plain_group ''g''"
  by (simp add: plain_group_def)

lemma queue_not_fixed_at [simp]:
  "queue_key g \<noteq> task_info_key" "queue_key g \<noteq> data_store_key" "queue_key g \<noteq> stage_queue_key"
  "queue_key g \<noteq> stage_info_key" "queue_key g \<noteq> done_queue_key" "queue_key g \<noteq> disposable_queue_key"
  "queue_key g \<noteq> result_key" "queue_key g \<noteq> error_message_key"
  by simp_all

lemma redis_fail_after_success:
  assumes "redis_fail sample_codec 8 sample_redis_task ''oops'' (sample_redis_server\<lparr>rs_keys := finished_keys\<rparr>) = (res, rs)"
  shows "res = Inr () \<and> fst (redis_get_result sample_codec ''t1'' rs) = Inr (sample_redis_task, ''out'')"
  using assms
  by (auto simp: redis_fail_def finish_pipeline_def redis_run sample_codec_def encode_task_info_def finished_keys_def
      redis_get_result_def redis_lookup_tasks_def lookup_pair_def decode_task_info_def new_record_def)

text \<open>
  Restoring a task that is finished puts it back onto its queue; a retry of one leaves its result,
  which \<open>get_result\<close> returns while the task waits for its next run.
\<close>

lemma redis_restore_requeues_finished:
  assumes "redis_restore sample_codec \<lparr>si_worker_id = ''w'', si_task_id = ''t1'', si_assigned_at = 6\<rparr>
      (sample_redis_server\<lparr>rs_keys := finished_keys\<rparr>) = (res, rs)"
  shows "res = Inr () \<and> rs_keys rs (queue_key ''g'') = Some (RZset [(''t1'', 5)])"
  using assms
  by (auto simp: redis_restore_def redis_run sample_codec_def finished_keys_def redis_lookup_tasks_def
      lookup_pair_def decode_task_info_def)

lemma redis_retry_keeps_result:
  assumes "redis_retry_task sample_codec sample_redis_task (sample_redis_server\<lparr>rs_keys := finished_keys\<rparr>) = (res, rs)"
  shows "res = Inr () \<and> rs_keys rs (queue_key ''g'') = Some (RZset [(''t1'', 5)]) \<and>
    fst (redis_get_result sample_codec ''t1'' rs) = Inr (sample_redis_task, ''out'')"
  using assms
  by (auto simp: redis_retry_task_def enqueue_tasks_def enqueue_script_def enqueue_one_def redis_run sample_codec_def
      finished_keys_def encode_task_info_def redis_get_result_def redis_lookup_tasks_def lookup_pair_def
      decode_task_info_def new_record_def)

text \<open>
  A group called \<open>scheduler\<close> has its queue under the key of the state of a scheduler called \<open>queue\<close>.
  The script stops at its \<open>ZADD\<close>, having stored the task already; the next submission finds it
  known and succeeds, and the task is in no queue.
\<close>

definition collided_task :: task_record where
  "collided_task = sample_redis_task\<lparr>tr_info := (tr_info sample_redis_task)\<lparr>ti_group := ''scheduler''\<rparr>\<rparr>"

lemma collided_task_sel [simp]:
  "tr_id collided_task = ''t1''" "ti_group (tr_info collided_task) = ''scheduler''" "ti_due (tr_info collided_task) = 5"
  "tr_data collided_task = ''data''"
  by (simp_all add: collided_task_def)

lemma redis_group_key_collision:
  assumes "redis_put_tasks sample_codec [collided_task]
      (sample_redis_server\<lparr>rs_keys := [scheduler_data_key ''queue'' \<mapsto> RString ''state'']\<rparr>) = (res1, rs1)"
    and "redis_put_tasks sample_codec [collided_task] rs1 = (res2, rs2)"
  shows "res1 = Inl (OperationFailed wrong_type) \<and> res2 = Inr () \<and>
    rs_keys rs2 task_info_key = Some (RHash [(''t1'', ''info'')]) \<and>
    rs_keys rs2 (queue_key ''scheduler'') = Some (RString ''state'')"
proof -
  have key: "scheduler_data_key ''queue'' = queue_key ''scheduler''" by (simp add: scheduler_data_key_def queue_key_def)
  from assms show ?thesis
    by (auto simp: redis_put_tasks_def enqueue_tasks_def enqueue_script_def enqueue_one_def redis_run sample_codec_def
        encode_task_info_def key convert_redis_error_def server_error_def)
qed

text \<open>A lock handle that holds the lock is refused when it acquires it again.\<close>

lemma redis_lock_not_reentrant:
  assumes "redis_lock_acquire t k l rs = (True, l1, rs1)" and "t' < t + 10" and "t \<le> t'"
  shows "fst (redis_lock_acquire t' k' l1 rs1) = False"
  using assms
  by (auto simp: redis_lock_acquire_def set_nx_ex_def expire_keys_def Let_def LOCK_TTL_SECS_def
      split: option.splits if_splits bool.splits prod.splits)

end
