(* ===== verification/Redis_Locks.thy ===== *)
theory Redis_Locks imports Redis begin

section \<open>Locks with a time to live\<close>

text \<open>
  Handles of \<open>RedisLock\<close> in a cluster: processes get, acquire, release and drop them in any order,
  replies may be lost, and time passes between the steps.  A step carries the handle that makes
  it.  Tokens are generated: a new one differs from those the handles have.  A successful
  acquisition is a lease: until its holder releases it or its ten seconds are over, nothing the
  other handles do ends it.
\<close>

definition fresh_token :: "string \<Rightarrow> (nat \<Rightarrow> redis_lock option) \<Rightarrow> bool" where
  "fresh_token k hs \<longleftrightarrow> (\<forall>h l. hs h = Some l \<longrightarrow> rl_token l \<noteq> Some k)"

definition same_locks :: "redis_server \<Rightarrow> redis_server \<Rightarrow> bool" where
  "same_locks rs rs' \<longleftrightarrow>
     (\<forall>target. rs_keys rs' (lock_key_prefix target) = rs_keys rs (lock_key_prefix target) \<and>
        rs_expiry rs' (lock_key_prefix target) = rs_expiry rs (lock_key_prefix target))"

inductive rlock_step ::
  "nat \<Rightarrow> (nat \<Rightarrow> redis_lock option) \<times> redis_server \<times> f64 \<Rightarrow> (nat \<Rightarrow> redis_lock option) \<times> redis_server \<times> f64 \<Rightarrow> bool"
  for h where
  get_lock: "hs h = None \<Longrightarrow> redis_get_lock target rs = (Inr l, rs') \<Longrightarrow> rlock_step h (hs, rs, t) (hs(h \<mapsto> l), rs', t)"
| acquire: "hs h = Some l \<Longrightarrow> t \<le> t' \<Longrightarrow> fresh_token k hs \<Longrightarrow> redis_lock_acquire t' k l rs = (ok, l', rs') \<Longrightarrow>
    rlock_step h (hs, rs, t) (hs(h \<mapsto> l'), rs', t')"
| release: "hs h = Some l \<Longrightarrow> t \<le> t' \<Longrightarrow> redis_lock_release t' l rs = (l', rs') \<Longrightarrow>
    rlock_step h (hs, rs, t) (hs(h \<mapsto> l'), rs', t')"
| dropped: "rlock_step h (hs, rs, t) (hs(h := None), rs, t)"
| other: "same_locks rs rs' \<Longrightarrow> t \<le> t' \<Longrightarrow> rlock_step h (hs, rs, t) (hs, rs', t')"

inductive_cases rlock_stepE [consumes 1, case_names get_lock acquire release dropped other]:
  "rlock_step h (hs, rs, t) (hs', rs', t')"

text \<open>The lease of handle \<open>h\<close>: its token is in the key until \<open>e\<close>, and no other handle has it.\<close>

definition lease :: "nat \<Rightarrow> string \<Rightarrow> string \<Rightarrow> f64 \<Rightarrow> (nat \<Rightarrow> redis_lock option) \<times> redis_server \<times> f64 \<Rightarrow> bool" where
  "lease h target k e st \<longleftrightarrow>
     (case st of (hs, rs, t) \<Rightarrow>
        (\<exists>l. hs h = Some l \<and> rl_key l = lock_key_prefix target \<and> rl_token l = Some k) \<and>
        (\<forall>h' l. h' \<noteq> h \<longrightarrow> hs h' = Some l \<longrightarrow> rl_token l \<noteq> Some k) \<and>
        rs_keys rs (lock_key_prefix target) = Some (RString k) \<and> rs_expiry rs (lock_key_prefix target) = Some e)"

lemma expire_keeps:
  assumes "rs_expiry rs key = Some e" and "t < e"
  shows "rs_keys (expire_keys t rs) key = rs_keys rs key" and "rs_expiry (expire_keys t rs) key = Some e"
  using assms by (simp_all add: expire_keys_def Let_def)

lemma acquire_other:
  assumes "rs_keys rs key = Some (RString k)" and "rs_expiry rs key = Some e" and "t < e"
    and "redis_lock_acquire t fresh l rs = (ok, l', rs')"
  shows "rs_keys rs' key = Some (RString k) \<and> rs_expiry rs' key = Some e \<and> rl_key l' = rl_key l \<and>
    (ok \<longrightarrow> rl_token l' = Some fresh \<and> rl_key l \<noteq> key) \<and> (\<not> ok \<longrightarrow> l' = l)"
  using assms(4) expire_keeps [OF assms(2,3)] assms(1)
  by (auto simp: redis_lock_acquire_def set_nx_ex_def Let_def split: option.splits if_splits bool.splits)

lemma release_other:
  assumes "rs_keys rs key = Some (RString k)" and "rs_expiry rs key = Some e" and "t < e" and "rl_token l \<noteq> Some k"
    and "redis_lock_release t l rs = (l', rs')"
  shows "rs_keys rs' key = Some (RString k) \<and> rs_expiry rs' key = Some e \<and> rl_key l' = rl_key l \<and> rl_token l' = None"
  using assms(4,5) expire_keeps [OF assms(2,3)] assms(1,2)
  by (auto simp: redis_lock_release_def del_if_token_def Let_def split: option.splits if_splits bool.splits)

lemma acquire_gets:
  assumes "redis_lock_acquire t fresh l rs = (True, l', rs')"
  shows "l' = l\<lparr>rl_token := Some fresh\<rparr> \<and> rs_keys rs' (rl_key l) = Some (RString fresh) \<and>
    rs_expiry rs' (rl_key l) = Some (t + of_nat LOCK_TTL_SECS)"
  using assms by (auto simp: redis_lock_acquire_def set_nx_ex_def Let_def split: option.splits if_splits)

lemma lease_step:
  assumes "rlock_step h' (hs, rs, t) (hs', rs', t')" and "h' \<noteq> h" and "t' < e" and L: "lease h target k e (hs, rs, t)"
  shows "lease h target k e (hs', rs', t')"
  using assms(1)
proof (cases rule: rlock_stepE)
  case (get_lock target' l)
  with L assms(2) show ?thesis by (auto simp: lease_def redis_get_lock_def redis_lock_new_def)
next
  case (acquire l fresh ok l')
  from L have key: "rs_keys rs (lock_key_prefix target) = Some (RString k)" "rs_expiry rs (lock_key_prefix target) = Some e"
    by (simp_all add: lease_def)
  from acquire(4) L have "fresh \<noteq> k" by (auto simp: lease_def fresh_token_def)
  with acquire_other [OF key assms(3) acquire(5)] L assms(2) acquire(1,2) show ?thesis
    by (cases ok) (auto simp: lease_def)
next
  case (release l l')
  from L have key: "rs_keys rs (lock_key_prefix target) = Some (RString k)" "rs_expiry rs (lock_key_prefix target) = Some e"
    by (simp_all add: lease_def)
  from L release(2) assms(2) have "rl_token l \<noteq> Some k" by (auto simp: lease_def)
  from release_other [OF key assms(3) this release(4)] L assms(2) release(1) show ?thesis by (auto simp: lease_def)
next
  case dropped
  with L assms(2) show ?thesis by (auto simp: lease_def)
next
  case other
  with L show ?thesis by (auto simp: lease_def same_locks_def)
qed

text \<open>Runs in which the handle \<open>h\<close> does nothing.\<close>

definition others_run :: "nat \<Rightarrow> (nat \<Rightarrow> redis_lock option) \<times> redis_server \<times> f64 \<Rightarrow>
    (nat \<Rightarrow> redis_lock option) \<times> redis_server \<times> f64 \<Rightarrow> bool" where
  "others_run h = (\<lambda>a b. \<exists>h'. h' \<noteq> h \<and> rlock_step h' a b)\<^sup>*\<^sup>*"

lemma time_passes: "rlock_step h (hs, rs, t) (hs', rs', t') \<Longrightarrow> t \<le> t'"
  by (auto elim: rlock_stepE)

lemma lease_others:
  assumes "others_run h st st'" and "lease h target k e st" and "snd (snd st') < e"
  shows "lease h target k e st'"
  using assms unfolding others_run_def
proof (induction rule: rtranclp_induct)
  case (step a b)
  obtain hs rs t hs' rs' t' where ab: "a = (hs, rs, t)" "b = (hs', rs', t')" by (cases a; cases b)
  with step obtain h' where h': "h' \<noteq> h" "rlock_step h' (hs, rs, t) (hs', rs', t')" by blast
  with time_passes [OF h'(2)] step.IH step.prems ab have "lease h target k e (hs, rs, t)" by simp
  from lease_step [OF h'(2,1) _ this] step.prems(2) ab show ?case by simp
qed

text \<open>
  C40: A \<open>RedisLock\<close> acquired at \<open>t\<close> is held until its holder releases it or ten seconds have passed:
  whatever other handles of the cluster do meanwhile (handles of expired acquisitions that
  release included), the key keeps the holder's token, and no other handle of the same lock
  acquires it before \<open>t + 10\<close>.
\<close>

theorem redis_lock_lease:
  assumes "hs h = Some l" and "rl_key l = lock_key_prefix target" and "fresh_token k hs"
    and "redis_lock_acquire t k l rs = (True, l1, rs1)"
    and "others_run h (hs(h \<mapsto> l1), rs1, t) (hs2, rs2, t2)"
    and "hs2 h' = Some l'" and "h' \<noteq> h" and "rl_key l' = lock_key_prefix target"
    and "t2 \<le> t3" and "t3 < t + 10" and "redis_lock_acquire t3 k' l' rs2 = (ok, l2, rs3)"
  shows "rs_keys rs2 (lock_key_prefix target) = Some (RString k) \<and> \<not> ok \<and>
    rs_keys rs3 (lock_key_prefix target) = Some (RString k)"
proof -
  from acquire_gets [OF assms(4)] assms(1-3) have "lease h target k (t + 10) (hs(h \<mapsto> l1), rs1, t)"
    by (auto simp: lease_def fresh_token_def LOCK_TTL_SECS_def)
  from lease_others [OF assms(5) this] assms(9,10) have "lease h target k (t + 10) (hs2, rs2, t2)" by simp
  then have key: "rs_keys rs2 (lock_key_prefix target) = Some (RString k)"
    "rs_expiry rs2 (lock_key_prefix target) = Some (t + 10)" by (simp_all add: lease_def)
  from acquire_other [OF key assms(10,11)] key assms(8) show ?thesis by auto
qed

theorem redis_lock_lease_witness:
  "\<exists>l1 rs1. redis_lock_acquire 0 ''a'' (redis_lock_new (lock_key_prefix ''s''))
      \<lparr>rs_keys = Map.empty, rs_expiry = Map.empty, rs_faults = (\<lambda>_. None), rs_count = 0\<rparr> = (True, l1, rs1) \<and>
     \<not> fst (redis_lock_acquire 5 ''b'' (redis_lock_new (lock_key_prefix ''s'')) rs1)"
proof -
  let ?l = "redis_lock_new (lock_key_prefix ''s'')"
  let ?rs = "\<lparr>rs_keys = Map.empty, rs_expiry = Map.empty, rs_faults = (\<lambda>_. None), rs_count = 0\<rparr> :: redis_server"
  let ?hs = "(\<lambda>_. None)(0 \<mapsto> ?l, 1 \<mapsto> ?l) :: nat \<Rightarrow> redis_lock option"
  obtain l1 rs1 where got: "redis_lock_acquire 0 ''a'' ?l ?rs = (True, l1, rs1)"
    by (simp add: redis_lock_acquire_def expire_keys_def set_nx_ex_def)
  obtain ok l2 rs3 where again: "redis_lock_acquire 5 ''b'' ?l rs1 = (ok, l2, rs3)" by (cases "redis_lock_acquire 5 ''b'' ?l rs1") auto
  have "fresh_token ''a'' ?hs" "rl_key ?l = lock_key_prefix ''s''" by (auto simp: fresh_token_def redis_lock_new_def)
  moreover have "others_run 0 (?hs(0 \<mapsto> l1), rs1, 0) (?hs(0 \<mapsto> l1), rs1, 0)" by (simp add: others_run_def)
  ultimately have "\<not> ok"
    using redis_lock_lease [of ?hs 0 ?l "''s''" "''a''" 0 ?rs l1 rs1 "?hs(0 \<mapsto> l1)" rs1 0 1 ?l 5 "''b''" ok l2 rs3] got again
    by simp
  with got again show ?thesis by auto
qed

end
