(* ===== verification/Spec2Isabelle.thy ===== *)
theory Spec2Isabelle imports Kit_Runs Fleet Sql_Cluster Redis_Cases Redis_Locks begin

text \<open>
  taskkit-rs is a distributed task queue: applications submit tasks to a shared backend, worker
  processes claim and run them, schedulers submit tasks at points of a wall clock grid, and
  background services look after dead workers and expired results.  This development models the
  Rust code under src/src and proves what makes it correct.

  PARTS AND HOW THEY INTERACT.
  A \<open>Kit\<close> (kit.rs) submits tasks to a \<open>TaskBackend\<close>, starts a \<open>Runtime\<close> (runtime.rs) and gives out
  \<open>TaskResult\<close> handles (result.rs).  The runtime spawns one \<open>GroupRunner\<close> per group and one
  \<open>ServiceRunner\<close> per service (runner.rs) and obeys control events.  A group runner claims batches
  with its \<open>Worker\<close> (worker.rs), which runs the handler of the \<open>TaskRegistry\<close> (task.rs) and settles
  the task at the backend.  Services (service.rs) and schedulers (scheduler.rs) run under locks of a
  \<open>LockProvider\<close>.  The traits are those of backend.rs; they are implemented in memory
  (impls/memory.rs), over SQL (impls/sqlx.rs with the dialects impls/postgres.rs and
  impls/mysql.rs) and over Redis (impls/redis.rs).  A lock may be lost while it is held, so
  everything guarded by one has to be idempotent.

  CONVENTIONS.
  A struct is a record, an enum a datatype, \<open>Result\<close> a sum with the error on the left, a panic
  \<open>None\<close> (or \<open>Panicked\<close> for handlers, \<open>RunPanicked\<close> for \<open>run\<close>).  Asynchronous functions are functions on the state of the
  backend; a reading of the clock, a generated id and an unspecified order of a hash map are
  arguments.  Strings are their UTF-8 bytes, \<open>f64\<close> is a rational that every operation rounds
  (\<open>Float64\<close>: binary64, round half to even, without infinities, NaN and the sign of zero), durations are
  nanoseconds, u32/u64/i32 values that can wrap are words.  Crates are parameters (chrono, serde_json,
  uuid, tokio's sleep and broadcast channel, Lua's gsub) with what the code relies on as hypotheses;
  the SQL statements and Redis commands that the source spells out are given their documented meaning.

  THEORIES, in the order of their imports, with the files they model.
  \<open>Prelude\<close>: shared types, hints, association lists, sorting.  \<open>Float64\<close>: rounding of f64.
  \<open>Util\<close> (util.rs): \<open>Ttl\<close>, \<open>Timestamp\<close>, dates; round trip of durations through f64.
  \<open>Utf8\<close>: \<open>from_utf8_lossy\<close>.  \<open>Task\<close> (task.rs, stage.rs): records, errors, \<open>prepare\<close>, \<open>execute\<close>, the
  registry, ids of schedule points.
  \<open>Backend_Api\<close> (backend.rs): errors, events, the traits as records of operations; the abstract store
  \<open>tview\<close> (a task is \<open>Queued\<close>, \<open>Staged\<close>, \<open>Succeeded\<close> or \<open>Failed\<close>) with one function per operation,
  \<open>good_batch\<close> (what \<open>assign_tasks\<close> may return), and the contract as the locales \<open>task_store\<close>,
  \<open>full_backend\<close>, \<open>worker_registry\<close> and \<open>cluster\<close>, in which services, workers and schedulers are
  proved once for every backend.
  \<open>Memory\<close> (impls/memory.rs), \<open>Memory_Facts\<close> (invariant, abstraction, one lemma per operation),
  \<open>Memory_Contract\<close> (interpretations \<open>mem\<close> and \<open>mem_rel\<close>), \<open>Memory_Runs\<close> (C1, C6, C10, C12-C14).
  \<open>Scheduler\<close> (scheduler.rs), \<open>Scheduler_Facts\<close> (the grid in f64), \<open>Scheduler_Runs\<close> (C3, C4, C7, C8,
  C9, C11, C15, C16).
  \<open>Worker\<close> (worker.rs), \<open>Worker_Runs\<close> (C17, C18, C24); \<open>Service\<close> (service.rs), \<open>Service_Runs\<close> (C19,
  C21, C23); \<open>Runner\<close> (runner.rs: \<open>wait_or_stop\<close> and \<open>service_loop\<close> as functions of time, \<open>group_step\<close>
  as a step relation with semaphore permits), \<open>Runner_Runs\<close> (C20, C22, C25).
  \<open>Fleet\<close>: submitting applications, schedulers, workers, crashes and services interleaved on one backend
  (relation \<open>fleet_step\<close>, every step a call of the models above; locale \<open>reliable_cluster\<close>,
  interpretation \<open>mem_fleet\<close>; C2, C5).
  \<open>Runtime\<close> (runtime.rs: configuration, event loop, and \<open>runtime_run\<close> with the stops and joins of the
  shutdown and the references shared with the heartbeat), \<open>Task_Result\<close> (result.rs), \<open>Kit\<close> (kit.rs), \<open>Kit_Runs\<close> (C26-C30).
  \<open>Sqlx\<close> (impls/sqlx.rs): rows, transactions, every operation over the record \<open>sql_queries\<close> of the
  trait \<open>SqlQueries\<close>.  \<open>Sqlx_Contract\<close>: the locale \<open>sql_backend\<close> of what a dialect promises and the
  effect of each operation; \<open>Sqlx_View\<close>: the operations on the abstract store; \<open>Sqlx_Assign\<close>: the
  claiming loop; \<open>Sqlx_Steps\<close>: interleavings of several processes, event polling.
  \<open>Sql_Engine\<close>: tables and statement forms of a server with failing statements and lost replies;
  \<open>Sql_Facts\<close>: what they do to the tables seen as maps.  \<open>Postgres\<close> and \<open>Mysql\<close> (the dialects and
  their locks), \<open>Postgres_Contract\<close> (interpretation \<open>pg\<close>), \<open>Mysql_Contract\<close> (the contract under an
  injective collation), \<open>Sql_Locks\<close> (locale \<open>session_locks\<close>, interpretations \<open>pgl\<close> and \<open>myl\<close>),
  \<open>Sql_Runs\<close> (C31-C35), \<open>Sql_Cluster\<close> (C36, C37 and runs that lose an event, a task, a claim).
  \<open>Redis\<close> (impls/redis.rs): keyspace and commands, keys, both Lua scripts line by line, pipelines, every
  operation, locks with their time to live.  \<open>Redis_View\<close>: the keyspace as a record of maps, locales
  \<open>hash_slot\<close> and \<open>zset_slot\<close> interpreted for every key, and the calculus \<open>implements\<close>;
  \<open>Redis_Contract\<close> and \<open>Redis_Steps\<close>: the relation \<open>redis_state\<close> to the abstract store, kept by every
  operation; \<open>Redis_Runs\<close> (C38, C39), \<open>Redis_Locks\<close> (C40), \<open>Redis_Cases\<close> (runs outside the contract).

  WHAT THE PROPERTIES SHOW.
  No task is ever lost and no result invented (C2), and no task is ever stuck (C5), whatever
  processes do and wherever they crash.  The in-process backend refines the abstract store operation by operation (C1), and so do the
  transactions of the SQL backend (C32) and the operations of the Redis backend (C38, C39), failures
  and lost replies included.  Claims are exclusive (C6, C34), earliest due first (C1, C33, C38) and
  end (C33).  Schedulers hit every grid point once (C3, C7, C8), whatever locks and crashes do (C4,
  C9), with the wall clock their schedule names (C15, C16).  A handled task is settled on every branch
  (C17, C18, C24); a group runner owns exactly what is staged under it and stays within its
  concurrency (C20, C22), and a stopped one can always be joined, which is how a process ends with
  nothing left running (C27); services neither disturb the living nor forget the dead (C19, C21, C23).
  Loops end when they should (C25, C27, C28) and events steer what they name (C26, C36).  Locks
  exclude each other for as long as they can (C10, C37, C40).  C31 is the round trip of rows.

  BOUNDS AND FUEL.
  \<open>get_loop\<close>, \<open>assign_loop\<close>, \<open>next_event\<close> and \<open>receive_events\<close> take fuel.  C28 shows that 12 iterations
  more than the timeout in seconds suffice for \<open>get\<close>, C33 that \<open>fuel + 1\<close> passes suffice for a table
  of fewer than \<open>8 * 2 ^ fuel\<close> rows; C36 counts polls.  \<open>service_loop\<close> takes fuel for its calls; C25
  says how much time a stop takes.  Times to live round-trip up to \<open>2 ^ 51\<close> ns.  Redis limits are
  below \<open>2 ^ 53\<close>.

  ASSUMPTIONS.
  Each round trip or transaction takes effect at one instant; where the order matters, transactions
  of other processes come in between as arguments or steps.  An advisory or named lock lives as
  long as its session, and a connection does not break while a handle has it.  \<open>LIMIT\<close> with a
  negative number is refused.  A stream that has ended answers \<open>None\<close> whenever it is asked again.
  The groups of C38 are those whose queue key is not the key of a scheduler or lock.

  NOT MODELLED.
  Connecting, connection pools and migrations (I/O of the drivers; a subscription of Redis takes its
  connection as an argument); logging; the
  \<open>From\<close>/\<open>Display\<close> boilerplate of newtypes (they are their strings) and module re-exports (lib.rs,
  impls.rs); panics of a backend inside a spawned execution; the unit tests at the end of scheduler.rs.
\<close>

end
